(* ===== verification/Prelude.thy ===== *)
theory Prelude
  imports Main "HOL-Library.Multiset" "HOL-Library.Word"
begin

text \<open>
  Shared material of the development: the fact collections the component theories add
  to, type names for Go's values, fixed-width wrap-around, and the generic lemmas on
  lists, multisets and delimited strings that several components use.
\<close>

named_theorems go_defs
named_theorems sql_defs
named_theorems inv_defs

section \<open>Go values\<close>

text \<open>
  A Go string is a sequence of bytes, a HOL \<open>char\<close> is a byte. An instant
  (\<^verbatim>\<open>time.Time\<close>) is the number of nanoseconds since the Unix epoch, a
  \<^verbatim>\<open>time.Duration\<close> a number of nanoseconds.
\<close>

type_synonym go_string = string
type_synonym instant = int
type_synonym duration = int
type_synonym byte = "8 word"

abbreviation max_int64 :: int where "max_int64 \<equiv> 9223372036854775807"
abbreviation min_int64 :: int where "min_int64 \<equiv> -9223372036854775808"
abbreviation max_int32 :: int where "max_int32 \<equiv> 2147483647"
abbreviation min_int32 :: int where "min_int32 \<equiv> -2147483648"

text \<open>Arithmetic on Go's \<^verbatim>\<open>int\<close>/\<^verbatim>\<open>int64\<close> and conversion to \<^verbatim>\<open>int32\<close> wrap around.\<close>

definition wrap64 :: "int \<Rightarrow> int" where
  "wrap64 i = (i + 9223372036854775808) mod 18446744073709551616 - 9223372036854775808"

definition wrap32 :: "int \<Rightarrow> int" where
  "wrap32 i = (i + 2147483648) mod 4294967296 - 2147483648"

definition is_int64 :: "int \<Rightarrow> bool" where
  "is_int64 i \<longleftrightarrow> min_int64 \<le> i \<and> i \<le> max_int64"

definition is_int32 :: "int \<Rightarrow> bool" where
  "is_int32 i \<longleftrightarrow> min_int32 \<le> i \<and> i \<le> max_int32"

lemma wrap64_id [simp]: "is_int64 i \<Longrightarrow> wrap64 i = i"
  by (simp add: is_int64_def wrap64_def)

lemma wrap64_range [simp]: "is_int64 (wrap64 i)"
  by (simp add: is_int64_def wrap64_def)

lemma wrap32_id [simp]: "is_int32 i \<Longrightarrow> wrap32 i = i"
  by (simp add: is_int32_def wrap32_def)

lemma wrap32_range [simp]: "is_int32 (wrap32 i)"
  by (simp add: is_int32_def wrap32_def)

text \<open>Quotients by positive constants, as linear bounds.\<close>

lemma int_div_bounds:
  fixes x k :: int
  assumes "0 < k"
  shows "k * (x div k) \<le> x" and "x < k * (x div k) + k"
  using assms mult_div_mod_eq[of k x] pos_mod_bound[of k x] pos_mod_sign[of k x] by linarith+

section \<open>Lists\<close>

lemma mset_swap_update:
  "i < length xs \<Longrightarrow> j < length xs \<Longrightarrow> mset (xs[i := xs ! j, j := xs ! i]) = mset xs"
  by (simp add: mset_update nth_list_update)

lemma nth_swap_update:
  "i < length xs \<Longrightarrow> j < length xs \<Longrightarrow> k < length xs \<Longrightarrow>
   xs[i := xs ! j, j := xs ! i] ! k = (if k = i then xs ! j else if k = j then xs ! i else xs ! k)"
  by (auto simp: nth_list_update)

lemma swap_update_involutive:
  "i < length xs \<Longrightarrow> j < length xs \<Longrightarrow>
   (let ys = xs[i := xs ! j, j := xs ! i] in ys[i := ys ! j, j := ys ! i]) = xs"
  by (auto simp: Let_def nth_list_update intro!: nth_equalityI)

lemma distinct_index_unique:
  "distinct xs \<Longrightarrow> i < length xs \<Longrightarrow> j < length xs \<Longrightarrow> xs ! i = xs ! j \<longleftrightarrow> i = j"
  by (rule nth_eq_iff_index_eq)

section \<open>Delimited strings\<close>

text \<open>
  Two texts that agree up to a delimiter not occurring in either first field agree on the
  field and on the rest.
\<close>

lemma delimiter_split:
  assumes "xs @ c # us = ys @ d # vs"
    and "c \<notin> set ys" and "d \<notin> set xs"
  shows "xs = ys \<and> c = d \<and> us = vs"
  using assms
proof (induction xs arbitrary: ys)
  case Nil
  then show ?case by (cases ys) auto
next
  case (Cons x xs)
  then show ?case by (cases ys) auto
qed

lemma last_delimiter_split:
  assumes "us @ c # xs = vs @ c # ys"
    and "c \<notin> set xs" and "c \<notin> set ys"
  shows "us = vs \<and> xs = ys"
proof -
  have "rev xs @ c # rev us = rev ys @ c # rev vs"
    using assms(1) by (metis append.assoc append_Cons append_Nil rev.simps(2) rev_append)
  then have "rev xs = rev ys \<and> c = c \<and> rev us = rev vs"
    by (rule delimiter_split) (use assms in auto)
  then show ?thesis by simp
qed

text \<open>
  An encoding whose outputs avoid a set of delimiters can be followed by a delimiter and
  read back. The locale is the interface between the printers of numbers and instants and
  the records built from them.
\<close>

locale delimited_encoding =
  fixes enc :: "'a \<Rightarrow> string"
    and dom_ok :: "'a \<Rightarrow> bool"
    and delims :: "char set"
  assumes enc_inj: "dom_ok x \<Longrightarrow> dom_ok y \<Longrightarrow> enc x = enc y \<Longrightarrow> x = y"
    and enc_clean: "dom_ok x \<Longrightarrow> set (enc x) \<inter> delims = {}"
begin

lemma field_split:
  assumes "enc x @ c # us = enc y @ d # vs"
    and "dom_ok x" "dom_ok y" "c \<in> delims" "d \<in> delims"
  shows "x = y \<and> c = d \<and> us = vs"
proof -
  have "c \<notin> set (enc y)" "d \<notin> set (enc x)"
    using enc_clean assms by blast+
  with assms(1) have "enc x = enc y \<and> c = d \<and> us = vs"
    by (rule delimiter_split)
  with assms show ?thesis using enc_inj by blast
qed

end

section \<open>Transition systems\<close>

text \<open>
  States reachable from an initial state by a step relation, and the invariant rule the
  concurrent components use.
\<close>

inductive reachable_by :: "('s \<Rightarrow> bool) \<Rightarrow> ('s \<Rightarrow> 's \<Rightarrow> bool) \<Rightarrow> 's \<Rightarrow> bool"
  for init :: "'s \<Rightarrow> bool" and step :: "'s \<Rightarrow> 's \<Rightarrow> bool" where
  reachable_init: "init s \<Longrightarrow> reachable_by init step s"
| reachable_step: "reachable_by init step s \<Longrightarrow> step s t \<Longrightarrow> reachable_by init step t"

locale step_invariant =
  fixes init :: "'s \<Rightarrow> bool"
    and step :: "'s \<Rightarrow> 's \<Rightarrow> bool"
    and inv :: "'s \<Rightarrow> bool"
  assumes inv_init: "init s \<Longrightarrow> inv s"
    and inv_step: "step s t \<Longrightarrow> inv s \<Longrightarrow> inv t"
begin

lemma reachable_inv: "reachable_by init step s \<Longrightarrow> inv s"
  by (induction rule: reachable_by.induct) (auto intro: inv_init inv_step)

lemma star_inv: "step\<^sup>*\<^sup>* s t \<Longrightarrow> inv s \<Longrightarrow> inv t"
  by (induction rule: rtranclp_induct) (auto intro: inv_step)

end

text \<open>
  A simulation with stuttering: every concrete step that keeps its invariant is a step of the
  specification or leaves its state as it is.  Reachable concrete states then lie over reachable
  states of the specification.
\<close>

locale simulation = step_invariant cinit cstep inv
  for cinit :: "'c \<Rightarrow> bool" and cstep :: "'c \<Rightarrow> 'c \<Rightarrow> bool" and inv :: "'c \<Rightarrow> bool" +
  fixes ainit :: "'a \<Rightarrow> bool"
    and astep :: "'a \<Rightarrow> 'a \<Rightarrow> bool"
    and abs :: "'c \<Rightarrow> 'a"
  assumes sim_init: "cinit c \<Longrightarrow> ainit (abs c)"
    and sim_step: "cstep c c' \<Longrightarrow> inv c \<Longrightarrow> abs c' = abs c \<or> astep (abs c) (abs c')"
begin

lemma reachable_abs: "reachable_by cinit cstep c \<Longrightarrow> reachable_by ainit astep (abs c)"
proof (induction rule: reachable_by.induct)
  case (reachable_step c c')
  then have "inv c" by (intro reachable_inv)
  with reachable_step sim_step[of c c'] show ?case by (metis reachable_by.reachable_step)
qed (simp add: reachable_init sim_init)

end

end
