(* ===== verification/Go_Errors.thy ===== *)
theory Go_Errors
  imports Prelude
begin

text \<open>
  Go error values: \<^verbatim>\<open>errors.New\<close> sentinels (identified by the variable that holds them),
  server errors of the PostgreSQL driver, formatted errors and the wrapping done by
  \<^verbatim>\<open>fmt.Errorf\<close> with \<^verbatim>\<open>%w\<close>; \<^verbatim>\<open>errors.Is\<close>, \<^verbatim>\<open>errors.As\<close> and the classification of
  internal/pgerr built on them.
\<close>

section \<open>Error chains\<close>

text \<open>
  \<open>New v t\<close> is the value of the package variable \<open>v\<close> created by \<^verbatim>\<open>errors.New(t)\<close>: two
  sentinels are the same error only when they are the same variable. \<open>Wrapf p e q\<close> is
  \<^verbatim>\<open>fmt.Errorf("p%wq", e)\<close>.
\<close>

datatype error =
    New string string
  | PgError string string
  | Errorf string
  | Wrapf string error string

fun Error_text :: "error \<Rightarrow> string" where
  "Error_text (New v t) = t"
| "Error_text (PgError c m) = m @ '' (SQLSTATE '' @ c @ '')''"
| "Error_text (Errorf t) = t"
| "Error_text (Wrapf p e q) = p @ Error_text e @ q"

fun errors_Is :: "error \<Rightarrow> error \<Rightarrow> bool" where
  "errors_Is (Wrapf p e q) t = (Wrapf p e q = t \<or> errors_Is e t)"
| "errors_Is e t = (e = t)"

fun errors_As_PgError :: "error \<Rightarrow> string option" where
  "errors_As_PgError (PgError c m) = Some c"
| "errors_As_PgError (Wrapf p e q) = errors_As_PgError e"
| "errors_As_PgError (New v t) = None"
| "errors_As_PgError (Errorf t) = None"

definition wrap :: "string \<Rightarrow> error \<Rightarrow> error" where
  "wrap p e = Wrapf (p @ '': '') e ''''"

lemma errors_Is_refl [simp]: "errors_Is e e"
  by (cases e) simp_all

lemma errors_Is_Wrapf_New [simp]: "errors_Is (Wrapf p e q) (New v t) = errors_Is e (New v t)"
  by simp

lemma errors_Is_wrap_New [simp]: "errors_Is (wrap p e) (New v t) = errors_Is e (New v t)"
  by (simp add: wrap_def)

lemma errors_As_wrap [simp]: "errors_As_PgError (wrap p e) = errors_As_PgError e"
  by (simp add: wrap_def)

declare errors_Is.simps(1) [simp del]

text \<open>Sentinels of the libraries the code compares against.\<close>

definition pgx_ErrNoRows :: error where
  "pgx_ErrNoRows = New ''pgx.ErrNoRows'' ''no rows in result set''"

definition io_EOF :: error where
  "io_EOF = New ''io.EOF'' ''EOF''"

definition io_ErrUnexpectedEOF :: error where
  "io_ErrUnexpectedEOF = New ''io.ErrUnexpectedEOF'' ''unexpected EOF''"

definition context_DeadlineExceeded :: error where
  "context_DeadlineExceeded = New ''context.DeadlineExceeded'' ''context deadline exceeded''"

lemmas library_sentinels [go_defs] =
  pgx_ErrNoRows_def io_EOF_def io_ErrUnexpectedEOF_def context_DeadlineExceeded_def

section \<open>internal/pgerr\<close>

definition codeUniqueViolation :: string where "codeUniqueViolation = ''23505''"
definition codeForeignKeyViolation :: string where "codeForeignKeyViolation = ''23503''"
definition codeCheckViolation :: string where "codeCheckViolation = ''23514''"
definition codeNotNullViolation :: string where "codeNotNullViolation = ''23502''"
definition codeSerializationError :: string where "codeSerializationError = ''40001''"

lemmas pg_codes [go_defs] =
  codeUniqueViolation_def codeForeignKeyViolation_def codeCheckViolation_def
  codeNotNullViolation_def codeSerializationError_def

definition pgerr_code :: "error \<Rightarrow> string" where
  "pgerr_code err = (case errors_As_PgError err of Some c \<Rightarrow> c | None \<Rightarrow> '''')"

definition IsUnique :: "error \<Rightarrow> bool" where
  "IsUnique err \<longleftrightarrow> pgerr_code err = codeUniqueViolation"

definition IsForeignKey :: "error \<Rightarrow> bool" where
  "IsForeignKey err \<longleftrightarrow> pgerr_code err = codeForeignKeyViolation"

definition IsCheck :: "error \<Rightarrow> bool" where
  "IsCheck err \<longleftrightarrow> pgerr_code err = codeCheckViolation"

definition IsNotNull :: "error \<Rightarrow> bool" where
  "IsNotNull err \<longleftrightarrow> pgerr_code err = codeNotNullViolation"

definition IsSerialization :: "error \<Rightarrow> bool" where
  "IsSerialization err \<longleftrightarrow> pgerr_code err = codeSerializationError"

lemmas pgerr_defs =
  pgerr_code_def IsUnique_def IsForeignKey_def IsCheck_def IsNotNull_def IsSerialization_def

lemma pgerr_code_wrap [simp]: "pgerr_code (wrap p e) = pgerr_code e"
  by (simp add: pgerr_code_def)

text \<open>A chain has at most one class: the predicates are pairwise exclusive.\<close>

lemma pgerr_exclusive:
  "\<not> (IsUnique err \<and> IsForeignKey err)"
  "\<not> (IsUnique err \<and> IsCheck err)"
  "\<not> (IsForeignKey err \<and> IsCheck err)"
  by (auto simp: pgerr_defs pg_codes)

end
