(* ===== verification/Go_Strings.thy ===== *)
theory Go_Strings
  imports Go_Errors
begin

text \<open>
  The parts of Go's \<^verbatim>\<open>strings\<close> and \<^verbatim>\<open>strconv\<close> packages the program uses: decimal printing
  and parsing with the \<^verbatim>\<open>int64\<close> range rules, trimming, lower-casing and splitting, with
  the laws the components rely on.
\<close>

section \<open>Decimal numbers\<close>

definition digit :: "nat \<Rightarrow> char" where
  "digit d = char_of (48 + d)"

definition digit_val :: "char \<Rightarrow> nat" where
  "digit_val c = of_char c - 48"

definition is_digit :: "char \<Rightarrow> bool" where
  "is_digit c \<longleftrightarrow> 48 \<le> (of_char c :: nat) \<and> (of_char c :: nat) \<le> 57"

fun dec_nat :: "nat \<Rightarrow> string" where
  "dec_nat n = (if n < 10 then [digit n] else dec_nat (n div 10) @ [digit (n mod 10)])"

declare dec_nat.simps [simp del]

definition FormatInt :: "int \<Rightarrow> string" where
  "FormatInt i = (if i < 0 then CHR ''-'' # dec_nat (nat (- i)) else dec_nat (nat i))"

lemma of_char_digit [simp]: "d < 10 \<Longrightarrow> of_char (digit d) = 48 + d"
  by (simp add: digit_def of_char_of)

lemma digit_val_digit [simp]: "d < 10 \<Longrightarrow> digit_val (digit d) = d"
  by (simp add: digit_val_def)

lemma is_digit_digit [simp]: "d < 10 \<Longrightarrow> is_digit (digit d)"
  by (simp add: is_digit_def)

lemma digit_val_less: "is_digit c \<Longrightarrow> digit_val c < 10"
  unfolding is_digit_def digit_val_def by linarith

lemma digit_digit_val: "is_digit c \<Longrightarrow> digit (digit_val c) = c"
  by (simp add: digit_def is_digit_def digit_val_def)

lemma dec_nat_digits: "\<forall>c \<in> set (dec_nat n). is_digit c"
proof (induction n rule: dec_nat.induct)
  case (1 n)
  then show ?case by (subst dec_nat.simps) auto
qed

lemma dec_nat_not_Nil [simp]: "dec_nat n \<noteq> []"
  by (subst dec_nat.simps) simp

text \<open>The value of a digit string, the left inverse of printing.\<close>

definition dec_val :: "string \<Rightarrow> nat" where
  "dec_val s = foldl (\<lambda>n c. 10 * n + digit_val c) 0 s"

lemma dec_val_snoc [simp]: "dec_val (s @ [c]) = 10 * dec_val s + digit_val c"
  by (simp add: dec_val_def)

lemma dec_val_dec_nat [simp]: "dec_val (dec_nat n) = n"
proof (induction n rule: dec_nat.induct)
  case (1 n)
  show ?case
  proof (cases "n < 10")
    case True
    then show ?thesis by (subst dec_nat.simps) (simp add: dec_val_def)
  next
    case False
    with "1" have "dec_val (dec_nat (n div 10)) = n div 10" by simp
    with False show ?thesis by (subst dec_nat.simps) simp
  qed
qed

lemma dec_nat_inj: "dec_nat m = dec_nat n \<longleftrightarrow> m = n"
  by (metis dec_val_dec_nat)

lemma minus_not_digit: "\<not> is_digit CHR ''-''"
  by (simp add: is_digit_def)

lemma dec_nat_no_minus: "CHR ''-'' \<notin> set (dec_nat n)"
  using dec_nat_digits minus_not_digit by blast

lemma FormatInt_inj: "FormatInt i = FormatInt j \<Longrightarrow> i = j"
proof -
  assume eq: "FormatInt i = FormatInt j"
  have hd: "hd (dec_nat n) \<noteq> CHR ''-''" for n
    using dec_nat_no_minus[of n] hd_in_set[OF dec_nat_not_Nil[of n]] by metis
  have "i < 0 \<longleftrightarrow> j < 0"
    using eq hd[of "nat i"] hd[of "nat j"] by (auto simp: FormatInt_def split: if_splits) (metis list.sel(1))+
  with eq show ?thesis by (auto simp: FormatInt_def dec_nat_inj split: if_splits)
qed

lemma FormatInt_chars: "c \<in> set (FormatInt i) \<Longrightarrow> is_digit c \<or> c = CHR ''-''"
  using dec_nat_digits by (auto simp: FormatInt_def split: if_splits)

section \<open>strconv.ParseInt(s, 10, 64) and strconv.Atoi\<close>

text \<open>
  The result pairs the value with the error, as the Go function does: a range error comes
  with the nearest \<^verbatim>\<open>int64\<close>, a syntax error with 0. The digit loop of \<^verbatim>\<open>ParseUint\<close> stops at
  the first overflow, before it looks at later characters.
\<close>

datatype num_error = ErrSyntax | ErrRange

fun ParseUint_loop :: "nat \<Rightarrow> string \<Rightarrow> nat \<times> num_error option" where
  "ParseUint_loop n [] = (n, None)"
| "ParseUint_loop n (c # cs) =
     (if \<not> is_digit c then (0, Some ErrSyntax)
      else if 1844674407370955162 \<le> n then (18446744073709551615, Some ErrRange)
      else if 18446744073709551615 < 10 * n + digit_val c
      then (18446744073709551615, Some ErrRange)
      else ParseUint_loop (10 * n + digit_val c) cs)"

definition ParseUint :: "string \<Rightarrow> nat \<times> num_error option" where
  "ParseUint s = (if s = '''' then (0, Some ErrSyntax) else ParseUint_loop 0 s)"

definition ParseInt :: "string \<Rightarrow> int \<times> num_error option" where
  "ParseInt s =
     (if s = '''' then (0, Some ErrSyntax)
      else
        let neg = (hd s = CHR ''-'');
            s' = (if hd s = CHR ''+'' \<or> hd s = CHR ''-'' then tl s else s);
            (un, err) = ParseUint s'
        in if err = Some ErrSyntax then (0, Some ErrSyntax)
           else if \<not> neg \<and> 9223372036854775808 \<le> un then (max_int64, Some ErrRange)
           else if neg \<and> 9223372036854775808 < un then (min_int64, Some ErrRange)
           else (if neg then - int un else int un, None))"

definition Atoi :: "string \<Rightarrow> int \<times> num_error option" where
  "Atoi s = ParseInt s"

lemma dec_fold_mono: "v \<le> foldl (\<lambda>n c. 10 * n + digit_val c) v cs"
proof (induction cs arbitrary: v)
  case (Cons d ds)
  have "v \<le> 10 * v + digit_val d" by simp
  also have "\<dots> \<le> foldl (\<lambda>n c. 10 * n + digit_val c) (10 * v + digit_val d) ds"
    by (rule Cons.IH)
  finally show ?case by simp
qed simp

lemma ParseUint_loop_digits:
  assumes "\<forall>c \<in> set s. is_digit c"
    and "foldl (\<lambda>n c. 10 * n + digit_val c) n s \<le> 18446744073709551615"
  shows "ParseUint_loop n s = (foldl (\<lambda>n c. 10 * n + digit_val c) n s, None)"
  using assms
proof (induction s arbitrary: n)
  case Nil
  then show ?case by simp
next
  case (Cons c cs)
  have "10 * n + digit_val c \<le> 18446744073709551615"
    using dec_fold_mono[of "10 * n + digit_val c" cs] Cons.prems(2) by simp
  moreover have "ParseUint_loop (10 * n + digit_val c) cs =
      (foldl (\<lambda>n c. 10 * n + digit_val c) (10 * n + digit_val c) cs, None)"
    by (rule Cons.IH) (use Cons.prems in auto)
  ultimately show ?case using Cons.prems(1) by simp
qed

lemma ParseUint_dec_nat:
  "n \<le> 18446744073709551615 \<Longrightarrow> ParseUint (dec_nat n) = (n, None)"
  using ParseUint_loop_digits[of "dec_nat n" 0] dec_nat_digits[of n] dec_val_dec_nat[of n]
  by (simp add: ParseUint_def dec_val_def)

lemma plus_not_digit: "\<not> is_digit CHR ''+''"
  by (simp add: is_digit_def)

text \<open>Printing an \<^verbatim>\<open>int64\<close> and parsing it back is the identity.\<close>

lemma ParseInt_FormatInt:
  assumes "is_int64 i"
  shows "ParseInt (FormatInt i) = (i, None)"
proof (cases "i < 0")
  case True
  moreover have "ParseUint (dec_nat (nat (- i))) = (nat (- i), None)"
    using assms by (intro ParseUint_dec_nat) (auto simp: is_int64_def)
  ultimately show ?thesis
    using assms by (simp add: ParseInt_def FormatInt_def is_int64_def)
next
  case False
  moreover have "ParseUint (dec_nat (nat i)) = (nat i, None)"
    using assms by (intro ParseUint_dec_nat) (auto simp: is_int64_def)
  moreover have "hd (dec_nat (nat i)) \<noteq> CHR ''-''" "hd (dec_nat (nat i)) \<noteq> CHR ''+''"
    using dec_nat_digits[of "nat i"] hd_in_set[OF dec_nat_not_Nil[of "nat i"]]
      minus_not_digit plus_not_digit by metis+
  ultimately show ?thesis
    using assms by (simp add: ParseInt_def FormatInt_def is_int64_def)
qed

text \<open>A decimal number that does not fit is parsed as the largest \<^verbatim>\<open>int64\<close>.\<close>

lemma ParseUint_loop_large:
  assumes "\<forall>c \<in> set s. is_digit c" and "9223372036854775807 \<le> foldl (\<lambda>n c. 10 * n + digit_val c) n s"
  shows "\<exists>m err. ParseUint_loop n s = (m, err) \<and> err \<noteq> Some ErrSyntax \<and> 9223372036854775807 \<le> m"
  using assms by (induction s arbitrary: n) auto

lemma Atoi_large:
  assumes "\<forall>c \<in> set s. is_digit c" and "9223372036854775807 \<le> dec_val s"
  shows "fst (Atoi s) = max_int64"
proof -
  obtain m err where m: "ParseUint_loop 0 s = (m, err)" "err \<noteq> Some ErrSyntax" "9223372036854775807 \<le> m"
    using ParseUint_loop_large[of s 0] assms by (auto simp: dec_val_def)
  have "s \<noteq> ''''" using assms(2) by (auto simp: dec_val_def)
  moreover from this have "hd s \<noteq> CHR ''-''" "hd s \<noteq> CHR ''+''"
    using assms(1) hd_in_set minus_not_digit plus_not_digit by metis+
  moreover have "m = 9223372036854775807 \<or> 9223372036854775808 \<le> m" using m(3) by arith
  ultimately show ?thesis using m by (auto simp: Atoi_def ParseInt_def ParseUint_def)
qed

lemma ParseInt_range: "is_int64 (fst (ParseInt s))"
  by (auto simp: ParseInt_def is_int64_def Let_def split: prod.splits)

text \<open>Base-10 printing avoids every separator the program uses.\<close>

interpretation dec_enc: delimited_encoding FormatInt "\<lambda>_. True" "- ({CHR ''-''} \<union> {c. is_digit c})"
  by unfold_locales (auto dest: FormatInt_inj FormatInt_chars)

section \<open>strings.TrimSpace\<close>

text \<open>
  The UTF-8 encodings of the code points \<^verbatim>\<open>unicode.IsSpace\<close> accepts. None of them is a part of
  another code point's encoding that starts at the same byte, so dropping whole encodings
  from either end is what \<^verbatim>\<open>TrimFunc\<close> does rune by rune.
\<close>

definition space_encodings :: "string list" where
  "space_encodings =
     [[CHR 0x09], [CHR 0x0A], [CHR 0x0B], [CHR 0x0C], [CHR 0x0D], [CHR 0x20],
      [CHR 0xC2, CHR 0x85], [CHR 0xC2, CHR 0xA0], [CHR 0xE1, CHR 0x9A, CHR 0x80]]
     @ map (\<lambda>b. [CHR 0xE2, CHR 0x80, b])
         [CHR 0x80, CHR 0x81, CHR 0x82, CHR 0x83, CHR 0x84, CHR 0x85, CHR 0x86, CHR 0x87, CHR 0x88,
          CHR 0x89, CHR 0x8A, CHR 0xA8, CHR 0xA9, CHR 0xAF]
     @ [[CHR 0xE2, CHR 0x81, CHR 0x9F], [CHR 0xE3, CHR 0x80, CHR 0x80]]"

function trim_words :: "string list \<Rightarrow> string \<Rightarrow> string" where
  "trim_words ws s =
     (case find (\<lambda>w. w \<noteq> '''' \<and> take (length w) s = w) ws of
        None \<Rightarrow> s
      | Some w \<Rightarrow> trim_words ws (drop (length w) s))"
  by pat_completeness auto

lemma find_SomeD: "find P xs = Some x \<Longrightarrow> x \<in> set xs \<and> P x"
  by (induction xs) (auto split: if_splits)

termination trim_words
proof (relation "measure (\<lambda>(ws, s). length s)", goal_cases)
  case (2 ws s w)
  then have "w \<noteq> ''''" "take (length w) s = w" by (auto dest!: find_SomeD)
  then show ?case by (cases s) auto
qed simp

declare trim_words.simps [simp del]

definition TrimSpace :: "string \<Rightarrow> string" where
  "TrimSpace s = rev (trim_words (map rev space_encodings) (rev (trim_words space_encodings s)))"

lemma trim_words_drop: "\<exists>k. trim_words ws s = drop k s"
proof (induction ws s rule: trim_words.induct)
  case (1 ws s)
  show ?case
  proof (cases "find (\<lambda>w. w \<noteq> '''' \<and> take (length w) s = w) ws")
    case None
    then have "trim_words ws s = drop 0 s" by (subst trim_words.simps) simp
    then show ?thesis by blast
  next
    case (Some w)
    from "1"[OF Some] obtain k where "trim_words ws (drop (length w) s) = drop k (drop (length w) s)" by blast
    then have "trim_words ws s = drop (k + length w) s"
      using Some by (subst trim_words.simps) simp
    then show ?thesis by blast
  qed
qed

lemma trim_words_done: "find (\<lambda>w. w \<noteq> '''' \<and> take (length w) (trim_words ws s) = w) ws = None"
proof (induction ws s rule: trim_words.induct)
  case (1 ws s)
  show ?case
  proof (cases "find (\<lambda>w. w \<noteq> '''' \<and> take (length w) s = w) ws")
    case None
    then have "trim_words ws s = s" by (subst trim_words.simps) simp
    with None show ?thesis by simp
  next
    case (Some w)
    then have "trim_words ws s = trim_words ws (drop (length w) s)" by (subst trim_words.simps) simp
    with "1"[OF Some] show ?thesis by simp
  qed
qed

lemma trim_words_fixed:
  "find (\<lambda>w. w \<noteq> '''' \<and> take (length w) s = w) ws = None \<Longrightarrow> trim_words ws s = s"
  by (subst trim_words.simps) simp

text \<open>The result is a contiguous part of the argument that no space ends.\<close>

lemma TrimSpace_part: "\<exists>a b. s = a @ TrimSpace s @ b"
proof -
  obtain k where k: "trim_words space_encodings s = drop k s" using trim_words_drop by blast
  obtain m where "trim_words (map rev space_encodings) (rev (drop k s)) = drop m (rev (drop k s))"
    using trim_words_drop by blast
  moreover have "rev (drop m (rev u)) = take (length u - m) u" for u :: string
    by (simp add: rev_drop)
  ultimately have "TrimSpace s = take (length (drop k s) - m) (drop k s)"
    unfolding TrimSpace_def k by presburger
  then have "s = take k s @ TrimSpace s @ drop (length (drop k s) - m) (drop k s)"
    by (metis append_take_drop_id)
  then show ?thesis by blast
qed

lemma TrimSpace_length: "length (TrimSpace s) \<le> length s"
  using TrimSpace_part[of s] by (metis le_add1 le_add2 le_trans length_append)

section \<open>Case, splitting, suffixes\<close>

text \<open>
  \<^verbatim>\<open>strings.ToLower\<close> maps ASCII letters itself and falls back to Unicode's case tables when a byte
  is not ASCII: \<open>uni\<close> is that fallback, \<^verbatim>\<open>strings.Map(unicode.ToLower, s)\<close>.
\<close>

definition is_upper :: "char \<Rightarrow> bool" where
  "is_upper c \<longleftrightarrow> 65 \<le> (of_char c :: nat) \<and> (of_char c :: nat) \<le> 90"

definition lower_char :: "char \<Rightarrow> char" where
  "lower_char c = (if is_upper c then char_of ((of_char c :: nat) + 32) else c)"

definition is_ascii :: "string \<Rightarrow> bool" where
  "is_ascii s \<longleftrightarrow> list_all (\<lambda>c. (of_char c :: nat) < 128) s"

definition ToLower :: "(string \<Rightarrow> string) \<Rightarrow> string \<Rightarrow> string" where
  "ToLower uni s = (if is_ascii s then map lower_char s else uni s)"

text \<open>
  \<^verbatim>\<open>strings.EqualFold\<close> when one side is ASCII text without k and s, the two letters that fold
  with characters outside ASCII.
\<close>

definition EqualFold :: "string \<Rightarrow> string \<Rightarrow> bool" where
  "EqualFold s t \<longleftrightarrow> map lower_char s = map lower_char t"

fun Split :: "char \<Rightarrow> string \<Rightarrow> string list" where
  "Split sep [] = ['''']"
| "Split sep (c # cs) =
     (if c = sep then '''' # Split sep cs
      else case Split sep cs of p # ps \<Rightarrow> (c # p) # ps | [] \<Rightarrow> [[c]])"

text \<open>\<^verbatim>\<open>strings.SplitN(s, sep, 2)\<close>.\<close>

definition SplitN2 :: "char \<Rightarrow> string \<Rightarrow> string list" where
  "SplitN2 sep s =
     (if sep \<in> set s then [takeWhile (\<lambda>c. c \<noteq> sep) s, tl (dropWhile (\<lambda>c. c \<noteq> sep) s)] else [s])"

definition HasSuffix :: "string \<Rightarrow> string \<Rightarrow> bool" where
  "HasSuffix s suf \<longleftrightarrow> length suf \<le> length s \<and> drop (length s - length suf) s = suf"

definition HasPrefix :: "string \<Rightarrow> string \<Rightarrow> bool" where
  "HasPrefix s pre \<longleftrightarrow> take (length pre) s = pre"

fun Contains_str :: "string \<Rightarrow> string \<Rightarrow> bool" where
  "Contains_str [] sub \<longleftrightarrow> sub = []"
| "Contains_str (c # s) sub \<longleftrightarrow> HasPrefix (c # s) sub \<or> Contains_str s sub"

definition TrimSuffix :: "string \<Rightarrow> string \<Rightarrow> string" where
  "TrimSuffix s suf = (if HasSuffix s suf then take (length s - length suf) s else s)"

text \<open>The text before and after the last occurrence of a byte.\<close>

definition split_last :: "char \<Rightarrow> string \<Rightarrow> (string \<times> string) option" where
  "split_last c s =
     (if c \<in> set s
      then Some (rev (tl (dropWhile (\<lambda>x. x \<noteq> c) (rev s))), rev (takeWhile (\<lambda>x. x \<noteq> c) (rev s)))
      else None)"

lemma lower_char_of: "is_upper c \<Longrightarrow> of_char (lower_char c) = (of_char c :: nat) + 32"
  by (simp add: lower_char_def is_upper_def of_char_of)

lemma lower_char_not_upper [simp]: "\<not> is_upper (lower_char c)"
proof (cases "is_upper c")
  case True
  then show ?thesis using lower_char_of[OF True] unfolding is_upper_def by linarith
qed (simp add: lower_char_def)

lemma lower_char_idem [simp]: "lower_char (lower_char c) = lower_char c"
  using lower_char_not_upper[of c] unfolding lower_char_def by presburger

lemma lower_char_ascii: "(of_char c :: nat) < 128 \<Longrightarrow> (of_char (lower_char c) :: nat) < 128"
  by (cases "is_upper c") (simp_all add: lower_char_of, simp_all add: is_upper_def lower_char_def)

lemma is_ascii_lower [simp]: "is_ascii s \<Longrightarrow> is_ascii (map lower_char s)"
  by (auto simp: is_ascii_def list_all_iff lower_char_ascii)

lemma ToLower_idem: "is_ascii s \<Longrightarrow> ToLower uni (ToLower uni s) = ToLower uni s"
  by (simp add: ToLower_def)

lemma Split_not_Nil [simp]: "Split sep s \<noteq> []"
  by (induction s) (auto split: list.splits)

text \<open>Joining the parts with the separator gives the text back, and no part has the separator.\<close>

fun join :: "char \<Rightarrow> string list \<Rightarrow> string" where
  "join sep [] = ''''"
| "join sep [p] = p"
| "join sep (p # q # ps) = p @ sep # join sep (q # ps)"

lemma join_Cons_head: "join sep ((c # p) # ps) = c # join sep (p # ps)"
  by (cases ps) simp_all

lemma join_Split: "join sep (Split sep s) = s"
proof (induction s)
  case (Cons c cs)
  obtain p ps where "Split sep cs = p # ps" by (cases "Split sep cs") auto
  with Cons show ?case by (simp add: join_Cons_head)
qed simp

lemma Split_clean: "p \<in> set (Split sep s) \<Longrightarrow> sep \<notin> set p"
  by (induction s arbitrary: p) (auto split: list.splits if_splits)

lemma Split_snoc:
  "Split sep (s @ sep # t) = Split sep s @ Split sep t"
proof (induction s)
  case (Cons c cs)
  obtain p ps where p: "Split sep cs = p # ps" by (cases "Split sep cs") auto
  with Cons have "Split sep (cs @ sep # t) = p # ps @ Split sep t" by simp
  with p show ?case by simp
qed simp

lemma Split_no_sep: "sep \<notin> set s \<Longrightarrow> Split sep s = [s]"
  by (induction s) auto

text \<open>
  Trimming commutes with lower-casing ASCII letters: no letter is part of a space's encoding.
\<close>

lemma lower_char_eq: "\<not> is_upper x \<Longrightarrow> \<not> (97 \<le> (of_char x :: nat) \<and> (of_char x :: nat) \<le> 122) \<Longrightarrow> lower_char c = x \<longleftrightarrow> c = x"
proof (cases "is_upper c")
  case True
  assume x: "\<not> is_upper x" "\<not> (97 \<le> (of_char x :: nat) \<and> (of_char x :: nat) \<le> 122)"
  have "lower_char c \<noteq> x"
    using lower_char_of[OF True] True x(2) unfolding is_upper_def by auto
  with True x(1) show ?thesis by auto
qed (auto simp: lower_char_def)

lemma trim_words_map:
  assumes "\<And>w c x. w \<in> set ws \<Longrightarrow> x \<in> set w \<Longrightarrow> f c = x \<longleftrightarrow> c = x"
  shows "trim_words ws (map f s) = map f (trim_words ws s)"
  using assms
proof (induction ws s rule: trim_words.induct)
  case (1 ws s)
  have pre: "take (length w) (map f s) = w \<longleftrightarrow> take (length w) s = w" if "w \<in> set ws" for w
  proof -
    have "map f t = w \<longleftrightarrow> t = w" for t
      using "1.prems"[OF that] by (auto simp: list_eq_iff_nth_eq)
    then show ?thesis by (simp add: take_map)
  qed
  have eq: "find (\<lambda>w. w \<noteq> '''' \<and> take (length w) (map f s) = w) ws = find (\<lambda>w. w \<noteq> '''' \<and> take (length w) s = w) ws"
    using pre by (intro find_cong) auto
  show ?case
  proof (cases "find (\<lambda>w. w \<noteq> '''' \<and> take (length w) s = w) ws")
    case None
    with eq show ?thesis by (simp add: trim_words_fixed)
  next
    case (Some w)
    have "trim_words ws (map f (drop (length w) s)) = map f (trim_words ws (drop (length w) s))"
      by (rule "1.IH"[OF Some]) (use "1.prems" in blast)+
    with eq Some show ?thesis
      by (subst trim_words.simps, subst (2) trim_words.simps) (simp add: drop_map)
  qed
qed

lemma space_encodings_no_letter:
  "\<forall>w \<in> set space_encodings. \<forall>x \<in> set w. \<not> is_upper x \<and> \<not> (97 \<le> (of_char x :: nat) \<and> (of_char x :: nat) \<le> 122)"
  by (simp add: space_encodings_def is_upper_def)

lemma TrimSpace_lower: "TrimSpace (map lower_char s) = map lower_char (TrimSpace s)"
proof -
  have fixed: "lower_char c = x \<longleftrightarrow> c = x" if "w \<in> set space_encodings" "x \<in> set w" for w c x
    using space_encodings_no_letter that by (intro lower_char_eq) auto
  have "trim_words space_encodings (map lower_char s) = map lower_char (trim_words space_encodings s)"
    by (rule trim_words_map) (use fixed in blast)
  moreover have "trim_words (map rev space_encodings) (map lower_char t) = map lower_char (trim_words (map rev space_encodings) t)" for t
    by (rule trim_words_map) (metis (no_types, lifting) fixed imageE list.set_map set_rev)
  ultimately show ?thesis by (simp add: TrimSpace_def rev_map)
qed

lemma TrimSpace_ascii: "is_ascii s \<Longrightarrow> is_ascii (TrimSpace s)"
proof -
  assume a: "is_ascii s"
  obtain x y where "s = x @ TrimSpace s @ y" using TrimSpace_part by blast
  then have "set (TrimSpace s) \<subseteq> set s" by (metis Un_iff set_append subsetI)
  with a show ?thesis by (auto simp: is_ascii_def list_all_iff)
qed

lemma TrimSpace_ToLower: "is_ascii s \<Longrightarrow> TrimSpace (ToLower uni s) = ToLower uni (TrimSpace s)"
  by (simp add: ToLower_def TrimSpace_lower TrimSpace_ascii)

end
