(* ===== verification/Go_Time.thy ===== *)
theory Go_Time
  imports Go_Strings
begin

text \<open>
  The parts of Go's \<^verbatim>\<open>time\<close> package the program uses: instants in nanoseconds since the
  Unix epoch, truncation to microseconds, the proleptic Gregorian calendar as Go computes
  it, and formatting in UTC with the layout \<^verbatim>\<open>time.RFC3339Nano\<close>, which is injective.
\<close>

section \<open>Instants\<close>

definition Microsecond :: duration where "Microsecond = 1000"
definition Millisecond :: duration where "Millisecond = 1000000"
definition Second :: duration where "Second = 1000000000"
definition Minute :: duration where "Minute = 60000000000"
definition Hour :: duration where "Hour = 3600000000000"

lemmas duration_defs [go_defs] =
  Microsecond_def Millisecond_def Second_def Minute_def Hour_def

text \<open>The zero \<^verbatim>\<open>time.Time\<close> is 0001-01-01 00:00:00 UTC.\<close>

definition zero_time :: instant where
  "zero_time = -62135596800000000000"

definition IsZero :: "instant \<Rightarrow> bool" where
  "IsZero t \<longleftrightarrow> t = zero_time"

definition Truncate_us :: "instant \<Rightarrow> instant" where
  "Truncate_us t = t - t mod 1000"

lemma Truncate_us_eq: "Truncate_us t = 1000 * (t div 1000)"
  unfolding Truncate_us_def by (rule minus_mod_eq_mult_div)

lemma Truncate_us_idem [simp]: "Truncate_us (Truncate_us t) = Truncate_us t"
  by (simp add: Truncate_us_eq)

lemma Truncate_us_le: "Truncate_us t \<le> t"
  unfolding Truncate_us_def by simp

section \<open>Calendar\<close>

text \<open>Year and day of the year, from the days since 0001-01-01 (\<^verbatim>\<open>absDate\<close>).\<close>

definition year_yday :: "int \<Rightarrow> int \<times> int" where
  "year_yday days =
     (let n400 = days div 146097; d = days - 146097 * n400;
          q100 = d div 36524; n100 = q100 - q100 div 4; d = d - 36524 * n100;
          n4 = d div 1461; d = d - 1461 * n4;
          q1 = d div 365; n1 = q1 - q1 div 4; d = d - 365 * n1
      in (400 * n400 + 100 * n100 + 4 * n4 + n1 + 1, d))"

definition isLeap :: "int \<Rightarrow> bool" where
  "isLeap year \<longleftrightarrow> year mod 4 = 0 \<and> (year mod 100 \<noteq> 0 \<or> year mod 400 = 0)"

definition daysBefore :: "int list" where
  "daysBefore = [0, 31, 59, 90, 120, 151, 181, 212, 243, 273, 304, 334, 365]"

text \<open>Month (1 to 12) and day of the month.\<close>

definition month_day :: "bool \<Rightarrow> int \<Rightarrow> int \<times> int" where
  "month_day leap yday =
     (if leap \<and> yday = 59 then (2, 29)
      else
        let day = (if leap \<and> 59 < yday then yday - 1 else yday);
            m = nat (day div 31);
            fin = daysBefore ! (m + 1)
        in if fin \<le> day then (int m + 2, day - fin + 1)
           else (int m + 1, day - daysBefore ! m + 1))"

record civil =
  cYear :: int
  cMonth :: int
  cDay :: int
  cHour :: int
  cMin :: int
  cSec :: int
  cNano :: int

definition civil_of :: "instant \<Rightarrow> civil" where
  "civil_of t =
     (let secs = t div 1000000000;
          days = secs div 86400 + 719162;
          sod = secs mod 86400;
          (year, yday) = year_yday days;
          (month, day) = month_day (isLeap year) yday
      in \<lparr>cYear = year, cMonth = month, cDay = day,
          cHour = sod div 3600, cMin = sod mod 3600 div 60, cSec = sod mod 60,
          cNano = t mod 1000000000\<rparr>)"

section \<open>RFC3339Nano\<close>

definition pad_nat :: "nat \<Rightarrow> nat \<Rightarrow> string" where
  "pad_nat w n = replicate (w - length (dec_nat n)) CHR ''0'' @ dec_nat n"

definition appendInt :: "int \<Rightarrow> nat \<Rightarrow> string" where
  "appendInt x w = (if x < 0 then ''-'' else '''') @ pad_nat w (nat \<bar>x\<bar>)"

definition trim_zeros :: "string \<Rightarrow> string" where
  "trim_zeros s = rev (dropWhile (\<lambda>c. c = CHR ''0'') (rev s))"

definition appendNano :: "int \<Rightarrow> string" where
  "appendNano ns = (if ns = 0 then '''' else CHR ''.'' # trim_zeros (appendInt ns 9))"

definition Format_RFC3339Nano :: "instant \<Rightarrow> string" where
  "Format_RFC3339Nano t =
     (let c = civil_of t in
      appendInt (cYear c) 4 @ ''-'' @ appendInt (cMonth c) 2 @ ''-'' @ appendInt (cDay c) 2
      @ ''T'' @ appendInt (cHour c) 2 @ '':'' @ appendInt (cMin c) 2 @ '':'' @ appendInt (cSec c) 2
      @ appendNano (cNano c) @ ''Z'')"

section \<open>The calendar is injective\<close>

lemma year_yday_range:
  assumes "year_yday days = (y, d)"
  shows "0 \<le> d" "d \<le> 365"
proof -
  define d1 where "d1 = days - 146097 * (days div 146097)"
  define q100 where "q100 = d1 div 36524"
  define d2 where "d2 = d1 - 36524 * (q100 - q100 div 4)"
  define d3 where "d3 = d2 - 1461 * (d2 div 1461)"
  define q1 where "q1 = d3 div 365"
  have d: "d = d3 - 365 * (q1 - q1 div 4)"
    using assms unfolding year_yday_def Let_def d1_def[symmetric] q100_def[symmetric]
      d2_def[symmetric] d3_def[symmetric] q1_def[symmetric] by simp
  have "0 \<le> d3 \<and> d3 < 1461"
    unfolding d3_def using int_div_bounds[of 1461 d2] by linarith
  then have "0 \<le> q1 \<and> q1 \<le> 4 \<and> 365 * q1 \<le> d3 \<and> d3 < 365 * q1 + 365"
    unfolding q1_def using int_div_bounds[of 365 d3] by linarith
  with \<open>0 \<le> d3 \<and> d3 < 1461\<close> show "0 \<le> d" "d \<le> 365"
    unfolding d by (cases "q1 = 4"; auto)+
qed

lemma year_digits:
  fixes a b c e :: int
  assumes "0 \<le> b \<and> b \<le> 3" "0 \<le> c \<and> c \<le> 24" "0 \<le> e \<and> e \<le> 3"
  defines "y \<equiv> 400 * a + 100 * b + 4 * c + e"
  shows "y div 400 = a" "y mod 400 div 100 = b" "y mod 100 div 4 = c" "y mod 4 = e"
proof -
  define r s where "r = 100 * b + s" and "s = 4 * c + e"
  have s: "0 \<le> s \<and> s < 100" and r: "0 \<le> r \<and> r < 400"
    using assms unfolding r_def s_def by linarith+
  have y: "y = r + a * 400" "y = s + (4 * a + b) * 100" "y = e + (100 * a + 25 * b + c) * 4"
    unfolding y_def r_def s_def by simp_all
  show "y div 400 = a" unfolding y(1) using r by simp
  have "y mod 400 = r" unfolding y(1) using r by (simp only: mod_mult_self1) simp
  then show "y mod 400 div 100 = b" using s unfolding r_def by simp
  have "y mod 100 = s" unfolding y(2) using s by (simp only: mod_mult_self1) simp
  then show "y mod 100 div 4 = c" using assms(3) unfolding s_def by simp
  show "y mod 4 = e" unfolding y(3) using assms(3) by (simp only: mod_mult_self1) simp
qed

lemma year_yday_days:
  assumes "year_yday days = (y, d)"
  shows "days = 146097 * ((y - 1) div 400) + 36524 * ((y - 1) mod 400 div 100)
    + 1461 * ((y - 1) mod 100 div 4) + 365 * ((y - 1) mod 4) + d"
proof -
  define n400 where "n400 = days div 146097"
  define d1 where "d1 = days - 146097 * n400"
  define q100 where "q100 = d1 div 36524"
  define n100 where "n100 = q100 - q100 div 4"
  define d2 where "d2 = d1 - 36524 * n100"
  define n4 where "n4 = d2 div 1461"
  define d3 where "d3 = d2 - 1461 * n4"
  define q1 where "q1 = d3 div 365"
  define n1 where "n1 = q1 - q1 div 4"
  have res: "y - 1 = 400 * n400 + 100 * n100 + 4 * n4 + n1" "d = d3 - 365 * n1"
    using assms unfolding year_yday_def Let_def n400_def[symmetric] d1_def[symmetric]
      q100_def[symmetric] n100_def[symmetric] d2_def[symmetric] n4_def[symmetric]
      d3_def[symmetric] q1_def[symmetric] n1_def[symmetric] by simp_all
  have "0 \<le> d1 \<and> d1 < 146097"
    unfolding d1_def n400_def using int_div_bounds[of 146097 days] by linarith
  then have "0 \<le> q100 \<and> q100 \<le> 4 \<and> 36524 * q100 \<le> d1 \<and> d1 < 36524 * q100 + 36524"
    unfolding q100_def using int_div_bounds[of 36524 d1] by linarith
  then have n100: "0 \<le> n100 \<and> n100 \<le> 3" and "0 \<le> d2 \<and> d2 \<le> 36524"
    using \<open>0 \<le> d1 \<and> d1 < 146097\<close> unfolding n100_def d2_def by (cases "q100 = 4"; auto)+
  then have n4: "0 \<le> n4 \<and> n4 \<le> 24"
    unfolding n4_def using int_div_bounds[of 1461 d2] by linarith
  have "0 \<le> d3 \<and> d3 < 1461"
    unfolding d3_def n4_def using int_div_bounds[of 1461 d2] by linarith
  then have "0 \<le> q1 \<and> q1 \<le> 4"
    unfolding q1_def using int_div_bounds[of 365 d3] by linarith
  then have n1: "0 \<le> n1 \<and> n1 \<le> 3" unfolding n1_def by (cases "q1 = 4"; auto)
  have "(y - 1) div 400 = n400" "(y - 1) mod 400 div 100 = n100"
    "(y - 1) mod 100 div 4 = n4" "(y - 1) mod 4 = n1"
    unfolding res(1) by (rule year_digits[OF n100 n4 n1, of n400])+
  then show ?thesis unfolding res(2) d3_def d2_def d1_def by simp
qed

definition yday_of :: "bool \<Rightarrow> int \<times> int \<Rightarrow> int" where
  "yday_of leap md =
     daysBefore ! nat (fst md - 1) + snd md - 1 + (if leap \<and> 2 < fst md then 1 else 0)"

definition month_day_ok :: "bool \<Rightarrow> int \<Rightarrow> bool" where
  "month_day_ok leap y =
     (let md = month_day leap y in yday_of leap md = y \<and> 1 \<le> fst md \<and> 1 \<le> snd md)"

lemma month_day_tables:
  "list_all (month_day_ok True) [0..365]" "list_all (month_day_ok False) [0..365]"
  by code_simp+

lemma month_day_inverse:
  assumes "0 \<le> yday" "yday \<le> 365"
  shows "yday_of leap (month_day leap yday) = yday"
    and "1 \<le> fst (month_day leap yday)" and "1 \<le> snd (month_day leap yday)"
  using month_day_tables assms by (cases leap; auto simp: list_all_iff Let_def month_day_ok_def)+

text \<open>The calendar fields of an instant, all but the year non-negative.\<close>

lemma civil_of_nonneg:
  "0 \<le> cMonth (civil_of t)" "0 \<le> cDay (civil_of t)" "0 \<le> cHour (civil_of t)"
  "0 \<le> cMin (civil_of t)" "0 \<le> cSec (civil_of t)" "0 \<le> cNano (civil_of t)"
  "cNano (civil_of t) < 1000000000"
proof -
  obtain y d where yd: "year_yday (t div 1000000000 div 86400 + 719162) = (y, d)" by fastforce
  obtain m n where md: "month_day (isLeap y) d = (m, n)" by fastforce
  show "0 \<le> cMonth (civil_of t)" "0 \<le> cDay (civil_of t)" "0 \<le> cHour (civil_of t)"
    "0 \<le> cMin (civil_of t)" "0 \<le> cSec (civil_of t)" "0 \<le> cNano (civil_of t)"
    "cNano (civil_of t) < 1000000000"
    using month_day_inverse(2,3)[OF year_yday_range[OF yd], of "isLeap y"]
    by (simp_all add: civil_of_def Let_def yd md pos_imp_zdiv_nonneg_iff)
qed

definition instant_of :: "civil \<Rightarrow> instant" where
  "instant_of c =
     (let y = cYear c;
          days = 146097 * ((y - 1) div 400) + 36524 * ((y - 1) mod 400 div 100)
            + 1461 * ((y - 1) mod 100 div 4) + 365 * ((y - 1) mod 4)
            + yday_of (isLeap y) (cMonth c, cDay c)
      in ((days - 719162) * 86400 + (cHour c * 3600 + cMin c * 60 + cSec c)) * 1000000000 + cNano c)"

lemma instant_of_civil_of: "instant_of (civil_of t) = t"
proof -
  let ?secs = "t div 1000000000"
  obtain y d where yd: "year_yday (?secs div 86400 + 719162) = (y, d)" by fastforce
  obtain m n where md: "month_day (isLeap y) d = (m, n)" by fastforce
  have "yday_of (isLeap y) (m, n) = d"
    using month_day_inverse(1)[OF year_yday_range[OF yd], of "isLeap y"] md by simp
  with year_yday_days[OF yd] have days:
    "146097 * ((y - 1) div 400) + 36524 * ((y - 1) mod 400 div 100) + 1461 * ((y - 1) mod 100 div 4)
      + 365 * ((y - 1) mod 4) + yday_of (isLeap y) (m, n) = ?secs div 86400 + 719162"
    by linarith
  let ?sod = "?secs mod 86400"
  have hms: "?sod div 3600 * 3600 + ?sod mod 3600 div 60 * 60 + ?sod mod 60 = ?sod"
  proof -
    have "?sod mod 3600 mod 60 = ?sod mod 60" by (rule mod_mod_cancel) simp
    then show ?thesis
      using div_mult_mod_eq[of ?sod 3600] div_mult_mod_eq[of "?sod mod 3600" 60] by linarith
  qed
  have "instant_of (civil_of t) = ((?secs div 86400) * 86400 + ?sod) * 1000000000 + t mod 1000000000"
    unfolding instant_of_def civil_of_def Let_def yd md prod.case civil.simps days hms by simp
  then show ?thesis by (simp only: div_mult_mod_eq)
qed

section \<open>RFC3339Nano is injective\<close>

lemma dec_val_pad: "dec_val (replicate k CHR ''0'' @ s) = dec_val s"
  by (induction k) (simp_all add: dec_val_def digit_val_def)

lemma zero_is_digit: "is_digit CHR ''0''"
  by (simp add: is_digit_def)

lemma pad_nat_digits: "c \<in> set (pad_nat w n) \<Longrightarrow> is_digit c"
  using dec_nat_digits[of n] zero_is_digit by (auto simp: pad_nat_def)

lemma pad_nat_inj: "pad_nat w m = pad_nat w n \<Longrightarrow> m = n"
  by (metis dec_val_dec_nat dec_val_pad pad_nat_def)

interpretation pad_enc: delimited_encoding "\<lambda>x. appendInt x w" "\<lambda>x. 0 \<le> x" "{c. \<not> is_digit c}" for w
proof unfold_locales
  fix x y :: int
  show "0 \<le> x \<Longrightarrow> 0 \<le> y \<Longrightarrow> appendInt x w = appendInt y w \<Longrightarrow> x = y"
    by (auto simp: appendInt_def dest: pad_nat_inj)
  show "0 \<le> x \<Longrightarrow> set (appendInt x w) \<inter> {c. \<not> is_digit c} = {}"
    by (auto simp: appendInt_def dest: pad_nat_digits)
qed

lemma appendInt_year_split:
  assumes "appendInt x w @ CHR ''-'' # us = appendInt y w @ CHR ''-'' # vs"
  shows "x = y \<and> us = vs"
proof -
  have hd: "pad_nat w n \<noteq> [] \<and> hd (pad_nat w n) \<noteq> CHR ''-''" for n
    using pad_nat_digits[of "hd (pad_nat w n)" w n] minus_not_digit hd_in_set[of "pad_nat w n"]
    by (metis append_is_Nil_conv dec_nat_not_Nil pad_nat_def)
  have "x < 0 \<longleftrightarrow> y < 0"
    using assms hd[of "nat \<bar>x\<bar>"] hd[of "nat \<bar>y\<bar>"]
    by (auto simp: appendInt_def hd_append split: if_splits dest: arg_cong[of _ _ hd])
  then have "appendInt \<bar>x\<bar> w @ CHR ''-'' # us = appendInt \<bar>y\<bar> w @ CHR ''-'' # vs"
    using assms by (auto simp: appendInt_def split: if_splits)
  then have "\<bar>x\<bar> = \<bar>y\<bar> \<and> CHR ''-'' = CHR ''-'' \<and> us = vs"
    by (rule pad_enc.field_split) (auto simp: minus_not_digit)
  with \<open>x < 0 \<longleftrightarrow> y < 0\<close> show ?thesis by linarith
qed

lemma trim_zeros_pad:
  "s = trim_zeros s @ replicate (length s - length (trim_zeros s)) CHR ''0''"
proof -
  have "rev s = takeWhile (\<lambda>c. c = CHR ''0'') (rev s) @ dropWhile (\<lambda>c. c = CHR ''0'') (rev s)" by simp
  moreover have "takeWhile (\<lambda>c. c = CHR ''0'') (rev s) =
      replicate (length (takeWhile (\<lambda>c. c = CHR ''0'') (rev s))) CHR ''0''"
    by (rule replicate_length_same[symmetric]) (auto dest: set_takeWhileD)
  ultimately have "s = trim_zeros s @ replicate (length (takeWhile (\<lambda>c. c = CHR ''0'') (rev s))) CHR ''0''"
    unfolding trim_zeros_def by (metis rev_append rev_replicate rev_rev_ident)
  then show ?thesis by (metis add_diff_cancel_left' length_append length_replicate)
qed

lemma trim_zeros_inj: "length s = length t \<Longrightarrow> trim_zeros s = trim_zeros t \<Longrightarrow> s = t"
  by (metis trim_zeros_pad)

lemma pad_nat_length: "n < 10 ^ w \<Longrightarrow> 0 < w \<Longrightarrow> length (pad_nat w n) = w"
proof -
  assume "n < 10 ^ w" "0 < w"
  have "length (dec_nat n) \<le> w"
    using \<open>n < 10 ^ w\<close> \<open>0 < w\<close>
  proof (induction n arbitrary: w rule: dec_nat.induct)
    case (1 n)
    show ?case
    proof (cases "n < 10")
      case True
      with "1.prems" show ?thesis by (subst dec_nat.simps) simp
    next
      case False
      with "1.prems" obtain v where v: "w = Suc v" "0 < v" by (cases w; cases "w - 1") auto
      with "1.prems" have "n div 10 < 10 ^ v" by (simp add: less_mult_imp_div_less)
      with "1.IH"[OF False, of v] v False show ?thesis by (subst dec_nat.simps) simp
    qed
  qed
  then show ?thesis by (simp add: pad_nat_def)
qed

lemma appendNano_split:
  assumes "appendNano m @ ''Z'' = appendNano n @ ''Z''"
    and "0 \<le> m" "m < 1000000000" "0 \<le> n" "n < 1000000000"
  shows "m = n"
proof -
  have "appendNano m = appendNano n" using assms(1) by simp
  moreover have "length (appendInt k 9) = 9" if "0 \<le> k" "k < 1000000000" for k
    using that pad_nat_length[of "nat \<bar>k\<bar>" 9] by (simp add: appendInt_def)
  ultimately show ?thesis
    using assms(2-) trim_zeros_inj[of "appendInt m 9" "appendInt n 9"] pad_enc.enc_inj[of m n 9]
    by (auto simp: appendNano_def split: if_splits)
qed

text \<open>A row of numeric fields, each with the separator that follows it.\<close>

fun print_fields :: "(int \<times> nat \<times> char) list \<Rightarrow> string \<Rightarrow> string" where
  "print_fields [] r = r"
| "print_fields ((x, w, c) # fs) r = appendInt x w @ c # print_fields fs r"

lemma print_fields_inj:
  assumes "map snd fs = map snd gs"
    and "\<forall>(x, w, c) \<in> set fs \<union> set gs. 0 \<le> x \<and> \<not> is_digit c"
    and "print_fields fs r = print_fields gs q"
  shows "fs = gs \<and> r = q"
proof -
  from assms(1) have "length fs = length gs" by (metis length_map)
  then show ?thesis using assms
  proof (induction fs gs rule: list_induct2)
    case (Cons f fs g gs)
    obtain x w c where f: "f = (x, w, c)" by (cases f) auto
    with Cons.prems(1) obtain y where g: "g = (y, w, c)" by (cases g) auto
    from Cons.prems have "appendInt x w @ c # print_fields fs r = appendInt y w @ c # print_fields gs q"
      by (simp add: f g)
    from pad_enc.field_split[OF this] Cons.prems(2)
    have "x = y" "print_fields fs r = print_fields gs q" by (auto simp: f g)
    with Cons f g show ?case by auto
  qed simp
qed

lemma seps_not_digit:
  "\<not> is_digit CHR '':''" "\<not> is_digit CHR ''T''" "\<not> is_digit CHR ''.''" "\<not> is_digit CHR ''Z''"
  by (simp_all add: is_digit_def)

lemma sec_nano_split:
  assumes "appendInt x w @ appendNano m @ ''Z'' = appendInt y w @ appendNano n @ ''Z''"
    and "0 \<le> x" "0 \<le> y"
  shows "x = y \<and> appendNano m @ ''Z'' = appendNano n @ ''Z''"
proof -
  obtain c us where c: "appendNano m @ ''Z'' = c # us" "\<not> is_digit c"
    by (cases "m = 0") (simp_all add: appendNano_def seps_not_digit)
  obtain d vs where d: "appendNano n @ ''Z'' = d # vs" "\<not> is_digit d"
    by (cases "n = 0") (simp_all add: appendNano_def seps_not_digit)
  from assms(1) have "appendInt x w @ c # us = appendInt y w @ d # vs" by (simp add: c d)
  from pad_enc.field_split[OF this] assms(2,3) c d show ?thesis by simp
qed

lemma Format_RFC3339Nano_fields:
  "Format_RFC3339Nano t =
     (let c = civil_of t in appendInt (cYear c) 4 @ CHR ''-'' #
        print_fields [(cMonth c, 2, CHR ''-''), (cDay c, 2, CHR ''T''), (cHour c, 2, CHR '':''),
          (cMin c, 2, CHR '':'')] (appendInt (cSec c) 2 @ appendNano (cNano c) @ ''Z''))"
  by (simp add: Format_RFC3339Nano_def Let_def)

lemma Format_RFC3339Nano_inj:
  assumes "Format_RFC3339Nano s = Format_RFC3339Nano t"
  shows "s = t"
proof -
  define c d where "c = civil_of s" and "d = civil_of t"
  note nonneg = civil_of_nonneg[of s, folded c_def] civil_of_nonneg[of t, folded d_def]
  let ?tail = "\<lambda>c. appendInt (cSec c) 2 @ appendNano (cNano c) @ ''Z''"
  let ?fs = "\<lambda>c. [(cMonth c, 2 :: nat, CHR ''-''), (cDay c, 2, CHR ''T''), (cHour c, 2, CHR '':''),
      (cMin c, 2, CHR '':'')]"
  have y: "cYear c = cYear d" and "print_fields (?fs c) (?tail c) = print_fields (?fs d) (?tail d)"
    using appendInt_year_split assms
    unfolding Format_RFC3339Nano_fields Let_def c_def[symmetric] d_def[symmetric] by blast+
  then have "?fs c = ?fs d \<and> ?tail c = ?tail d"
    using nonneg by (intro print_fields_inj) (simp_all add: minus_not_digit seps_not_digit)
  then have fs: "?fs c = ?fs d" and tail: "?tail c = ?tail d" by blast+
  have "cSec c = cSec d" "cNano c = cNano d"
    using sec_nano_split[OF tail] nonneg appendNano_split[of "cNano c" "cNano d"] by simp_all
  with y fs have "c = d" by simp
  then show ?thesis by (metis c_def d_def instant_of_civil_of)
qed

lemma Format_RFC3339Nano_chars:
  "c \<in> set (Format_RFC3339Nano t) \<Longrightarrow> is_digit c \<or> c \<in> set ''-T:.Z''"
proof -
  have int: "c \<in> set (appendInt x w) \<Longrightarrow> is_digit c \<or> c \<in> set ''-T:.Z''" for c x w
    by (auto simp: appendInt_def dest: pad_nat_digits split: if_splits)
  have trim: "c \<in> set (trim_zeros s) \<Longrightarrow> c \<in> set s" for c s
    by (auto simp: trim_zeros_def dest: set_dropWhileD)
  have "c \<in> set (appendNano n) \<Longrightarrow> is_digit c \<or> c \<in> set ''-T:.Z''" for n
    using int[OF trim] by (auto simp: appendNano_def split: if_splits)
  then show "c \<in> set (Format_RFC3339Nano t) \<Longrightarrow> is_digit c \<or> c \<in> set ''-T:.Z''"
    using int by (simp add: Format_RFC3339Nano_def Let_def) blast
qed

interpretation time_enc: delimited_encoding Format_RFC3339Nano "\<lambda>_. True" "{CHR 0x0A}"
proof unfold_locales
  show "Format_RFC3339Nano s = Format_RFC3339Nano t \<Longrightarrow> s = t" for s t
    by (rule Format_RFC3339Nano_inj)
  show "set (Format_RFC3339Nano t) \<inter> {CHR 0x0A} = {}" for t
    using Format_RFC3339Nano_chars[of "CHR 0x0A" t] by (auto simp: is_digit_def)
qed

end
