(* ===== verification/Models.thy ===== *)
theory Models
  imports Go_Time
begin

text \<open>
  internal/models/models.go: the data the services exchange, as records with the fields of
  the Go structs. \<open>event_row\<close> is a row of the \<^verbatim>\<open>events\<close> table; \<open>Event\<close> extends it with the
  booking count that reads fill in.
\<close>

record User =
  uID :: int
  uEmail :: string
  uFullName :: string
  uRole :: string
  uPasswordHash :: string
  uCreatedAt :: instant
  uUpdatedAt :: instant

definition EventStatusOpen :: string where "EventStatusOpen = ''open''"
definition EventStatusClosed :: string where "EventStatusClosed = ''closed''"
definition EventStatusDrawn :: string where "EventStatusDrawn = ''drawn''"
definition EventStatusCancelled :: string where "EventStatusCancelled = ''cancelled''"

lemmas status_defs [go_defs] =
  EventStatusOpen_def EventStatusClosed_def EventStatusDrawn_def EventStatusCancelled_def

lemma status_distinct [simp]:
  "EventStatusOpen \<noteq> EventStatusClosed" "EventStatusClosed \<noteq> EventStatusOpen"
  "EventStatusOpen \<noteq> EventStatusDrawn" "EventStatusDrawn \<noteq> EventStatusOpen"
  "EventStatusOpen \<noteq> EventStatusCancelled" "EventStatusCancelled \<noteq> EventStatusOpen"
  "EventStatusClosed \<noteq> EventStatusDrawn" "EventStatusDrawn \<noteq> EventStatusClosed"
  "EventStatusClosed \<noteq> EventStatusCancelled" "EventStatusCancelled \<noteq> EventStatusClosed"
  "EventStatusDrawn \<noteq> EventStatusCancelled" "EventStatusCancelled \<noteq> EventStatusDrawn"
  by (simp_all add: status_defs)

definition statuses :: "string set" where
  "statuses = {EventStatusOpen, EventStatusClosed, EventStatusDrawn, EventStatusCancelled}"

lemma statuses_cases:
  "s \<in> statuses \<Longrightarrow>
   s = EventStatusOpen \<or> s = EventStatusClosed \<or> s = EventStatusDrawn \<or> s = EventStatusCancelled"
  by (simp add: statuses_def)

record event_row =
  eID :: int
  eTitle :: string
  eDescription :: string
  eCapacity :: int
  eDrawAt :: instant
  eStatus :: string
  eWinnerCount :: int
  eCreatedBy :: int
  eCreatedAt :: instant
  eUpdatedAt :: instant

record Event = event_row +
  eBookingCount :: int

record Booking =
  bID :: int
  bEventID :: int
  bUserID :: int
  bBookedAt :: instant

record LotteryDraw =
  dID :: int
  dEventID :: int
  dWinnerUserID :: int
  dDrawRank :: int
  dEntropySource :: string
  dTotalEntrants :: int
  dDrawnAt :: instant

record DrawResult =
  rEventID :: int
  rEventTitle :: string
  rTotalEntrants :: int
  rWinners :: "LotteryDraw list"
  rWaitlist :: "LotteryDraw list"
  rDrawnAt :: instant
  rDigest :: string
  rIntegrity :: string

record RegisterRequest =
  regEmail :: string
  regPassword :: string
  regFullName :: string

record LoginRequest =
  logEmail :: string
  logPassword :: string

record LoginResponse =
  lrToken :: string
  lrUser :: User

record CreateEventRequest =
  ceTitle :: string
  ceDescription :: string
  ceCapacity :: int
  ceDrawAt :: instant
  ceWinnerCount :: int

record Meta =
  metaTotal :: int
  metaPage :: int
  metaLimit :: int

end
