(* ===== verification/Lottery_Spec.thy ===== *)
theory Lottery_Spec
  imports Models "HOL-Library.Multiset"
begin

text \<open>
  What the system promises, without tables, transactions, locks or errors: users with a role,
  events with a status, their entrants in the order of booking, and the outcome of a draw.
  The operations of the services implement these steps (theory \<open>Operations\<close>); what is shown here for
  the reachable states therefore holds for the program.
\<close>

record spec_event =
  xStatus :: string
  xCapacity :: int
  xWinnerCount :: int
  xEntrants :: "int list"
  xOutcome :: "int list"

record spec =
  xRoles :: "int \<rightharpoonup> string"
  xEvents :: "int \<rightharpoonup> spec_event"

definition spec_init :: "spec \<Rightarrow> bool" where
  "spec_init x \<longleftrightarrow> x = \<lparr>xRoles = Map.empty, xEvents = Map.empty\<rparr>"

definition set_event :: "int \<Rightarrow> spec_event \<Rightarrow> spec \<Rightarrow> spec" where
  "set_event i e x = x\<lparr>xEvents := (xEvents x)(i \<mapsto> e)\<rparr>"

inductive spec_step :: "spec \<Rightarrow> spec \<Rightarrow> bool" where
  join_user: "xRoles x i = None \<Longrightarrow> role \<in> {''user'', ''admin''} \<Longrightarrow>
    spec_step x (x\<lparr>xRoles := (xRoles x)(i \<mapsto> role)\<rparr>)"
| make_admin: "xRoles x i \<noteq> None \<Longrightarrow> spec_step x (x\<lparr>xRoles := (xRoles x)(i \<mapsto> ''admin'')\<rparr>)"
| create: "xEvents x i = None \<Longrightarrow> 0 < w \<Longrightarrow> w \<le> c \<Longrightarrow>
    spec_step x (set_event i \<lparr>xStatus = EventStatusOpen, xCapacity = c, xWinnerCount = w, xEntrants = [], xOutcome = []\<rparr> x)"
| close: "xEvents x i = Some e \<Longrightarrow> xStatus e = EventStatusOpen \<Longrightarrow>
    spec_step x (set_event i (e\<lparr>xStatus := EventStatusClosed\<rparr>) x)"
| cancel: "xEvents x i = Some e \<Longrightarrow> xStatus e \<in> {EventStatusOpen, EventStatusClosed} \<Longrightarrow>
    spec_step x (set_event i (e\<lparr>xStatus := EventStatusCancelled\<rparr>) x)"
| book: "xEvents x i = Some e \<Longrightarrow> xStatus e = EventStatusOpen \<Longrightarrow> xRoles x u \<noteq> None \<Longrightarrow>
    u \<notin> set (xEntrants e) \<Longrightarrow> int (length (xEntrants e)) < xCapacity e \<Longrightarrow>
    spec_step x (set_event i (e\<lparr>xEntrants := xEntrants e @ [u]\<rparr>) x)"
| draw: "xEvents x i = Some e \<Longrightarrow> xStatus e = EventStatusClosed \<Longrightarrow> xEntrants e \<noteq> [] \<Longrightarrow>
    mset outcome = mset (xEntrants e) \<Longrightarrow>
    spec_step x (set_event i (e\<lparr>xStatus := EventStatusDrawn, xOutcome := outcome\<rparr>) x)"

inductive_cases spec_stepE: "spec_step x y"

section \<open>What every reachable state satisfies\<close>

definition spec_event_ok :: "spec \<Rightarrow> spec_event \<Rightarrow> bool" where
  "spec_event_ok x e \<longleftrightarrow>
     distinct (xEntrants e) \<and> set (xEntrants e) \<subseteq> dom (xRoles x) \<and>
     int (length (xEntrants e)) \<le> xCapacity e \<and> 0 < xWinnerCount e \<and>
     (if xStatus e = EventStatusDrawn then mset (xOutcome e) = mset (xEntrants e) \<and> xEntrants e \<noteq> []
      else xOutcome e = [])"

definition spec_inv :: "spec \<Rightarrow> bool" where
  "spec_inv x \<longleftrightarrow> (\<forall>i e. xEvents x i = Some e \<longrightarrow> spec_event_ok x e)"

lemma spec_inv_set_event:
  "spec_inv x \<Longrightarrow> spec_event_ok x e \<Longrightarrow> spec_inv (set_event i e x)"
  by (auto simp: spec_inv_def set_event_def spec_event_ok_def)

lemma spec_inv_roles:
  "spec_inv x \<Longrightarrow> spec_inv (x\<lparr>xRoles := (xRoles x)(i \<mapsto> role)\<rparr>)"
  by (fastforce simp: spec_inv_def spec_event_ok_def)

lemma spec_invD: "spec_inv x \<Longrightarrow> xEvents x i = Some e \<Longrightarrow> spec_event_ok x e"
  by (simp add: spec_inv_def)

lemma spec_step_inv: "spec_step x y \<Longrightarrow> spec_inv x \<Longrightarrow> spec_inv y"
proof (induction rule: spec_step.induct)
  case (cancel x i e)
  then show ?case
    using spec_invD[OF cancel.prems cancel.hyps(1)]
    by (intro spec_inv_set_event) (auto simp: spec_event_ok_def)
next
  case (book x i e u)
  then show ?case
    using spec_invD[OF book.prems book.hyps(1)]
    by (intro spec_inv_set_event) (auto simp: spec_event_ok_def)
next
  case (draw x i e outcome)
  then show ?case
    using spec_invD[OF draw.prems draw.hyps(1)]
    by (intro spec_inv_set_event) (auto simp: spec_event_ok_def)
next
  case (close x i e)
  then show ?case
    using spec_invD[OF close.prems close.hyps(1)]
    by (intro spec_inv_set_event) (auto simp: spec_event_ok_def)
qed (auto intro!: spec_inv_roles spec_inv_set_event simp: spec_event_ok_def)

interpretation spec_sys: step_invariant spec_init spec_step spec_inv
  by unfold_locales (simp_all add: spec_init_def spec_step_inv, simp add: spec_inv_def)

text \<open>Along any run, statuses only move forward and a drawn event keeps its outcome.\<close>

definition frozen :: "int \<Rightarrow> spec_event \<Rightarrow> spec \<Rightarrow> bool" where
  "frozen i e x \<longleftrightarrow> xEvents x i = Some e"

lemma drawn_frozen_step:
  assumes "spec_step x y" and "frozen i e x" and "xStatus e \<in> {EventStatusDrawn, EventStatusCancelled}"
  shows "frozen i e y"
  using assms by (cases rule: spec_step.cases) (auto simp: frozen_def set_event_def)

lemma drawn_frozen:
  assumes "spec_step\<^sup>*\<^sup>* x y" and "frozen i e x" and "xStatus e \<in> {EventStatusDrawn, EventStatusCancelled}"
  shows "frozen i e y"
  using assms(1)
proof (induction rule: rtranclp_induct)
  case (step y z)
  show ?case by (rule drawn_frozen_step[OF step.hyps(2) step.IH assms(3)])
qed (rule assms(2))

text \<open>Administrators stay administrators.\<close>

lemma admin_stays: "spec_step x y \<Longrightarrow> xRoles x i = Some ''admin'' \<Longrightarrow> xRoles y i = Some ''admin''"
  by (cases rule: spec_step.cases) (auto simp: set_event_def)

end
