(* ===== verification/Database.thy ===== *)
theory Database
  imports Models
begin

text \<open>
  The schema of internal/db/migrations and the SQL statements the services send: tables as
  lists of rows in insertion order, sequences, the CHECK, UNIQUE and REFERENCES
  constraints and the triggers that statements run into, transactions with rollback and
  the three outcomes of a commit. The main fact is that every statement keeps the
  constraints of the schema, and that a failed statement changes no table.
\<close>

section \<open>Tables\<close>

record seal =
  sEventID :: int
  sDigest :: string
  sAlgorithm :: string
  sSealedAt :: instant

text \<open>The last value each BIGSERIAL sequence has handed out.\<close>

record sequences =
  qUsers :: int
  qEvents :: int
  qBookings :: int
  qDraws :: int

record db =
  tUsers :: "User list"
  tEvents :: "event_row list"
  tBookings :: "Booking list"
  tDraws :: "LotteryDraw list"
  tSeals :: "seal list"
  tSeqs :: sequences

definition empty_db :: db where
  "empty_db = \<lparr>tUsers = [], tEvents = [], tBookings = [], tDraws = [], tSeals = [],
     tSeqs = \<lparr>qUsers = 0, qEvents = 0, qBookings = 0, qDraws = 0\<rparr>\<rparr>"

text \<open>Two states with the same tables: sequence values are not transactional.\<close>

definition same_tables :: "db \<Rightarrow> db \<Rightarrow> bool" where
  "same_tables a b \<longleftrightarrow>
     tUsers b = tUsers a \<and> tEvents b = tEvents a \<and> tBookings b = tBookings a \<and>
     tDraws b = tDraws a \<and> tSeals b = tSeals a"

lemma same_tables_refl [simp]: "same_tables a a"
  by (simp add: same_tables_def)

lemma same_tables_trans: "same_tables a b \<Longrightarrow> same_tables b c \<Longrightarrow> same_tables a c"
  by (simp add: same_tables_def)

lemma same_tables_fields:
  assumes "same_tables a b"
  shows "tUsers b = tUsers a" "tEvents b = tEvents a" "tBookings b = tBookings a"
    "tDraws b = tDraws a" "tSeals b = tSeals a"
  using assms by (simp_all add: same_tables_def)

section \<open>Errors of the server and the driver\<close>

definition unique_violation :: "string \<Rightarrow> error" where
  "unique_violation c = PgError codeUniqueViolation (''duplicate key value violates unique constraint '' @ c)"

definition fk_violation :: "string \<Rightarrow> error" where
  "fk_violation c = PgError codeForeignKeyViolation (''insert or update violates foreign key constraint '' @ c)"

definition check_violation :: "string \<Rightarrow> error" where
  "check_violation c = PgError codeCheckViolation (''new row violates check constraint '' @ c)"

definition insufficient_privilege :: "string \<Rightarrow> error" where
  "insufficient_privilege m = PgError ''42501'' m"

definition encode_error :: error where
  "encode_error = Errorf ''failed to encode args: value out of range for int4''"

definition text_error :: error where
  "text_error = PgError ''22021'' ''invalid byte sequence for encoding UTF8''"

lemmas db_error_defs [sql_defs] =
  unique_violation_def fk_violation_def check_violation_def insufficient_privilege_def
  encode_error_def text_error_def

lemma db_errors_class [simp]:
  "IsUnique (unique_violation c)" "\<not> IsForeignKey (unique_violation c)"
  "IsForeignKey (fk_violation c)" "\<not> IsUnique (fk_violation c)"
  "\<not> IsUnique (check_violation c)" "\<not> IsForeignKey (check_violation c)"
  "\<not> IsUnique (insufficient_privilege c)" "\<not> IsForeignKey (insufficient_privilege c)"
  "\<not> IsUnique encode_error" "\<not> IsForeignKey encode_error"
  "\<not> IsUnique text_error" "\<not> IsForeignKey text_error"
  by (simp_all add: db_error_defs pgerr_defs pg_codes)

text \<open>A TEXT value is valid UTF-8 without the NUL byte.\<close>

fun utf8_bytes :: "nat list \<Rightarrow> bool" where
  "utf8_bytes [] = True"
| "utf8_bytes (a # r) =
     (if a < 0x80 then utf8_bytes r
      else if 0xC2 \<le> a \<and> a \<le> 0xDF then
        (case r of b # r' \<Rightarrow> 0x80 \<le> b \<and> b \<le> 0xBF \<and> utf8_bytes r' | _ \<Rightarrow> False)
      else if 0xE0 \<le> a \<and> a \<le> 0xEF then
        (case r of b # c # r' \<Rightarrow>
           (if a = 0xE0 then 0xA0 else 0x80) \<le> b \<and> b \<le> (if a = 0xED then 0x9F else 0xBF)
           \<and> 0x80 \<le> c \<and> c \<le> 0xBF \<and> utf8_bytes r' | _ \<Rightarrow> False)
      else if 0xF0 \<le> a \<and> a \<le> 0xF4 then
        (case r of b # c # d # r' \<Rightarrow>
           (if a = 0xF0 then 0x90 else 0x80) \<le> b \<and> b \<le> (if a = 0xF4 then 0x8F else 0xBF)
           \<and> 0x80 \<le> c \<and> c \<le> 0xBF \<and> 0x80 \<le> d \<and> d \<le> 0xBF \<and> utf8_bytes r' | _ \<Rightarrow> False)
      else False)"

definition text_ok :: "string \<Rightarrow> bool" where
  "text_ok s \<longleftrightarrow> CHR 0x00 \<notin> set s \<and> utf8_bytes (map of_char s)"

section \<open>Reads\<close>

definition select_event :: "db \<Rightarrow> int \<Rightarrow> event_row option" where
  "select_event d eid = find (\<lambda>e. eID e = eid) (tEvents d)"

definition select_user :: "db \<Rightarrow> int \<Rightarrow> User option" where
  "select_user d uid = find (\<lambda>u. uID u = uid) (tUsers d)"

definition select_user_by_email :: "db \<Rightarrow> string \<Rightarrow> User option" where
  "select_user_by_email d email = find (\<lambda>u. uEmail u = email) (tUsers d)"

definition event_bookings :: "db \<Rightarrow> int \<Rightarrow> Booking list" where
  "event_bookings d eid = filter (\<lambda>b. bEventID b = eid) (tBookings d)"

definition count_bookings :: "db \<Rightarrow> int \<Rightarrow> int" where
  "count_bookings d eid = int (length (event_bookings d eid))"

definition exists_booking :: "db \<Rightarrow> int \<Rightarrow> int \<Rightarrow> bool" where
  "exists_booking d eid uid \<longleftrightarrow> list_ex (\<lambda>b. bEventID b = eid \<and> bUserID b = uid) (tBookings d)"

definition event_draws :: "db \<Rightarrow> int \<Rightarrow> LotteryDraw list" where
  "event_draws d eid = filter (\<lambda>r. dEventID r = eid) (tDraws d)"

definition select_seal :: "db \<Rightarrow> int \<Rightarrow> seal option" where
  "select_seal d eid = find (\<lambda>s. sEventID s = eid) (tSeals d)"

text \<open>
  \<^verbatim>\<open>ORDER BY k\<close>: rows with equal keys come in an order the server chooses, given by \<open>tie\<close>.
\<close>

definition order_by :: "('a \<Rightarrow> nat) \<Rightarrow> ('a \<Rightarrow> int) \<Rightarrow> 'a list \<Rightarrow> 'a list" where
  "order_by tie k rows = sort_key k (sort_key tie rows)"

lemma mset_order_by [simp]: "mset (order_by tie k rows) = mset rows"
  by (simp add: order_by_def)

lemma set_order_by [simp]: "set (order_by tie k rows) = set rows"
  by (simp add: order_by_def)

lemma length_order_by [simp]: "length (order_by tie k rows) = length rows"
  by (simp add: order_by_def)

lemma order_by_distinct:
  assumes "distinct (map k rows)"
  shows "order_by tie k rows = sort_key k rows"
proof -
  have "inj_on k (set (sort_key tie rows))" using assms by (simp add: distinct_map)
  then show ?thesis
    unfolding order_by_def by (intro sort_key_inj_key_eq) simp_all
qed

lemma sorted_order_by [simp]: "sorted (map k (order_by tie k rows))"
  by (simp add: order_by_def)

section \<open>Writes\<close>

text \<open>
  A statement yields an error or a result, and the new state. Defaults (the sequence
  value) are taken before constraints are checked; a failed statement adds no row.
\<close>

type_synonym 'a stmt = "db \<Rightarrow> (error + 'a) \<times> db"

definition insert_user ::
  "instant \<Rightarrow> string \<Rightarrow> string \<Rightarrow> string \<Rightarrow> string \<Rightarrow> User stmt" where
  "insert_user now email hash fullName role d =
     (if \<not> (text_ok email \<and> text_ok hash \<and> text_ok fullName) then (Inl text_error, d)
      else
        let n = qUsers (tSeqs d) + 1;
            d' = d\<lparr>tSeqs := (tSeqs d)\<lparr>qUsers := n\<rparr>\<rparr>
        in if role \<notin> {''user'', ''admin''} then (Inl (check_violation ''users_role_check''), d')
           else if select_user_by_email d email \<noteq> None
           then (Inl (unique_violation ''users_email_key''), d')
           else
             let u = \<lparr>uID = n, uEmail = email, uFullName = fullName, uRole = role,
                   uPasswordHash = hash, uCreatedAt = now, uUpdatedAt = now\<rparr>
             in (Inr u, d'\<lparr>tUsers := tUsers d @ [u]\<rparr>))"

definition insert_event ::
  "instant \<Rightarrow> string \<Rightarrow> string \<Rightarrow> int \<Rightarrow> instant \<Rightarrow> int \<Rightarrow> int \<Rightarrow> event_row stmt" where
  "insert_event now title description capacity drawAt winnerCount createdBy d =
     (if \<not> (is_int32 capacity \<and> is_int32 winnerCount) then (Inl encode_error, d)
      else if \<not> (text_ok title \<and> text_ok description) then (Inl text_error, d)
      else
        let n = qEvents (tSeqs d) + 1;
            d' = d\<lparr>tSeqs := (tSeqs d)\<lparr>qEvents := n\<rparr>\<rparr>
        in if \<not> 0 < capacity then (Inl (check_violation ''events_capacity_check''), d')
           else if \<not> 0 < winnerCount then (Inl (check_violation ''events_winner_count_check''), d')
           else if \<not> winnerCount \<le> capacity
           then (Inl (check_violation ''events_winner_count_lte_capacity''), d')
           else if select_user d createdBy = None
           then (Inl (fk_violation ''events_created_by_fkey''), d')
           else
             let e = \<lparr>eID = n, eTitle = title, eDescription = description, eCapacity = capacity,
                   eDrawAt = Truncate_us drawAt, eStatus = EventStatusOpen,
                   eWinnerCount = winnerCount, eCreatedBy = createdBy,
                   eCreatedAt = now, eUpdatedAt = now\<rparr>
             in (Inr e, d'\<lparr>tEvents := tEvents d @ [e]\<rparr>))"

definition insert_booking :: "instant \<Rightarrow> int \<Rightarrow> int \<Rightarrow> unit stmt" where
  "insert_booking now eid uid d =
     (let n = qBookings (tSeqs d) + 1;
          d' = d\<lparr>tSeqs := (tSeqs d)\<lparr>qBookings := n\<rparr>\<rparr>
      in if exists_booking d eid uid
         then (Inl (unique_violation ''bookings_event_id_user_id_key''), d')
         else if select_event d eid = None then (Inl (fk_violation ''bookings_event_id_fkey''), d')
         else if select_user d uid = None then (Inl (fk_violation ''bookings_user_id_fkey''), d')
         else
           let b = \<lparr>bID = n, bEventID = eid, bUserID = uid, bBookedAt = now\<rparr>
           in (Inr (), d'\<lparr>tBookings := tBookings d @ [b]\<rparr>))"

definition insert_draw ::
  "int \<Rightarrow> int \<Rightarrow> int \<Rightarrow> int \<Rightarrow> string \<Rightarrow> instant \<Rightarrow> LotteryDraw stmt" where
  "insert_draw eid uid rank entrants entropy at d =
     (if \<not> (is_int32 rank \<and> is_int32 entrants) then (Inl encode_error, d)
      else if \<not> text_ok entropy then (Inl text_error, d)
      else
        let n = qDraws (tSeqs d) + 1;
            d' = d\<lparr>tSeqs := (tSeqs d)\<lparr>qDraws := n\<rparr>\<rparr>
        in if \<not> 0 < rank then (Inl (check_violation ''lottery_draws_draw_rank_check''), d')
           else if list_ex (\<lambda>r. dEventID r = eid \<and> dDrawRank r = rank) (tDraws d)
           then (Inl (unique_violation ''lottery_draws_event_id_draw_rank_key''), d')
           else if select_event d eid = None then (Inl (fk_violation ''lottery_draws_event_id_fkey''), d')
           else if select_user d uid = None
           then (Inl (fk_violation ''lottery_draws_winner_user_id_fkey''), d')
           else
             let r = \<lparr>dID = n, dEventID = eid, dWinnerUserID = uid, dDrawRank = rank,
                   dEntropySource = entropy, dTotalEntrants = entrants, dDrawnAt = Truncate_us at\<rparr>
             in (Inr r, d'\<lparr>tDraws := tDraws d @ [r]\<rparr>))"

definition insert_seal :: "int \<Rightarrow> string \<Rightarrow> string \<Rightarrow> instant \<Rightarrow> unit stmt" where
  "insert_seal eid digest algorithm at d =
     (if \<not> (text_ok digest \<and> text_ok algorithm) then (Inl text_error, d)
      else if select_seal d eid \<noteq> None then (Inl (unique_violation ''lottery_draw_seals_pkey''), d)
      else if select_event d eid = None
      then (Inl (fk_violation ''lottery_draw_seals_event_id_fkey''), d)
      else (Inr (), d\<lparr>tSeals := tSeals d @
        [\<lparr>sEventID = eid, sDigest = digest, sAlgorithm = algorithm, sSealedAt = Truncate_us at\<rparr>]\<rparr>))"

text \<open>
  \<^verbatim>\<open>UPDATE events SET status = st WHERE id = eid\<close>, with the triggers
  \<^verbatim>\<open>trg_events_drawn_is_final\<close> and \<^verbatim>\<open>trg_events_updated_at\<close>.
\<close>

definition forbid_drawn_event_change :: "event_row \<Rightarrow> event_row \<Rightarrow> error + event_row" where
  "forbid_drawn_event_change old new =
     (if eStatus old = EventStatusDrawn \<and>
         (eStatus new, eWinnerCount new, eCapacity new) \<noteq> (eStatus old, eWinnerCount old, eCapacity old)
      then Inl (insufficient_privilege ''event has been drawn; status, winner_count and capacity are final'')
      else Inr new)"

definition update_event_status :: "instant \<Rightarrow> int \<Rightarrow> string \<Rightarrow> unit stmt" where
  "update_event_status now eid st d =
     (case select_event d eid of
        None \<Rightarrow> (Inr (), d)
      | Some old \<Rightarrow>
          (case forbid_drawn_event_change old (old\<lparr>eStatus := st\<rparr>) of
             Inl err \<Rightarrow> (Inl err, d)
           | Inr new \<Rightarrow>
               if st \<notin> statuses then (Inl (check_violation ''events_status_check''), d)
               else (Inr (), d\<lparr>tEvents :=
                 map (\<lambda>e. if eID e = eid then e\<lparr>eStatus := st, eUpdatedAt := now\<rparr> else e) (tEvents d)\<rparr>)))"

definition update_user_role :: "instant \<Rightarrow> int \<Rightarrow> string \<Rightarrow> User stmt" where
  "update_user_role now uid role d =
     (case select_user d uid of
        None \<Rightarrow> (Inl pgx_ErrNoRows, d)
      | Some u \<Rightarrow>
          if role \<notin> {''user'', ''admin''} then (Inl (check_violation ''users_role_check''), d)
          else (Inr (u\<lparr>uRole := role, uUpdatedAt := now\<rparr>),
            d\<lparr>tUsers := map (\<lambda>v. if uID v = uid then v\<lparr>uRole := role, uUpdatedAt := now\<rparr> else v) (tUsers d)\<rparr>))"

text \<open>\<^verbatim>\<open>INSERT INTO users ... ON CONFLICT (email) DO UPDATE SET role = 'admin'\<close>.\<close>

definition upsert_admin :: "instant \<Rightarrow> string \<Rightarrow> string \<Rightarrow> string \<Rightarrow> unit stmt" where
  "upsert_admin now email hash fullName d =
     (if \<not> (text_ok email \<and> text_ok hash \<and> text_ok fullName) then (Inl text_error, d)
      else
        let n = qUsers (tSeqs d) + 1;
            d' = d\<lparr>tSeqs := (tSeqs d)\<lparr>qUsers := n\<rparr>\<rparr>
        in if select_user_by_email d email \<noteq> None
           then (Inr (), d'\<lparr>tUsers :=
             map (\<lambda>v. if uEmail v = email then v\<lparr>uRole := ''admin'', uUpdatedAt := now\<rparr> else v) (tUsers d)\<rparr>)
           else
             let u = \<lparr>uID = n, uEmail = email, uFullName = fullName, uRole = ''admin'',
                   uPasswordHash = hash, uCreatedAt = now, uUpdatedAt = now\<rparr>
             in (Inr (), d'\<lparr>tUsers := tUsers d @ [u]\<rparr>))"

lemmas stmt_defs [sql_defs] =
  insert_user_def insert_event_def insert_booking_def insert_draw_def insert_seal_def
  update_event_status_def update_user_role_def upsert_admin_def

section \<open>Calls that can fail, transactions\<close>

text \<open>
  Every round trip to the server can fail. A fault plan says which calls of one service
  operation fail and how; \<open>Scan i j\<close> is reading row \<open>j\<close> of the result of query \<open>i\<close>.
\<close>

datatype db_call = Begin | Query nat | Scan nat nat | RowsErr nat | Exec nat

type_synonym faults = "db_call \<Rightarrow> error option"

definition query :: "faults \<Rightarrow> db_call \<Rightarrow> error + 'a \<Rightarrow> error + 'a" where
  "query f c res = (case f c of Some err \<Rightarrow> Inl err | None \<Rightarrow> res)"

definition exec :: "faults \<Rightarrow> db_call \<Rightarrow> 'a stmt \<Rightarrow> 'a stmt" where
  "exec f c st d = (case f c of Some err \<Rightarrow> (Inl err, d) | None \<Rightarrow> st d)"

text \<open>
  The bodies of the services are sequences of such calls: an error ends the operation, and
  the caller wraps the errors of each call in its own text.
\<close>

definition stmt_return :: "'a \<Rightarrow> 'a stmt" where
  "stmt_return x d = (Inr x, d)"

definition stmt_fail :: "error \<Rightarrow> 'a stmt" where
  "stmt_fail err d = (Inl err, d)"

definition stmt_bind :: "'a stmt \<Rightarrow> ('a \<Rightarrow> 'b stmt) \<Rightarrow> 'b stmt" where
  "stmt_bind m k d = (case m d of (Inl err, d') \<Rightarrow> (Inl err, d') | (Inr x, d') \<Rightarrow> k x d')"

definition on_error :: "(error \<Rightarrow> error) \<Rightarrow> 'a stmt \<Rightarrow> 'a stmt" where
  "on_error h m d = (case m d of (Inl err, d') \<Rightarrow> (Inl (h err), d') | (Inr x, d') \<Rightarrow> (Inr x, d'))"

definition stmt_read :: "(db \<Rightarrow> error + 'a) \<Rightarrow> 'a stmt" where
  "stmt_read g d = (g d, d)"

text \<open>\<^verbatim>\<open>QueryRow\<close>: no row is the error \<^verbatim>\<open>pgx.ErrNoRows\<close>.\<close>

definition query_row :: "faults \<Rightarrow> db_call \<Rightarrow> (db \<Rightarrow> 'a option) \<Rightarrow> 'a stmt" where
  "query_row f c g = stmt_read (\<lambda>d. query f c (case g d of None \<Rightarrow> Inl pgx_ErrNoRows | Some x \<Rightarrow> Inr x))"

text \<open>
  \<^verbatim>\<open>Query\<close>, the \<^verbatim>\<open>rows.Next\<close> loop with its \<^verbatim>\<open>Scan\<close>, and \<^verbatim>\<open>rows.Err\<close>, each with its own error text.
\<close>

fun scan_rows :: "faults \<Rightarrow> nat \<Rightarrow> nat \<Rightarrow> 'a list \<Rightarrow> error + 'a list" where
  "scan_rows f q j [] = Inr []"
| "scan_rows f q j (x # xs) =
     (case f (Scan q j) of
        Some err \<Rightarrow> Inl err
      | None \<Rightarrow> (case scan_rows f q (Suc j) xs of Inl err \<Rightarrow> Inl err | Inr ys \<Rightarrow> Inr (x # ys)))"

definition fetch :: "faults \<Rightarrow> nat \<Rightarrow> string \<Rightarrow> string \<Rightarrow> string \<Rightarrow> 'a list \<Rightarrow> error + 'a list" where
  "fetch f q onQuery onScan onIter rows =
     (case f (Query q) of
        Some err \<Rightarrow> Inl (wrap onQuery err)
      | None \<Rightarrow>
          (case scan_rows f q 0 rows of
             Inl err \<Rightarrow> Inl (wrap onScan err)
           | Inr xs \<Rightarrow>
               (case f (RowsErr q) of
                  Some err \<Rightarrow> Inl (wrap onIter err)
                | None \<Rightarrow> Inr xs)))"

definition no_faults :: faults where
  "no_faults c = None"

lemma no_faults_apply [simp]:
  "no_faults Begin = None" "no_faults (Query q) = None" "no_faults (Scan q j) = None"
  "no_faults (RowsErr q) = None" "no_faults (Exec i) = None"
  by (simp_all add: no_faults_def)

lemmas stmt_prims = stmt_return_def stmt_fail_def stmt_bind_def on_error_def stmt_read_def
  query_row_def query_def exec_def

lemma scan_rows_Inr [simp]: "scan_rows f q j xs = Inr ys \<Longrightarrow> ys = xs"
  by (induction xs arbitrary: j ys) (auto split: option.splits sum.splits)

lemma fetch_Inr: "fetch f q m1 m2 m3 xs = Inr ys \<Longrightarrow> ys = xs"
  by (auto simp: fetch_def split: option.splits sum.splits)

lemma scan_rows_no_faults [simp]: "scan_rows no_faults q j xs = Inr xs"
  by (induction xs arbitrary: j) simp_all

lemma fetch_no_faults [simp]: "fetch no_faults q m1 m2 m3 xs = Inr xs"
  by (simp add: fetch_def)

lemma stmt_bind_Inr:
  "stmt_bind m k d = (Inr y, d'') \<longleftrightarrow> (\<exists>x d'. m d = (Inr x, d') \<and> k x d' = (Inr y, d''))"
  by (auto simp: stmt_bind_def split: prod.splits sum.splits)

lemma on_error_Inr [simp]: "on_error h m d = (Inr x, d') \<longleftrightarrow> m d = (Inr x, d')"
  by (auto simp: on_error_def split: prod.splits sum.splits)

lemma exec_Inr: "exec f c st d = (Inr x, d') \<longleftrightarrow> f c = None \<and> st d = (Inr x, d')"
  by (auto simp: exec_def split: option.splits)

lemma query_row_Inr: "query_row f c g d = (Inr x, d') \<longleftrightarrow> f c = None \<and> d' = d \<and> g d = Some x"
  by (auto simp: query_row_def stmt_read_def query_def split: option.splits)

lemmas stmt_Inr = stmt_bind_Inr exec_Inr query_row_Inr

lemma stmt_no_faults [simp]:
  "exec no_faults c st = st"
  "query no_faults c res = res"
  by (simp_all add: exec_def query_def no_faults_def fun_eq_iff)

text \<open>
  A commit succeeds, fails without effect, or takes effect while its reply is lost.
\<close>

datatype commit_outcome = CommitOk | CommitFailed error | CommitLost error

definition rollback :: "db \<Rightarrow> db \<Rightarrow> db" where
  "rollback old new = old\<lparr>tSeqs := tSeqs new\<rparr>"

record tx_env =
  txFault :: faults
  txCommit :: commit_outcome
  txNow :: instant

text \<open>
  The shape shared by \<^verbatim>\<open>createBooking\<close>, \<^verbatim>\<open>Close\<close>, \<^verbatim>\<open>Cancel\<close> and \<^verbatim>\<open>RunDraw\<close>: begin, run, roll back on
  an early return, commit at the end.
\<close>

definition with_tx ::
  "('m tx_env_scheme) \<Rightarrow> (error \<Rightarrow> error) \<Rightarrow> (error \<Rightarrow> error) \<Rightarrow> 'a stmt \<Rightarrow> 'a stmt" where
  "with_tx env onBegin onCommit body d =
     (case txFault env Begin of
        Some err \<Rightarrow> (Inl (onBegin err), d)
      | None \<Rightarrow>
          (case body d of
             (Inl err, d') \<Rightarrow> (Inl err, rollback d d')
           | (Inr res, d') \<Rightarrow>
               (case txCommit env of
                  CommitOk \<Rightarrow> (Inr res, d')
                | CommitFailed err \<Rightarrow> (Inl (onCommit err), rollback d d')
                | CommitLost err \<Rightarrow> (Inl (onCommit err), d'))))"

lemma same_tables_rollback [simp]: "same_tables d (rollback d d')"
  by (simp add: same_tables_def rollback_def)

section \<open>The constraints of the schema\<close>

text \<open>
  Primary keys, UNIQUE, CHECK and REFERENCES constraints of each table. A table whose keys
  come from a sequence has no key above the last value handed out, which is what keeps the
  next one fresh.
\<close>

definition user_ids :: "db \<Rightarrow> int set" where
  "user_ids d = uID ` set (tUsers d)"

definition event_ids :: "db \<Rightarrow> int set" where
  "event_ids d = eID ` set (tEvents d)"

definition keyed :: "('a \<Rightarrow> int) \<Rightarrow> int \<Rightarrow> 'a list \<Rightarrow> bool" where
  "keyed k q xs \<longleftrightarrow> distinct (map k xs) \<and> (\<forall>x \<in> set xs. 0 < k x \<and> k x \<le> q) \<and> 0 \<le> q"

lemma keyed_next [intro]: "keyed k q xs \<Longrightarrow> keyed k (q + 1) xs"
  by (force simp: keyed_def)

lemma keyed_snoc [intro]: "keyed k q xs \<Longrightarrow> k x = q + 1 \<Longrightarrow> keyed k (q + 1) (xs @ [x])"
  by (force simp: keyed_def)

lemma keyed_map: "keyed k q xs \<Longrightarrow> (\<And>x. k (f x) = k x) \<Longrightarrow> keyed k q (map f xs)"
  by (simp add: keyed_def o_def)

definition users_wf :: "int \<Rightarrow> User list \<Rightarrow> bool" where
  "users_wf q us \<longleftrightarrow>
     keyed uID q us \<and> distinct (map uEmail us) \<and> (\<forall>u \<in> set us. uRole u \<in> {''user'', ''admin''})"

definition event_row_wf :: "event_row \<Rightarrow> bool" where
  "event_row_wf e \<longleftrightarrow>
     eStatus e \<in> statuses \<and> 0 < eCapacity e \<and> is_int32 (eCapacity e) \<and>
     0 < eWinnerCount e \<and> eWinnerCount e \<le> eCapacity e"

definition events_wf :: "int \<Rightarrow> int set \<Rightarrow> event_row list \<Rightarrow> bool" where
  "events_wf q U es \<longleftrightarrow> keyed eID q es \<and> (\<forall>e \<in> set es. event_row_wf e \<and> eCreatedBy e \<in> U)"

definition bookings_wf :: "int \<Rightarrow> int set \<Rightarrow> int set \<Rightarrow> Booking list \<Rightarrow> bool" where
  "bookings_wf q E U bs \<longleftrightarrow>
     keyed bID q bs \<and> distinct (map (\<lambda>b. (bEventID b, bUserID b)) bs) \<and>
     (\<forall>b \<in> set bs. bEventID b \<in> E \<and> bUserID b \<in> U)"

definition draws_wf :: "int \<Rightarrow> int set \<Rightarrow> int set \<Rightarrow> LotteryDraw list \<Rightarrow> bool" where
  "draws_wf q E U rs \<longleftrightarrow>
     keyed dID q rs \<and> distinct (map (\<lambda>r. (dEventID r, dDrawRank r)) rs) \<and>
     (\<forall>r \<in> set rs. 0 < dDrawRank r \<and> dEventID r \<in> E \<and> dWinnerUserID r \<in> U)"

definition seals_wf :: "int set \<Rightarrow> seal list \<Rightarrow> bool" where
  "seals_wf E ss \<longleftrightarrow> distinct (map sEventID ss) \<and> (\<forall>s \<in> set ss. sEventID s \<in> E)"

lemmas table_wf_defs [inv_defs] =
  users_wf_def events_wf_def bookings_wf_def draws_wf_def seals_wf_def

definition db_wf :: "db \<Rightarrow> bool" where
  "db_wf d \<longleftrightarrow>
     users_wf (qUsers (tSeqs d)) (tUsers d) \<and>
     events_wf (qEvents (tSeqs d)) (user_ids d) (tEvents d) \<and>
     bookings_wf (qBookings (tSeqs d)) (event_ids d) (user_ids d) (tBookings d) \<and>
     draws_wf (qDraws (tSeqs d)) (event_ids d) (user_ids d) (tDraws d) \<and>
     seals_wf (event_ids d) (tSeals d)"

lemma db_wf_empty [simp]: "db_wf empty_db"
  by (simp add: db_wf_def table_wf_defs empty_db_def keyed_def)

text \<open>References stay valid when referenced tables grow, keys stay fresh when sequences do.\<close>

lemma table_wf_next [intro]:
  "users_wf q us \<Longrightarrow> users_wf (q + 1) us"
  "events_wf q U es \<Longrightarrow> events_wf (q + 1) U es"
  "bookings_wf q E U bs \<Longrightarrow> bookings_wf (q + 1) E U bs"
  "draws_wf q E U rs \<Longrightarrow> draws_wf (q + 1) E U rs"
  by (auto simp: table_wf_defs)

lemma table_wf_insert [intro]:
  "events_wf q U es \<Longrightarrow> events_wf q (insert i U) es"
  "bookings_wf q E U bs \<Longrightarrow> bookings_wf q (insert i E) U bs"
  "bookings_wf q E U bs \<Longrightarrow> bookings_wf q E (insert i U) bs"
  "draws_wf q E U rs \<Longrightarrow> draws_wf q (insert i E) U rs"
  "draws_wf q E U rs \<Longrightarrow> draws_wf q E (insert i U) rs"
  "seals_wf E ss \<Longrightarrow> seals_wf (insert i E) ss"
  by (auto simp: table_wf_defs)

lemma find_None_set: "find P xs = None \<longleftrightarrow> (\<forall>x \<in> set xs. \<not> P x)"
  by (induction xs) auto

lemma find_Some_set: "find P xs = Some x \<Longrightarrow> x \<in> set xs \<and> P x"
  by (induction xs) (auto split: if_splits)

lemma find_distinct_key:
  "distinct (map k xs) \<Longrightarrow> x \<in> set xs \<Longrightarrow> k x = a \<Longrightarrow> find (\<lambda>y. k y = a) xs = Some x"
  by (induction xs) auto

lemma find_append: "find P (xs @ ys) = (case find P xs of None \<Rightarrow> find P ys | Some x \<Rightarrow> Some x)"
  by (induction xs) auto

lemma find_map_key:
  "(\<And>x. k (f x) = k x) \<Longrightarrow> find (\<lambda>y. k y = a) (map f xs) = map_option f (find (\<lambda>y. k y = a) xs)"
  by (induction xs) auto

lemma select_event_None [simp]: "select_event d i = None \<longleftrightarrow> i \<notin> event_ids d"
  by (auto simp: select_event_def find_None_set event_ids_def)

lemma select_user_None [simp]: "select_user d i = None \<longleftrightarrow> i \<notin> user_ids d"
  by (auto simp: select_user_def find_None_set user_ids_def)

lemma select_user_by_email_None [simp]:
  "select_user_by_email d m = None \<longleftrightarrow> m \<notin> uEmail ` set (tUsers d)"
  by (auto simp: select_user_by_email_def find_None_set)

lemma select_seal_None [simp]: "select_seal d i = None \<longleftrightarrow> i \<notin> sEventID ` set (tSeals d)"
  by (auto simp: select_seal_def find_None_set)

lemma select_missing [simp]:
  "i \<notin> event_ids d \<Longrightarrow> select_event d i = None"
  "i \<notin> user_ids d \<Longrightarrow> select_user d i = None"
  "m \<notin> uEmail ` set (tUsers d) \<Longrightarrow> select_user_by_email d m = None"
  "i \<notin> sEventID ` set (tSeals d) \<Longrightarrow> select_seal d i = None"
  by simp_all

lemma select_event_SomeD: "select_event d i = Some e \<Longrightarrow> e \<in> set (tEvents d) \<and> eID e = i"
  unfolding select_event_def by (drule find_Some_set) simp

lemma select_event_row:
  "db_wf d \<Longrightarrow> e \<in> set (tEvents d) \<Longrightarrow> select_event d (eID e) = Some e"
  by (simp add: select_event_def db_wf_def events_wf_def keyed_def find_distinct_key)

lemma select_user_SomeD: "select_user d i = Some u \<Longrightarrow> u \<in> set (tUsers d) \<and> uID u = i"
  unfolding select_user_def by (drule find_Some_set) simp

subsection \<open>Every statement keeps them\<close>

text \<open>A statement that fails only takes a value from a sequence.\<close>

definition seq_advance :: "db \<Rightarrow> db \<Rightarrow> bool" where
  "seq_advance d d' \<longleftrightarrow> same_tables d d' \<and>
     qUsers (tSeqs d') \<in> {qUsers (tSeqs d), qUsers (tSeqs d) + 1} \<and>
     qEvents (tSeqs d') \<in> {qEvents (tSeqs d), qEvents (tSeqs d) + 1} \<and>
     qBookings (tSeqs d') \<in> {qBookings (tSeqs d), qBookings (tSeqs d) + 1} \<and>
     qDraws (tSeqs d') \<in> {qDraws (tSeqs d), qDraws (tSeqs d) + 1}"

lemma seq_advance_wf: "seq_advance d d' \<Longrightarrow> db_wf d \<Longrightarrow> db_wf d'"
  by (auto simp: seq_advance_def same_tables_def db_wf_def user_ids_def event_ids_def)

lemma stmt_failed:
  "insert_user now email hash nm role d = (Inl err, d') \<Longrightarrow> seq_advance d d'"
  "insert_event now ti de ca at wc u d = (Inl err, d') \<Longrightarrow> seq_advance d d'"
  "insert_booking now eid uid d = (Inl err, d') \<Longrightarrow> seq_advance d d'"
  "insert_draw eid uid rank n ent at d = (Inl err, d') \<Longrightarrow> seq_advance d d'"
  "insert_seal eid digest alg at d = (Inl err, d') \<Longrightarrow> seq_advance d d'"
  "update_event_status now eid st d = (Inl err, d') \<Longrightarrow> seq_advance d d'"
  "update_user_role now uid role d = (Inl err, d') \<Longrightarrow> seq_advance d d'"
  "upsert_admin now email hash nm d = (Inl err, d') \<Longrightarrow> seq_advance d d'"
  by (auto simp: stmt_defs Let_def seq_advance_def same_tables_def
      split: if_splits option.splits sum.splits)

lemma insert_user_done:
  assumes "insert_user now email hash nm role d = (Inr u, d')"
  shows "u = \<lparr>uID = qUsers (tSeqs d) + 1, uEmail = email, uFullName = nm, uRole = role,
           uPasswordHash = hash, uCreatedAt = now, uUpdatedAt = now\<rparr>"
    and "d' = d\<lparr>tSeqs := (tSeqs d)\<lparr>qUsers := qUsers (tSeqs d) + 1\<rparr>, tUsers := tUsers d @ [u]\<rparr>"
    and "role \<in> {''user'', ''admin''}" and "email \<notin> uEmail ` set (tUsers d)"
  using assms by (auto simp: insert_user_def Let_def split: if_splits)

lemma insert_event_done:
  assumes "insert_event now ti de ca at wc by d = (Inr e, d')"
  shows "e = \<lparr>eID = qEvents (tSeqs d) + 1, eTitle = ti, eDescription = de, eCapacity = ca,
           eDrawAt = Truncate_us at, eStatus = EventStatusOpen, eWinnerCount = wc,
           eCreatedBy = by, eCreatedAt = now, eUpdatedAt = now\<rparr>"
    and "d' = d\<lparr>tSeqs := (tSeqs d)\<lparr>qEvents := qEvents (tSeqs d) + 1\<rparr>, tEvents := tEvents d @ [e]\<rparr>"
    and "0 < ca" "is_int32 ca" "0 < wc" "wc \<le> ca" "by \<in> user_ids d"
  using assms by (auto simp: insert_event_def Let_def split: if_splits)

lemma insert_booking_done:
  assumes "insert_booking now eid uid d = (Inr x, d')"
  shows "d' = d\<lparr>tSeqs := (tSeqs d)\<lparr>qBookings := qBookings (tSeqs d) + 1\<rparr>,
           tBookings := tBookings d @ [\<lparr>bID = qBookings (tSeqs d) + 1, bEventID = eid, bUserID = uid, bBookedAt = now\<rparr>]\<rparr>"
    and "eid \<in> event_ids d" "uid \<in> user_ids d" "\<not> exists_booking d eid uid"
  using assms by (auto simp: insert_booking_def Let_def split: if_splits)

lemma insert_draw_done:
  assumes "insert_draw eid uid rank n ent at d = (Inr r, d')"
  shows "r = \<lparr>dID = qDraws (tSeqs d) + 1, dEventID = eid, dWinnerUserID = uid, dDrawRank = rank,
           dEntropySource = ent, dTotalEntrants = n, dDrawnAt = Truncate_us at\<rparr>"
    and "d' = d\<lparr>tSeqs := (tSeqs d)\<lparr>qDraws := qDraws (tSeqs d) + 1\<rparr>, tDraws := tDraws d @ [r]\<rparr>"
    and "0 < rank" "\<not> list_ex (\<lambda>r. dEventID r = eid \<and> dDrawRank r = rank) (tDraws d)"
    and "eid \<in> event_ids d" "uid \<in> user_ids d"
  using assms by (auto simp: insert_draw_def Let_def split: if_splits)

lemma insert_seal_done:
  assumes "insert_seal eid digest alg at d = (Inr x, d')"
  shows "d' = d\<lparr>tSeals := tSeals d @
           [\<lparr>sEventID = eid, sDigest = digest, sAlgorithm = alg, sSealedAt = Truncate_us at\<rparr>]\<rparr>"
    and "eid \<notin> sEventID ` set (tSeals d)" "eid \<in> event_ids d"
  using assms by (auto simp: insert_seal_def split: if_splits)

definition set_status :: "instant \<Rightarrow> int \<Rightarrow> string \<Rightarrow> event_row \<Rightarrow> event_row" where
  "set_status now eid st e = (if eID e = eid then e\<lparr>eStatus := st, eUpdatedAt := now\<rparr> else e)"

lemma set_status_simps [simp]:
  "eID (set_status now eid st e) = eID e"
  "eCapacity (set_status now eid st e) = eCapacity e"
  "eTitle (set_status now eid st e) = eTitle e"
  "eWinnerCount (set_status now eid st e) = eWinnerCount e"
  "eCreatedBy (set_status now eid st e) = eCreatedBy e"
  "eStatus (set_status now eid st e) = (if eID e = eid then st else eStatus e)"
  by (simp_all add: set_status_def)

lemma select_event_set_status:
  "select_event (d\<lparr>tEvents := map (set_status now eid st) (tEvents d)\<rparr>) i
   = map_option (set_status now eid st) (select_event d i)"
  by (simp add: select_event_def find_map_key)

lemma update_event_status_done:
  assumes "update_event_status now eid st d = (Inr x, d')"
  shows "d' = d\<lparr>tEvents := map (set_status now eid st) (tEvents d)\<rparr>"
    and "eid \<in> event_ids d \<Longrightarrow> st \<in> statuses"
    and "select_event d eid = Some e \<Longrightarrow> eStatus e = EventStatusDrawn \<Longrightarrow> st = EventStatusDrawn"
proof -
  show "d' = d\<lparr>tEvents := map (set_status now eid st) (tEvents d)\<rparr>"
  proof (cases "select_event d eid")
    case None
    then have "map (set_status now eid st) (tEvents d) = tEvents d"
      by (force simp: event_ids_def set_status_def intro: map_idI)
    moreover have "d' = d" using assms unfolding update_event_status_def None by simp
    ultimately show ?thesis by simp
  next
    case (Some e)
    with assms show ?thesis
      by (auto simp: update_event_status_def set_status_def[abs_def] split: sum.splits if_splits)
  qed
  show "st \<in> statuses" if ids: "eid \<in> event_ids d"
  proof -
    obtain e where "select_event d eid = Some e"
      using ids by (cases "select_event d eid") simp_all
    with assms show ?thesis by (simp add: update_event_status_def split: sum.splits if_splits)
  qed
  show "st = EventStatusDrawn" if "select_event d eid = Some e" "eStatus e = EventStatusDrawn"
    using that assms
    by (auto simp: update_event_status_def forbid_drawn_event_change_def split: sum.splits if_splits)
qed

lemmas stmt_done =
  insert_user_done insert_event_done insert_booking_done insert_draw_done insert_seal_done
  update_event_status_done

lemma db_wf_insert_user:
  assumes "insert_user now email hash nm role d = (Inr u, d')" and "db_wf d"
  shows "db_wf d'"
proof -
  note D = insert_user_done[OF assms(1)]
  have "user_ids d' = insert (uID u) (user_ids d)" "event_ids d' = event_ids d"
    by (auto simp: D(2) user_ids_def event_ids_def)
  moreover have "users_wf (qUsers (tSeqs d')) (tUsers d')"
    using D assms(2) by (auto simp: db_wf_def users_wf_def)
  ultimately show ?thesis using assms(2) by (auto simp: db_wf_def D(2))
qed

lemma db_wf_insert_event:
  assumes "insert_event now ti de ca at wc by d = (Inr e, d')" and "db_wf d"
  shows "db_wf d'"
proof -
  note D = insert_event_done[OF assms(1)]
  have "user_ids d' = user_ids d" "event_ids d' = insert (eID e) (event_ids d)"
    by (auto simp: D(2) user_ids_def event_ids_def)
  moreover have "events_wf (qEvents (tSeqs d')) (user_ids d) (tEvents d')"
    using D assms(2) by (auto simp: db_wf_def events_wf_def event_row_wf_def statuses_def)
  ultimately show ?thesis using assms(2) by (auto simp: db_wf_def D(2))
qed

lemma db_wf_insert_booking:
  assumes "insert_booking now eid uid d = (Inr x, d')" and "db_wf d"
  shows "db_wf d'"
proof -
  note D = insert_booking_done[OF assms(1)]
  have "user_ids d' = user_ids d" "event_ids d' = event_ids d"
    by (auto simp: D(1) user_ids_def event_ids_def)
  moreover have "bookings_wf (qBookings (tSeqs d')) (event_ids d) (user_ids d) (tBookings d')"
    using D assms(2) by (auto simp: db_wf_def bookings_wf_def exists_booking_def list_ex_iff)
  ultimately show ?thesis using assms(2) by (auto simp: db_wf_def D(1))
qed

lemma db_wf_insert_draw:
  assumes "insert_draw eid uid rank n ent at d = (Inr r, d')" and "db_wf d"
  shows "db_wf d'"
proof -
  note D = insert_draw_done[OF assms(1)]
  have "user_ids d' = user_ids d" "event_ids d' = event_ids d"
    by (auto simp: D(2) user_ids_def event_ids_def)
  moreover have "draws_wf (qDraws (tSeqs d')) (event_ids d) (user_ids d) (tDraws d')"
    using D assms(2) by (auto simp: db_wf_def draws_wf_def list_ex_iff)
  ultimately show ?thesis using assms(2) by (auto simp: db_wf_def D(2))
qed

lemma db_wf_insert_seal:
  assumes "insert_seal eid digest alg at d = (Inr x, d')" and "db_wf d"
  shows "db_wf d'"
  using insert_seal_done[OF assms(1)] assms(2)
  by (auto simp: db_wf_def seals_wf_def user_ids_def event_ids_def)

lemma db_wf_update_event_status:
  assumes "update_event_status now eid st d = (Inr x, d')" and "db_wf d"
  shows "db_wf d'"
proof -
  note D = update_event_status_done(1,2)[OF assms(1)]
  have ids: "user_ids d' = user_ids d" "event_ids d' = event_ids d"
    by (auto simp: D(1) user_ids_def event_ids_def image_image)
  have "\<forall>e \<in> set (tEvents d). event_row_wf (set_status now eid st e)"
    using assms(2) D(2) by (auto simp: db_wf_def events_wf_def event_row_wf_def event_ids_def)
  then have "events_wf (qEvents (tSeqs d')) (user_ids d) (tEvents d')"
    using assms(2) by (auto simp: D(1) db_wf_def events_wf_def intro!: keyed_map)
  with ids show ?thesis using assms(2) by (auto simp: db_wf_def D(1))
qed

lemma users_wf_map:
  assumes "users_wf q us" and "\<And>u. uID (f u) = uID u" "\<And>u. uEmail (f u) = uEmail u"
    and "\<And>u. u \<in> set us \<Longrightarrow> uRole (f u) \<in> {''user'', ''admin''}"
  shows "users_wf q (map f us)"
  using assms by (auto simp: users_wf_def o_def intro!: keyed_map)

lemma db_wf_update_users:
  assumes "db_wf d" and "users_wf q (map f (tUsers d))" and "\<And>u. uID (f u) = uID u"
  shows "db_wf (d\<lparr>tSeqs := (tSeqs d)\<lparr>qUsers := q\<rparr>, tUsers := map f (tUsers d)\<rparr>)"
proof -
  have "uID ` f ` set (tUsers d) = uID ` set (tUsers d)"
    by (simp add: image_image assms(3))
  then show ?thesis using assms(1,2) by (simp add: db_wf_def user_ids_def event_ids_def)
qed

lemma db_wf_update_user_role:
  assumes "update_user_role now uid role d = (Inr u, d')" and "db_wf d"
  shows "db_wf d'"
proof -
  let ?f = "\<lambda>v. if uID v = uid then v\<lparr>uRole := role, uUpdatedAt := now\<rparr> else v"
  have d': "d' = d\<lparr>tUsers := map ?f (tUsers d)\<rparr>" "role \<in> {''user'', ''admin''}"
    using assms(1) by (auto simp: update_user_role_def split: option.splits if_splits)
  have "users_wf (qUsers (tSeqs d)) (map ?f (tUsers d))"
    using assms(2) d'(2) by (intro users_wf_map) (auto simp: db_wf_def users_wf_def)
  from db_wf_update_users[OF assms(2) this] show ?thesis
    by (simp add: d'(1))
qed

lemma db_wf_upsert_admin:
  assumes "upsert_admin now email hash nm d = (Inr u, d')" and "db_wf d"
  shows "db_wf d'"
proof (cases "select_user_by_email d email")
  case None
  then have "insert_user now email hash nm ''admin'' d
      = (Inr \<lparr>uID = qUsers (tSeqs d) + 1, uEmail = email, uFullName = nm, uRole = ''admin'',
           uPasswordHash = hash, uCreatedAt = now, uUpdatedAt = now\<rparr>, d')"
    using assms(1) by (auto simp: upsert_admin_def insert_user_def Let_def split: if_splits)
  then show ?thesis using assms(2) by (rule db_wf_insert_user)
next
  case (Some v)
  let ?f = "\<lambda>v. if uEmail v = email then v\<lparr>uRole := ''admin'', uUpdatedAt := now\<rparr> else v"
  have d': "d' = d\<lparr>tSeqs := (tSeqs d)\<lparr>qUsers := qUsers (tSeqs d) + 1\<rparr>, tUsers := map ?f (tUsers d)\<rparr>"
    using assms(1) Some by (auto simp: upsert_admin_def Let_def split: if_splits)
  have "users_wf (qUsers (tSeqs d) + 1) (map ?f (tUsers d))"
    using assms(2) by (intro users_wf_map) (auto simp: db_wf_def users_wf_def)
  from db_wf_update_users[OF assms(2) this] show ?thesis
    by (simp add: d')
qed

section \<open>The contract of a transaction body\<close>

text \<open>
  What the transactional operations rely on: a body keeps the constraints, whether it ends
  in an error or not, and sequences never go back. The rest is shared by all of them: a
  transaction keeps the constraints, and one that reports an error has changed no table
  unless its commit took effect and only the reply was lost.
\<close>

definition seqs_le :: "db \<Rightarrow> db \<Rightarrow> bool" where
  "seqs_le d d' \<longleftrightarrow>
     qUsers (tSeqs d) \<le> qUsers (tSeqs d') \<and> qEvents (tSeqs d) \<le> qEvents (tSeqs d') \<and>
     qBookings (tSeqs d) \<le> qBookings (tSeqs d') \<and> qDraws (tSeqs d) \<le> qDraws (tSeqs d')"

lemma seqs_le_refl [simp]: "seqs_le d d"
  by (simp add: seqs_le_def)

lemma seqs_le_trans: "seqs_le a b \<Longrightarrow> seqs_le b c \<Longrightarrow> seqs_le a c"
  by (auto simp: seqs_le_def)

lemma keyed_mono: "keyed k q xs \<Longrightarrow> q \<le> q' \<Longrightarrow> keyed k q' xs"
  by (force simp: keyed_def)

lemma db_wf_rollback: "db_wf d \<Longrightarrow> seqs_le d d' \<Longrightarrow> db_wf (rollback d d')"
  by (auto simp: db_wf_def table_wf_defs seqs_le_def rollback_def user_ids_def event_ids_def
      intro: keyed_mono)

definition stmt_ok :: "'a stmt \<Rightarrow> bool" where
  "stmt_ok m \<longleftrightarrow> (\<forall>d. db_wf d \<longrightarrow> db_wf (snd (m d)) \<and> seqs_le d (snd (m d)))"

lemma stmt_okI:
  assumes "\<And>d err d'. m d = (Inl err, d') \<Longrightarrow> seq_advance d d'"
    and "\<And>d x d'. m d = (Inr x, d') \<Longrightarrow> db_wf d \<Longrightarrow> db_wf d'"
    and "\<And>d. seqs_le d (snd (m d))"
  shows "stmt_ok m"
proof (unfold stmt_ok_def, intro allI impI)
  fix d assume wf: "db_wf d"
  obtain r d' where m: "m d = (r, d')" by (cases "m d")
  have "db_wf d'"
    by (cases r) (use m wf assms(1)[of d _ d'] assms(2)[of d _ d'] seq_advance_wf in auto)
  with m assms(3)[of d] show "db_wf (snd (m d)) \<and> seqs_le d (snd (m d))" by simp
qed

lemma stmt_ok_return [intro, simp]: "stmt_ok (stmt_return x)"
  by (simp add: stmt_ok_def stmt_return_def)

lemma stmt_ok_fail [intro, simp]: "stmt_ok (stmt_fail err)"
  by (simp add: stmt_ok_def stmt_fail_def)

lemma stmt_ok_read [intro, simp]: "stmt_ok (stmt_read g)"
  by (simp add: stmt_ok_def stmt_read_def)

lemma stmt_ok_query_row [intro, simp]: "stmt_ok (query_row f c g)"
  by (simp add: query_row_def)

lemma stmt_ok_exec [intro, simp]: "stmt_ok m \<Longrightarrow> stmt_ok (exec f c m)"
  by (auto simp: stmt_ok_def exec_def split: option.splits)

lemma stmt_ok_on_error [intro, simp]: "stmt_ok m \<Longrightarrow> stmt_ok (on_error h m)"
  unfolding stmt_ok_def on_error_def by (auto split: prod.splits sum.splits)

lemma stmt_ok_bind [intro!]:
  assumes "stmt_ok m" and "\<And>x. stmt_ok (k x)"
  shows "stmt_ok (stmt_bind m k)"
proof (unfold stmt_ok_def, intro allI impI)
  fix d assume wf: "db_wf d"
  obtain r d' where m: "m d = (r, d')" by (cases "m d")
  have d': "db_wf d'" "seqs_le d d'"
    using assms(1) wf m unfolding stmt_ok_def by (metis snd_conv)+
  show "db_wf (snd (stmt_bind m k d)) \<and> seqs_le d (snd (stmt_bind m k d))"
  proof (cases r)
    case (Inr x)
    have "db_wf (snd (k x d'))" "seqs_le d' (snd (k x d'))"
      using assms(2)[of x] d'(1) unfolding stmt_ok_def by simp_all
    then show ?thesis using m Inr d'(2) by (auto simp: stmt_bind_def intro: seqs_le_trans)
  qed (use m d' in \<open>simp add: stmt_bind_def\<close>)
qed

lemmas db_wf_stmts =
  db_wf_insert_user db_wf_insert_event db_wf_insert_booking db_wf_insert_draw
  db_wf_insert_seal db_wf_update_event_status db_wf_update_user_role db_wf_upsert_admin

lemma stmt_seqs:
  "seqs_le d (snd (insert_user now email hash nm role d))"
  "seqs_le d (snd (insert_event now ti de ca at wc u d))"
  "seqs_le d (snd (insert_booking now eid uid d))"
  "seqs_le d (snd (insert_draw eid uid rank n ent at d))"
  "seqs_le d (snd (insert_seal eid digest alg at d))"
  "seqs_le d (snd (update_event_status now eid st d))"
  "seqs_le d (snd (update_user_role now uid role d))"
  "seqs_le d (snd (upsert_admin now email hash nm d))"
  by (simp_all add: stmt_defs seqs_le_def Let_def split: option.splits sum.splits)

lemma stmt_ok_stmts [intro, simp]:
  "stmt_ok (insert_user now email hash nm role)"
  "stmt_ok (insert_event now ti de ca at wc u)"
  "stmt_ok (insert_booking now eid uid)"
  "stmt_ok (insert_draw eid uid rank n ent at)"
  "stmt_ok (insert_seal eid digest alg at)"
  "stmt_ok (update_event_status now eid st)"
  "stmt_ok (update_user_role now uid role)"
  "stmt_ok (upsert_admin now email hash nm)"
  by (rule stmt_okI, erule stmt_failed, erule (1) db_wf_stmts, rule stmt_seqs)+

locale transaction =
  fixes body :: "'a stmt"
  assumes body_ok: "stmt_ok body"
begin

lemma with_tx_wf:
  assumes "with_tx env onBegin onCommit body d = (res, d')" and "db_wf d"
  shows "db_wf d'"
proof -
  obtain r d1 where b: "body d = (r, d1)" by (cases "body d")
  have "db_wf d1" "seqs_le d d1"
    using body_ok assms(2) b unfolding stmt_ok_def by (metis snd_conv)+
  then show ?thesis
    using assms b
    by (auto simp: with_tx_def db_wf_rollback split: option.splits sum.splits commit_outcome.splits)
qed

lemma with_tx_seqs:
  assumes "with_tx env onBegin onCommit body d = (res, d')" and "db_wf d"
  shows "seqs_le d d'"
proof -
  obtain r d1 where b: "body d = (r, d1)" by (cases "body d")
  have "seqs_le d d1"
    using body_ok assms(2) b unfolding stmt_ok_def by (metis snd_conv)
  then show ?thesis
    using assms b
    by (auto simp: with_tx_def rollback_def seqs_le_def split: option.splits sum.splits commit_outcome.splits)
qed

end

lemma with_tx_Inr:
  "with_tx env onBegin onCommit body d = (Inr x, d') \<longleftrightarrow>
   txFault env Begin = None \<and> txCommit env = CommitOk \<and> body d = (Inr x, d')"
  by (auto simp: with_tx_def split: option.splits prod.splits sum.splits commit_outcome.splits)

lemma with_tx_Inl:
  assumes "with_tx env onBegin onCommit body d = (Inl err, d')"
  shows "same_tables d d' \<or>
    (\<exists>x e. txCommit env = CommitLost e \<and> err = onCommit e \<and> body d = (Inr x, d'))"
  using assms
  by (auto simp: with_tx_def split: option.splits prod.splits sum.splits commit_outcome.splits)

lemma with_tx_tables:
  assumes "with_tx env ob oc body d = (res, d')"
  shows "same_tables d d' \<or> (\<exists>x. body d = (Inr x, d'))"
  using assms
  by (auto simp: with_tx_def split: option.splits prod.splits sum.splits commit_outcome.splits)

end
