(* ===== verification/Scenario.thy ===== *)
theory Scenario
  imports Database
begin

text \<open>
  A small database used by the examples of the service theories: three users, an open event, a
  closed event with two bookings and room for a draw, and a cancelled event.
\<close>

definition demo_user :: "int \<Rightarrow> string \<Rightarrow> string \<Rightarrow> User" where
  "demo_user i mail role = \<lparr>uID = i, uEmail = mail, uFullName = ''Demo User'', uRole = role,
     uPasswordHash = ''hash'', uCreatedAt = 0, uUpdatedAt = 0\<rparr>"

definition demo_event :: "int \<Rightarrow> int \<Rightarrow> string \<Rightarrow> event_row" where
  "demo_event i capacity st = \<lparr>eID = i, eTitle = ''Launch'', eDescription = '''', eCapacity = capacity,
     eDrawAt = 1000, eStatus = st, eWinnerCount = 1, eCreatedBy = 1, eCreatedAt = 0, eUpdatedAt = 0\<rparr>"

definition demo_booking :: "int \<Rightarrow> int \<Rightarrow> int \<Rightarrow> Booking" where
  "demo_booking i eid uid = \<lparr>bID = i, bEventID = eid, bUserID = uid, bBookedAt = i\<rparr>"

definition demo_db :: db where
  "demo_db = \<lparr>tUsers = [demo_user 1 ''root@x.org'' ''admin'', demo_user 2 ''bob@x.org'' ''user'',
       demo_user 3 ''eve@x.org'' ''user''],
     tEvents = [demo_event 1 1 EventStatusOpen, demo_event 2 3 EventStatusClosed,
       demo_event 3 3 EventStatusCancelled],
     tBookings = [demo_booking 1 2 2, demo_booking 2 2 3], tDraws = [], tSeals = [],
     tSeqs = \<lparr>qUsers = 3, qEvents = 3, qBookings = 2, qDraws = 0\<rparr>\<rparr>"

lemmas demo_defs = demo_db_def demo_user_def demo_event_def demo_booking_def

definition demo_tx :: tx_env where
  "demo_tx = \<lparr>txFault = no_faults, txCommit = CommitOk, txNow = 2000\<rparr>"

lemma demo_tx_simps [simp]:
  "txFault demo_tx = no_faults" "txCommit demo_tx = CommitOk" "txNow demo_tx = 2000"
  by (simp_all add: demo_tx_def)

lemma demo_db_wf [simp]: "db_wf demo_db"
  by (simp add: db_wf_def table_wf_defs keyed_def demo_defs user_ids_def event_ids_def event_row_wf_def
      statuses_def is_int32_def)

lemma demo_reads [simp]:
  "select_event demo_db 1 = Some (demo_event 1 1 EventStatusOpen)"
  "select_event demo_db 2 = Some (demo_event 2 3 EventStatusClosed)"
  "select_event demo_db 3 = Some (demo_event 3 3 EventStatusCancelled)"
  "event_bookings demo_db 1 = []" "event_bookings demo_db 2 = [demo_booking 1 2 2, demo_booking 2 2 3]"
  "exists_booking demo_db eid uid \<longleftrightarrow> eid = 2 \<and> (uid = 2 \<or> uid = 3)"
  "event_draws demo_db i = []" "tSeals demo_db = []"
  "user_ids demo_db = {1, 2, 3}" "event_ids demo_db = {1, 2, 3}"
  by (auto simp: select_event_def event_bookings_def event_draws_def user_ids_def event_ids_def
      exists_booking_def demo_defs)

lemma demo_event_simps [simp]:
  "eID (demo_event i c st) = i" "eCapacity (demo_event i c st) = c" "eStatus (demo_event i c st) = st"
  "eWinnerCount (demo_event i c st) = 1" "eDrawAt (demo_event i c st) = 1000"
  by (simp_all add: demo_event_def)

end
