(* ===== verification/Httpx.thy ===== *)
theory Httpx
  imports Models
begin

text \<open>
  internal/httpx: the response envelope every handler writes, with the status line. A
  response is the value written; its JSON text is produced by \<^verbatim>\<open>encoding/json\<close>, whose failure
  is only logged. The decoder of request bodies is a parameter of \<open>DecodeJSON\<close>.
\<close>

record 'a response =
  rsStatus :: int
  rsSuccess :: bool
  rsData :: "'a option"
  rsError :: string
  rsCode :: string
  rsMeta :: "Meta option"

definition Respond :: "int \<Rightarrow> bool \<Rightarrow> 'a option \<Rightarrow> string \<Rightarrow> 'a response" where
  "Respond status success data errMsg =
     \<lparr>rsStatus = status, rsSuccess = success, rsData = data, rsError = errMsg, rsCode = '''', rsMeta = None\<rparr>"

definition respond_Error :: "int \<Rightarrow> string \<Rightarrow> string \<Rightarrow> 'a response" where
  "respond_Error status code msg =
     \<lparr>rsStatus = status, rsSuccess = False, rsData = None, rsError = msg, rsCode = code, rsMeta = None\<rparr>"

definition RespondMeta :: "int \<Rightarrow> 'a \<Rightarrow> Meta \<Rightarrow> 'a response" where
  "RespondMeta status data meta =
     \<lparr>rsStatus = status, rsSuccess = True, rsData = Some data, rsError = '''', rsCode = '''', rsMeta = Some meta\<rparr>"

definition BadRequest :: "string \<Rightarrow> 'a response" where "BadRequest msg = Respond 400 False None msg"
definition Unauthorized :: "string \<Rightarrow> 'a response" where "Unauthorized msg = Respond 401 False None msg"
definition Forbidden :: "string \<Rightarrow> 'a response" where "Forbidden msg = Respond 403 False None msg"
definition NotFound :: "string \<Rightarrow> 'a response" where "NotFound msg = Respond 404 False None msg"
definition Conflict :: "string \<Rightarrow> 'a response" where "Conflict msg = Respond 409 False None msg"
definition Internal :: "string \<Rightarrow> 'a response" where "Internal msg = Respond 500 False None msg"

lemmas response_defs [go_defs] =
  Respond_def respond_Error_def RespondMeta_def BadRequest_def Unauthorized_def Forbidden_def
  NotFound_def Conflict_def Internal_def

section \<open>Request bodies\<close>

text \<open>
  A body is the bytes that can be read and the error met after them, \<open>None\<close> for the end of the
  stream.  A decoder stands for \<^verbatim>\<open>json.Decoder.Decode\<close> with unknown fields disallowed, whose
  target type is the record \<open>'a\<close>: the first value of a body or an error, and what is left of the
  bytes.  \<^verbatim>\<open>Decoder.More\<close> skips white space and looks at one byte; a closing bracket or brace, the
  end of the body and a read error all mean that there is nothing more.
\<close>

type_synonym body = "string \<times> error option"
type_synonym 'a json_decoder = "body \<Rightarrow> (error + 'a) \<times> string"

definition json_space :: "char \<Rightarrow> bool" where
  "json_space c \<longleftrightarrow> c \<in> {CHR 0x20, CHR 0x09, CHR 0x0A, CHR 0x0D}"

definition json_More :: "string \<Rightarrow> bool" where
  "json_More rest \<longleftrightarrow>
     (case dropWhile json_space rest of [] \<Rightarrow> False | c # _ \<Rightarrow> c \<notin> {CHR '']'', CHR 0x7D})"

definition DecodeJSON :: "'a json_decoder \<Rightarrow> body \<Rightarrow> error + 'a" where
  "DecodeJSON dec body =
     (case dec body of
        (Inl err, rest) \<Rightarrow>
          if errors_Is err io_EOF then Inl (Errorf ''request body is empty'') else Inl err
      | (Inr v, rest) \<Rightarrow>
          if json_More rest then Inl (Errorf ''request body must contain a single JSON object'')
          else Inr v)"

lemma DecodeJSON_Inr:
  "DecodeJSON dec body = Inr v \<longleftrightarrow> (\<exists>rest. dec body = (Inr v, rest) \<and> \<not> json_More rest)"
  by (auto simp: DecodeJSON_def split: prod.splits sum.splits)

section \<open>Path parameters\<close>

text \<open>
  \<^verbatim>\<open>strconv.ParseInt(chi.URLParam(r, "eventID"), 10, 64)\<close> with the check every handler makes.
\<close>

definition parse_event_id :: "string \<Rightarrow> int option" where
  "parse_event_id s =
     (case ParseInt s of (i, err) \<Rightarrow> if err \<noteq> None \<or> i \<le> 0 then None else Some i)"

lemma parse_event_id_FormatInt: "is_int64 i \<Longrightarrow> 0 < i \<Longrightarrow> parse_event_id (FormatInt i) = Some i"
  by (simp add: parse_event_id_def ParseInt_FormatInt)

lemma parse_event_id_range: "parse_event_id s = Some i \<Longrightarrow> 0 < i \<and> is_int64 i"
  using ParseInt_range[of s] by (auto simp: parse_event_id_def split: prod.splits if_splits)

end
