(* ===== verification/Http_Server.thy ===== *)
theory Http_Server
  imports Httpx
begin

text \<open>
  Handlers and middleware of internal/middleware/http.go.  A request is an object that the
  middlewares share through a pointer: what an inner one writes into it (\<^verbatim>\<open>RemoteAddr\<close>, \<^verbatim>\<open>Body\<close>) an
  outer one sees after the call, except behind \<^verbatim>\<open>WithContext\<close>, which copies it.  What a handler
  does with its \<^verbatim>\<open>ResponseWriter\<close> is the list of its calls in order; the writes to the connection
  are taken to succeed.  Shown here: what is sent is sent once, the log line of a request
  reports it, and no panic leaves the chain.
\<close>

section \<open>Requests, calls, outcomes\<close>

record request =
  rqMethod :: string
  rqPath :: string
  rqHeader :: "string \<Rightarrow> string list"
  rqRemoteAddr :: string
  rqBody :: "body option"
  rqParam :: "string \<Rightarrow> string"
  rqUserID :: "int option"
  rqRole :: "string option"
  rqReqID :: string

definition Header_Get :: "request \<Rightarrow> string \<Rightarrow> string" where
  "Header_Get r k = (case rqHeader r k of [] \<Rightarrow> '''' | v # _ \<Rightarrow> v)"

datatype call = HeaderSet string string | WriteHeader int | Write string

datatype panic = ErrAbortHandler | PanicValue string

record http_request_log =
  lgRequestID :: string
  lgMethod :: string
  lgPath :: string
  lgStatus :: int
  lgBytes :: nat
  lgLatency :: duration
  lgRemoteAddr :: string
  lgUserAgent :: string

datatype log_line = HttpRequest http_request_log | RecoveredPanic string panic

record 's outcome =
  oPanic :: "panic option"
  oReq :: request
  oCalls :: "call list"
  oState :: 's
  oLog :: "log_line list"

type_synonym 's handler = "request \<Rightarrow> 's \<Rightarrow> 's outcome"

text \<open>A handler that returns normally: the calls it makes and the state it leaves.\<close>

definition returns :: "request \<Rightarrow> call list \<Rightarrow> 's \<Rightarrow> 's outcome" where
  "returns r cs s = \<lparr>oPanic = None, oReq = r, oCalls = cs, oState = s, oLog = []\<rparr>"

text \<open>\<^verbatim>\<open>next.ServeHTTP(w, r.WithContext(...))\<close>: the callee works on a copy of the request.\<close>

definition on_copy :: "(request \<Rightarrow> request) \<Rightarrow> 's handler \<Rightarrow> 's handler" where
  "on_copy f next r s = (next (f r) s)\<lparr>oReq := r\<rparr>"

text \<open>Calls made before the next handler runs.\<close>

definition before_next :: "call list \<Rightarrow> 's outcome \<Rightarrow> 's outcome" where
  "before_next cs out = out\<lparr>oCalls := cs @ oCalls out\<rparr>"

section \<open>The connection\<close>

text \<open>
  \<^verbatim>\<open>net/http\<close>'s own writer: the first status counts and freezes the headers, a write without a
  status sends 200, and so does returning without any call.  The statuses are final ones: a 1xx
  status, which \<^verbatim>\<open>net/http\<close> would let a final one follow, is sent by no handler of the program.
\<close>

record conn =
  cHeader :: "string \<rightharpoonup> string"
  cSent :: "(int \<times> (string \<rightharpoonup> string)) option"
  cBody :: string

definition new_conn :: conn where
  "new_conn = \<lparr>cHeader = Map.empty, cSent = None, cBody = ''''\<rparr>"

definition send_status :: "int \<Rightarrow> conn \<Rightarrow> conn" where
  "send_status code c = (if cSent c = None then c\<lparr>cSent := Some (code, cHeader c)\<rparr> else c)"

fun conn_call :: "conn \<Rightarrow> call \<Rightarrow> conn" where
  "conn_call c (HeaderSet k v) = c\<lparr>cHeader := (cHeader c)(k \<mapsto> v)\<rparr>"
| "conn_call c (WriteHeader code) = send_status code c"
| "conn_call c (Write p) = (send_status 200 c)\<lparr>cBody := cBody c @ p\<rparr>"

definition finish :: "call list \<Rightarrow> conn" where
  "finish cs = send_status 200 (foldl conn_call new_conn cs)"

definition sent_status :: "call list \<Rightarrow> int" where
  "sent_status cs = (case cSent (finish cs) of Some (code, _) \<Rightarrow> code | None \<Rightarrow> 200)"

definition sent_header :: "call list \<Rightarrow> string \<Rightarrow> string option" where
  "sent_header cs k = (case cSent (finish cs) of Some (_, h) \<Rightarrow> h k | None \<Rightarrow> None)"

section \<open>Responses\<close>

text \<open>\<open>enc\<close> is the JSON text \<^verbatim>\<open>encoding/json\<close> writes for the envelope.\<close>

definition respond :: "('a response \<Rightarrow> string) \<Rightarrow> 'a response \<Rightarrow> call list" where
  "respond enc rs =
     [HeaderSet ''Content-Type'' ''application/json; charset=utf-8'', WriteHeader (rsStatus rs), Write (enc rs)]"

section \<open>Logger\<close>

record responseWriter =
  rwStatus :: int
  rwWroteHeader :: bool
  rwBytes :: nat

definition rw_WriteHeader :: "int \<Rightarrow> responseWriter \<Rightarrow> responseWriter \<times> call list" where
  "rw_WriteHeader code rw =
     (if rwWroteHeader rw then (rw, [])
      else (rw\<lparr>rwStatus := code, rwWroteHeader := True\<rparr>, [WriteHeader code]))"

definition rw_Write :: "string \<Rightarrow> responseWriter \<Rightarrow> responseWriter \<times> call list" where
  "rw_Write p rw =
     (let (rw1, cs) = (if rwWroteHeader rw then (rw, []) else rw_WriteHeader 200 rw)
      in (rw1\<lparr>rwBytes := rwBytes rw1 + length p\<rparr>, cs @ [Write p]))"

fun rw_call :: "call \<Rightarrow> responseWriter \<Rightarrow> responseWriter \<times> call list" where
  "rw_call (HeaderSet k v) rw = (rw, [HeaderSet k v])"
| "rw_call (WriteHeader code) rw = rw_WriteHeader code rw"
| "rw_call (Write p) rw = rw_Write p rw"

fun rw_calls :: "call list \<Rightarrow> responseWriter \<Rightarrow> responseWriter \<times> call list" where
  "rw_calls [] rw = (rw, [])"
| "rw_calls (c # cs) rw =
     (let (rw1, out1) = rw_call c rw; (rw2, out2) = rw_calls cs rw1 in (rw2, out1 @ out2))"

definition Logger :: "duration \<Rightarrow> 's handler \<Rightarrow> 's handler" where
  "Logger latency next r s =
     (let out = next r s;
          (wrapped, calls) = rw_calls (oCalls out) \<lparr>rwStatus = 200, rwWroteHeader = False, rwBytes = 0\<rparr>;
          r' = oReq out;
          line = (if rqPath r' = ''/health'' \<or> rqPath r' = ''/ready'' then []
                  else [HttpRequest \<lparr>lgRequestID = rqReqID r', lgMethod = rqMethod r', lgPath = rqPath r',
                          lgStatus = rwStatus wrapped, lgBytes = rwBytes wrapped, lgLatency = latency,
                          lgRemoteAddr = rqRemoteAddr r', lgUserAgent = Header_Get r' ''User-Agent''\<rparr>])
      in out\<lparr>oCalls := calls, oLog := oLog out @ line\<rparr>)"

section \<open>Recoverer, BodyLimit, CORS, SecurityHeaders\<close>

definition Recoverer :: "(unit response \<Rightarrow> string) \<Rightarrow> 's handler \<Rightarrow> 's handler" where
  "Recoverer enc next r s =
     (let out = next r s in
      case oPanic out of
        None \<Rightarrow> out
      | Some rec \<Rightarrow>
          if rec = ErrAbortHandler then out\<lparr>oPanic := None\<rparr>
          else out\<lparr>oPanic := None,
                 oLog := oLog out @ [RecoveredPanic (rqReqID (oReq out)) rec],
                 oCalls := oCalls out @ respond enc (Internal ''internal server error'')\<rparr>)"

definition request_too_large :: error where
  "request_too_large = Errorf ''http: request body too large''"

definition MaxBytesReader :: "int \<Rightarrow> body \<Rightarrow> body" where
  "MaxBytesReader n b =
     (if length (fst b) > nat n then (take (nat n) (fst b), Some request_too_large) else b)"

definition BodyLimit :: "int \<Rightarrow> 's handler \<Rightarrow> 's handler" where
  "BodyLimit maxBytes next r s = next (r\<lparr>rqBody := map_option (MaxBytesReader maxBytes) (rqBody r)\<rparr>) s"

definition cors_headers :: "string \<Rightarrow> call list" where
  "cors_headers origin =
     [HeaderSet ''Access-Control-Allow-Origin'' origin, HeaderSet ''Vary'' ''Origin'',
      HeaderSet ''Access-Control-Allow-Credentials'' ''true'',
      HeaderSet ''Access-Control-Allow-Methods'' ''GET, POST, PUT, PATCH, DELETE, OPTIONS'',
      HeaderSet ''Access-Control-Allow-Headers'' ''Authorization, Content-Type, X-Request-Id'',
      HeaderSet ''Access-Control-Max-Age'' ''600'']"

definition cors_allowed :: "(string \<Rightarrow> string) \<Rightarrow> string list \<Rightarrow> string \<Rightarrow> bool" where
  "cors_allowed uni allowedOrigins origin \<longleftrightarrow>
     origin \<noteq> '''' \<and> allowedOrigins \<noteq> [] \<and>
     (allowedOrigins = [''*''] \<or> ToLower uni origin \<in> set (map (ToLower uni) allowedOrigins))"

definition CORS :: "(string \<Rightarrow> string) \<Rightarrow> string list \<Rightarrow> 's handler \<Rightarrow> 's handler" where
  "CORS uni allowedOrigins next r s =
     (let origin = Header_Get r ''Origin'';
          hs = (if cors_allowed uni allowedOrigins origin then cors_headers origin else [])
      in if rqMethod r = ''OPTIONS'' then returns r (hs @ [WriteHeader 204]) s
         else before_next hs (next r s))"

definition SecurityHeaders :: "'s handler \<Rightarrow> 's handler" where
  "SecurityHeaders next r s =
     before_next
       [HeaderSet ''X-Content-Type-Options'' ''nosniff'', HeaderSet ''X-Frame-Options'' ''DENY'',
        HeaderSet ''Referrer-Policy'' ''no-referrer'', HeaderSet ''Cache-Control'' ''no-store'']
       (next r s)"

lemmas middleware_defs [go_defs] =
  Logger_def Recoverer_def BodyLimit_def CORS_def SecurityHeaders_def before_next_def on_copy_def returns_def

section \<open>Middleware that passes requests on\<close>

text \<open>
  \<open>obeys P h\<close>: whatever the request, the state \<open>h\<close> leaves is one that \<open>P\<close> allows.  A policy that
  looks at the headers only, and allows no change at all, survives every middleware that either
  answers by itself or hands the request on with its headers.
\<close>

definition obeys :: "(request \<Rightarrow> 's \<Rightarrow> 's \<Rightarrow> bool) \<Rightarrow> 's handler \<Rightarrow> bool" where
  "obeys P h \<longleftrightarrow> (\<forall>r s. P r s (oState (h r s)))"

definition by_header :: "(request \<Rightarrow> 's \<Rightarrow> 's \<Rightarrow> bool) \<Rightarrow> bool" where
  "by_header P \<longleftrightarrow>
     (\<forall>r s. P r s s) \<and> (\<forall>r r' s s'. rqHeader r' = rqHeader r \<longrightarrow> P r s s' \<longrightarrow> P r' s s')"

lemma by_headerD:
  assumes "by_header P"
  shows "P r s s" and "rqHeader r' = rqHeader r \<Longrightarrow> P r s s' \<Longrightarrow> P r' s s'"
  using assms unfolding by_header_def by blast+

lemma obeysD: "obeys P h \<Longrightarrow> P r s (oState (h r s))"
  by (simp add: obeys_def)

locale passing_middleware =
  fixes mw :: "'s handler \<Rightarrow> 's handler"
  assumes passes: "oState (mw next r s) = s \<or> (\<exists>r'. rqHeader r' = rqHeader r \<and> oState (mw next r s) = oState (next r' s))"
begin

lemma keeps:
  assumes "by_header P" and "obeys P next"
  shows "obeys P (mw next)"
  unfolding obeys_def
proof (intro allI)
  fix r s
  show "P r s (oState (mw next r s))"
    using passes[of "next" r s] by_headerD[OF assms(1)] obeysD[OF assms(2), of _ s] by metis
qed

end

lemma passing_id: "passing_middleware (\<lambda>next. next)"
  by unfold_locales auto

interpretation logger: passing_middleware "Logger lat" for lat
  by unfold_locales (auto simp: Logger_def Let_def split: prod.splits)

interpretation recoverer: passing_middleware "Recoverer enc" for enc
  by unfold_locales (auto simp: Recoverer_def Let_def split: option.splits)

interpretation security: passing_middleware SecurityHeaders
  by unfold_locales (auto simp: SecurityHeaders_def before_next_def)

interpretation cors: passing_middleware "CORS uni origins" for uni origins
  by unfold_locales (auto simp: CORS_def before_next_def returns_def Let_def)

interpretation body_limit: passing_middleware "BodyLimit n" for n
proof unfold_locales
  fix "next" :: "'s handler" and r s
  show "oState (BodyLimit n next r s) = s \<or> (\<exists>r'. rqHeader r' = rqHeader r \<and> oState (BodyLimit n next r s) = oState (next r' s))"
    by (rule disjI2, rule exI[of _ "r\<lparr>rqBody := map_option (MaxBytesReader n) (rqBody r)\<rparr>"])
      (simp add: BodyLimit_def)
qed

section \<open>Middleware that logs no requests\<close>

text \<open>
  A handler is lineless when it writes no request line, whatever else it logs.  Around a lineless
  handler, middleware that adds no such line leaves the writing of it to one \<^verbatim>\<open>Logger\<close>.
\<close>

definition lineless :: "'s handler \<Rightarrow> bool" where
  "lineless h \<longleftrightarrow> (\<forall>r s line. HttpRequest line \<notin> set (oLog (h r s)))"

lemma linelessD: "lineless h \<Longrightarrow> HttpRequest line \<notin> set (oLog (h r s))"
  by (simp add: lineless_def)

locale lineless_middleware =
  fixes mw :: "'s handler \<Rightarrow> 's handler"
  assumes adds_no_line: "lineless next \<Longrightarrow> lineless (mw next)"
begin

lemma one_line:
  assumes "lineless next" and "rqPath (oReq (mw next r s)) \<notin> {''/health'', ''/ready''}"
  shows "\<exists>lines line. oLog (Logger lat (mw next) r s) = lines @ [HttpRequest line] \<and> (\<forall>l. HttpRequest l \<notin> set lines)"
  using assms(2) linelessD[OF adds_no_line[OF assms(1)], of _ r s] by (auto simp: Logger_def Let_def split: prod.splits)

end

lemma lineless_middleware_id: "lineless_middleware (\<lambda>next. next)"
  by (simp add: lineless_middleware_def)

interpretation recoverer_log: lineless_middleware "Recoverer enc" for enc
  by unfold_locales (auto simp: lineless_def Recoverer_def Let_def split: option.splits)

interpretation security_log: lineless_middleware SecurityHeaders
  by unfold_locales (simp add: lineless_def SecurityHeaders_def before_next_def)

interpretation cors_log: lineless_middleware "CORS uni origins" for uni origins
  by unfold_locales (simp add: lineless_def CORS_def before_next_def returns_def Let_def)

interpretation body_limit_log: lineless_middleware "BodyLimit n" for n
  by unfold_locales (simp add: lineless_def BodyLimit_def)

interpretation on_copy_log: lineless_middleware "on_copy f" for f
  by unfold_locales (simp add: lineless_def on_copy_def)

section \<open>What the wrapper sends and records\<close>

text \<open>
  \<open>rw_sees rw c\<close>: the wrapper agrees with the connection on whether a status was sent, which one,
  and how many bytes of body.
\<close>

definition rw_sees :: "responseWriter \<Rightarrow> conn \<Rightarrow> bool" where
  "rw_sees rw c \<longleftrightarrow>
     rwWroteHeader rw = (cSent c \<noteq> None) \<and>
     rwStatus rw = (case cSent c of Some (code, _) \<Rightarrow> code | None \<Rightarrow> 200) \<and>
     rwBytes rw = length (cBody c)"

lemma rw_call_sees:
  assumes "rw_call call rw = (rw', out)" and "rw_sees rw c"
  shows "foldl conn_call c out = conn_call c call \<and> rw_sees rw' (conn_call c call)"
  using assms
  by (cases call)
    (auto simp: rw_sees_def rw_WriteHeader_def rw_Write_def send_status_def Let_def split: if_splits)

lemma rw_calls_sees:
  assumes "rw_calls cs rw = (rw', out)" and "rw_sees rw c"
  shows "foldl conn_call c out = foldl conn_call c cs \<and> rw_sees rw' (foldl conn_call c cs)"
  using assms
proof (induction cs arbitrary: rw c out)
  case (Cons call cs)
  obtain rw1 out1 where one: "rw_call call rw = (rw1, out1)" by (cases "rw_call call rw")
  obtain out2 where rest: "rw_calls cs rw1 = (rw', out2)" "out = out1 @ out2"
    using Cons.prems(1) one by (auto split: prod.splits)
  have "foldl conn_call c out1 = conn_call c call" "rw_sees rw1 (conn_call c call)"
    using rw_call_sees[OF one Cons.prems(2)] by auto
  with Cons.IH[OF rest(1)] show ?case by (simp add: rest(2))
qed simp

lemma rw_new_sees: "rw_sees \<lparr>rwStatus = 200, rwWroteHeader = False, rwBytes = 0\<rparr> new_conn"
  by (simp add: rw_sees_def new_conn_def)

lemma rw_sees_finish:
  "rw_sees rw c \<Longrightarrow> rwStatus rw = (case cSent (send_status 200 c) of Some (code, _) \<Rightarrow> code | None \<Rightarrow> 200)
    \<and> rwBytes rw = length (cBody (send_status 200 c))"
  by (auto simp: rw_sees_def send_status_def split: option.splits)

lemma rw_calls_finish:
  assumes "rw_calls cs \<lparr>rwStatus = 200, rwWroteHeader = False, rwBytes = 0\<rparr> = (rw, out)"
  shows "finish out = finish cs \<and> rwStatus rw = sent_status cs \<and> rwBytes rw = length (cBody (finish cs))"
  using rw_calls_sees[OF assms rw_new_sees] rw_sees_finish[of rw "foldl conn_call new_conn cs"]
  by (simp add: finish_def sent_status_def)

text \<open>After a status has been sent, further calls change neither it nor the headers sent.\<close>

lemma conn_sent_stays: "cSent c = Some x \<Longrightarrow> cSent (foldl conn_call c cs) = Some x"
proof (induction cs arbitrary: c)
  case (Cons call cs)
  have "cSent (conn_call c call) = Some x" using Cons.prems by (cases call) (simp_all add: send_status_def)
  then show ?case using Cons.IH by simp
qed simp

lemma finish_append_sent:
  assumes "cSent (foldl conn_call new_conn cs) = Some x"
  shows "cSent (finish (cs @ ds)) = Some x"
  using conn_sent_stays[OF assms, of ds] by (simp add: finish_def send_status_def)

definition nothing_sent :: "call list \<Rightarrow> bool" where
  "nothing_sent cs \<longleftrightarrow> cSent (foldl conn_call new_conn cs) = None"

lemma nothing_sent_iff: "nothing_sent cs \<longleftrightarrow> list_all (\<lambda>c. \<exists>k v. c = HeaderSet k v) cs"
proof (induction cs rule: rev_induct)
  case (snoc c cs)
  then show ?case
    by (cases c) (auto simp: nothing_sent_def send_status_def)
qed (simp add: nothing_sent_def new_conn_def)

lemma sent_status_respond:
  "nothing_sent cs \<Longrightarrow> sent_status (cs @ respond enc rs) = rsStatus rs"
  by (simp add: sent_status_def finish_def respond_def nothing_sent_def send_status_def)

lemma sent_status_kept:
  "\<not> nothing_sent cs \<Longrightarrow> sent_status (cs @ ds) = sent_status cs"
  using finish_append_sent[of cs _ ds] finish_append_sent[of cs _ "[]"]
  by (auto simp: sent_status_def nothing_sent_def)

text \<open>
  C34. The wrapper of \<^verbatim>\<open>Logger\<close> is transparent and truthful: what reaches the client, the panic and
  the state are those of the handler without the logger, and the line logged for a request
  other than a probe carries the status that was sent and the length of the body.
\<close>

theorem Logger_transparent:
  assumes "rqPath (oReq (next r s)) \<notin> {''/health'', ''/ready''}"
  shows "finish (oCalls (Logger lat next r s)) = finish (oCalls (next r s))
    \<and> oPanic (Logger lat next r s) = oPanic (next r s)
    \<and> oState (Logger lat next r s) = oState (next r s)
    \<and> (\<exists>line. oLog (Logger lat next r s) = oLog (next r s) @ [HttpRequest line]
         \<and> lgStatus line = sent_status (oCalls (next r s))
         \<and> lgBytes line = length (cBody (finish (oCalls (next r s))))
         \<and> lgRemoteAddr line = rqRemoteAddr (oReq (next r s)))"
proof -
  obtain rw out where rw: "rw_calls (oCalls (next r s)) \<lparr>rwStatus = 200, rwWroteHeader = False, rwBytes = 0\<rparr> = (rw, out)"
    by (rule prod.exhaust)
  note rw_calls_finish[OF rw]
  then show ?thesis using assms by (simp add: Logger_def rw Let_def)
qed

definition demo_http :: request where
  "demo_http = \<lparr>rqMethod = ''POST'', rqPath = ''/events'', rqHeader = (\<lambda>_. []), rqRemoteAddr = ''198.51.100.9:5555'',
     rqBody = None, rqParam = (\<lambda>_. ''''), rqUserID = None, rqRole = None, rqReqID = ''''\<rparr>"

definition demo_twice :: "nat handler" where
  "demo_twice r s = returns r [WriteHeader 201, Write ''ok'', WriteHeader 500] (s + 1)"

theorem Logger_transparent_witness:
  "\<exists>line. oLog (Logger 7 demo_twice demo_http 0) = [HttpRequest line] \<and> lgStatus line = 201 \<and> lgBytes line = 2"
proof -
  have path: "rqPath (oReq (demo_twice demo_http 0)) \<notin> {''/health'', ''/ready''}"
    by (simp add: demo_twice_def returns_def demo_http_def)
  have "sent_status [WriteHeader 201, Write ''ok'', WriteHeader 500] = 201"
    "cBody (finish [WriteHeader 201, Write ''ok'', WriteHeader 500]) = ''ok''"
    by (simp_all add: sent_status_def finish_def send_status_def new_conn_def)
  with Logger_transparent[of demo_twice demo_http 0 7, OF path] show ?thesis
    by (auto simp: demo_twice_def returns_def)
qed

text \<open>
  Panics stop at \<^verbatim>\<open>Recoverer\<close>: no handler's panic leaves it, the state the handler had reached
  stays, and the client gets a 500 envelope unless a status had been sent before the panic,
  which then stands.
\<close>

theorem Recoverer_recovers:
  assumes "oPanic (next r s) = Some (PanicValue v)"
  shows "oPanic (Recoverer enc next r s) = None
    \<and> oState (Recoverer enc next r s) = oState (next r s)
    \<and> sent_status (oCalls (Recoverer enc next r s))
        = (if nothing_sent (oCalls (next r s)) then 500 else sent_status (oCalls (next r s)))"
  using assms sent_status_respond[of "oCalls (next r s)" enc "Internal ''internal server error''"]
    sent_status_kept[of "oCalls (next r s)"]
  by (simp add: Recoverer_def response_defs Let_def)

definition demo_panics :: "call list \<Rightarrow> nat handler" where
  "demo_panics cs r s = (returns r cs (s + 1))\<lparr>oPanic := Some (PanicValue ''nil map'')\<rparr>"

theorem Recoverer_recovers_witness:
  "sent_status (oCalls (Recoverer rsError (demo_panics [HeaderSet ''Vary'' ''Origin'']) demo_http 0)) = 500
   \<and> sent_status (oCalls (Recoverer rsError (demo_panics [WriteHeader 204]) demo_http 0)) = 204"
  using Recoverer_recovers[of "demo_panics [HeaderSet ''Vary'' ''Origin'']" demo_http 0 "''nil map''" rsError]
    Recoverer_recovers[of "demo_panics [WriteHeader 204]" demo_http 0 "''nil map''" rsError]
  by (simp add: demo_panics_def returns_def nothing_sent_def new_conn_def send_status_def sent_status_def finish_def)

end
