(* ===== verification/Auth_Token.thy ===== *)
theory Auth_Token
  imports Http_Server
begin

text \<open>
  internal/middleware/auth.go: the tokens the server issues and the two middlewares that check
  them.  The JWT library is a parameter; \<open>jwt_ok\<close> states what its documentation promises.  Shown
  here: a token just issued is accepted until it expires and carries its user and role, and
  nothing behind the middlewares runs without a token that verifies under the server's secret.
\<close>

record Claims =
  clUserID :: int
  clRole :: string
  clExpiresAt :: instant
  clIssuedAt :: instant
  clNotBefore :: instant
  clIssuer :: string
  clSubject :: string

text \<open>Signing methods: the HMAC family by name, and every other.\<close>

datatype jwt_method = SigningMethodHMAC string | OtherMethod string

definition SigningMethodHS256 :: jwt_method where
  "SigningMethodHS256 = SigningMethodHMAC ''HS256''"

fun Alg :: "jwt_method \<Rightarrow> string" where
  "Alg (SigningMethodHMAC a) = a"
| "Alg (OtherMethod a) = a"

definition jwt_ErrSignatureInvalid :: error where
  "jwt_ErrSignatureInvalid = New ''jwt.ErrSignatureInvalid'' ''signature is invalid''"

text \<open>
  The library: \<^verbatim>\<open>NewNumericDate\<close>; \<^verbatim>\<open>NewWithClaims(m, c).SignedString(key)\<close>; \<^verbatim>\<open>ParseWithClaims\<close> at an
  instant, with the valid methods, the issuer and the key function, giving the claims and
  \<^verbatim>\<open>token.Valid\<close>; the claims in the payload of a token; whether its signature verifies under a
  method and a key.
\<close>

record jwt_lib =
  jwNumericDate :: "instant \<Rightarrow> instant"
  jwSign :: "jwt_method \<Rightarrow> Claims \<Rightarrow> string \<Rightarrow> error + string"
  jwParse :: "instant \<Rightarrow> string list \<Rightarrow> string \<Rightarrow> (jwt_method \<Rightarrow> error + string) \<Rightarrow> string \<Rightarrow> error + (Claims \<times> bool)"
  jwClaims :: "string \<Rightarrow> Claims option"
  jwVerifies :: "jwt_method \<Rightarrow> string \<Rightarrow> string \<Rightarrow> bool"

text \<open>
  What the library documents: a numeric date is the instant cut to the precision of the payload; a
  claim set whose dates have that precision can be signed, and is read back from its token while
  the token is valid; what is read from a token as valid is the claim set of its payload, from the
  expected issuer, under a method that was allowed and the key for it.
\<close>

definition numeric_dates :: "jwt_lib \<Rightarrow> Claims \<Rightarrow> bool" where
  "numeric_dates lib c \<longleftrightarrow> (\<forall>t \<in> {clExpiresAt c, clIssuedAt c, clNotBefore c}. jwNumericDate lib t = t)"

definition jwt_ok :: "jwt_lib \<Rightarrow> bool" where
  "jwt_ok lib \<longleftrightarrow>
     (\<forall>t. jwNumericDate lib t \<le> t \<and> jwNumericDate lib (jwNumericDate lib t) = jwNumericDate lib t) \<and>
     (\<forall>c k. \<exists>s. jwSign lib SigningMethodHS256 c k = Inr s \<and> s \<noteq> '''') \<and>
     (\<forall>c k s now ms iss kf.
        jwSign lib SigningMethodHS256 c k = Inr s \<and> numeric_dates lib c \<and>
        kf SigningMethodHS256 = Inr k \<and> ''HS256'' \<in> set ms \<and>
        clIssuer c = iss \<and> clNotBefore c \<le> now \<and> now < clExpiresAt c
        \<longrightarrow> jwParse lib now ms iss kf s = Inr (c, True)) \<and>
     (\<forall>c s now ms iss kf.
        jwParse lib now ms iss kf s = Inr (c, True)
        \<longrightarrow> jwClaims lib s = Some c \<and> clIssuer c = iss
          \<and> (\<exists>m k. Alg m \<in> set ms \<and> kf m = Inr k \<and> jwVerifies lib m k s))"

lemma jwt_ok_date: "jwt_ok lib \<Longrightarrow> jwNumericDate lib t \<le> t"
  by (simp add: jwt_ok_def)

lemma jwt_ok_numeric: "jwt_ok lib \<Longrightarrow> jwNumericDate lib (jwNumericDate lib t) = jwNumericDate lib t"
  by (simp add: jwt_ok_def)

lemma jwt_ok_sign: "jwt_ok lib \<Longrightarrow> \<exists>s. jwSign lib SigningMethodHS256 c k = Inr s \<and> s \<noteq> ''''"
  by (simp add: jwt_ok_def)

lemma jwt_ok_accepts:
  assumes "jwt_ok lib" "jwSign lib SigningMethodHS256 c k = Inr s" "numeric_dates lib c" "kf SigningMethodHS256 = Inr k"
    and "''HS256'' \<in> set ms" "clNotBefore c \<le> now" "now < clExpiresAt c"
  shows "jwParse lib now ms (clIssuer c) kf s = Inr (c, True)"
  using assms unfolding jwt_ok_def by blast

lemma jwt_ok_sound:
  assumes "jwt_ok lib" "jwParse lib now ms iss kf s = Inr (c, True)"
  shows "jwClaims lib s = Some c" and "clIssuer c = iss" and "\<exists>m k. Alg m \<in> set ms \<and> kf m = Inr k \<and> jwVerifies lib m k s"
  using assms unfolding jwt_ok_def by blast+

section \<open>Issuing and checking\<close>

definition subjectFromUserID :: "int \<Rightarrow> string" where
  "subjectFromUserID i = ''user:'' @ FormatInt i"

definition GenerateToken :: "jwt_lib \<Rightarrow> instant \<Rightarrow> int \<Rightarrow> string \<Rightarrow> string \<Rightarrow> duration \<Rightarrow> error + string" where
  "GenerateToken lib now userID role secret expiry =
     jwSign lib SigningMethodHS256
       \<lparr>clUserID = userID, clRole = role,
        clExpiresAt = jwNumericDate lib (now + expiry), clIssuedAt = jwNumericDate lib now,
        clNotBefore = jwNumericDate lib now, clIssuer = ''lottery-system'',
        clSubject = subjectFromUserID userID\<rparr> secret"

definition keyFunc :: "string \<Rightarrow> jwt_method \<Rightarrow> error + string" where
  "keyFunc secret m =
     (case m of SigningMethodHMAC _ \<Rightarrow> Inr secret | OtherMethod _ \<Rightarrow> Inl jwt_ErrSignatureInvalid)"

definition set_principal :: "Claims \<Rightarrow> request \<Rightarrow> request" where
  "set_principal c r = r\<lparr>rqUserID := Some (clUserID c), rqRole := Some (clRole c)\<rparr>"

definition unauthorized :: "(unit response \<Rightarrow> string) \<Rightarrow> string \<Rightarrow> 's handler" where
  "unauthorized enc msg r s = returns r (respond enc (Unauthorized msg)) s"

definition Authenticate ::
  "jwt_lib \<Rightarrow> (unit response \<Rightarrow> string) \<Rightarrow> instant \<Rightarrow> string \<Rightarrow> 's handler \<Rightarrow> 's handler" where
  "Authenticate lib enc now secret next r s =
     (let authHeader = Header_Get r ''Authorization'' in
      if authHeader = '''' then unauthorized enc ''missing Authorization header'' r s
      else
        let parts = SplitN2 CHR '' '' authHeader in
        if length parts \<noteq> 2 \<or> \<not> EqualFold (parts ! 0) ''bearer'' \<or> parts ! 1 = ''''
        then unauthorized enc ''malformed Authorization header'' r s
        else case jwParse lib now [''HS256''] ''lottery-system'' (keyFunc secret) (parts ! 1) of
          Inl err \<Rightarrow> unauthorized enc ''invalid or expired token'' r s
        | Inr (claims, valid) \<Rightarrow>
            if \<not> valid then unauthorized enc ''invalid or expired token'' r s
            else on_copy (set_principal claims) next r s)"

definition RequireAdmin :: "(unit response \<Rightarrow> string) \<Rightarrow> 's handler \<Rightarrow> 's handler" where
  "RequireAdmin enc next r s =
     (if rqRole r = Some ''admin'' then next r s
      else returns r (respond enc (Forbidden ''forbidden: admin only'')) s)"

definition GetUserID :: "request \<Rightarrow> int option" where "GetUserID r = rqUserID r"
definition GetRole :: "request \<Rightarrow> string option" where "GetRole r = rqRole r"

section \<open>What gets through\<close>

text \<open>The token of a request, when its header has the form the middleware asks for.\<close>

definition bearer_token :: "request \<Rightarrow> string option" where
  "bearer_token r =
     (case SplitN2 CHR '' '' (Header_Get r ''Authorization'') of
        [scheme, tok] \<Rightarrow> if EqualFold scheme ''bearer'' \<and> tok \<noteq> '''' then Some tok else None
      | _ \<Rightarrow> None)"

definition accepted :: "jwt_lib \<Rightarrow> instant \<Rightarrow> string \<Rightarrow> request \<Rightarrow> Claims option" where
  "accepted lib now secret r =
     (case bearer_token r of
        None \<Rightarrow> None
      | Some tok \<Rightarrow>
          (case jwParse lib now [''HS256''] ''lottery-system'' (keyFunc secret) tok of
             Inr (c, True) \<Rightarrow> Some c | _ \<Rightarrow> None))"

lemma SplitN2_cases: "SplitN2 sep s = [s] \<or> (\<exists>a b. SplitN2 sep s = [a, b])"
  by (simp add: SplitN2_def)

lemma SplitN2_Nil: "SplitN2 sep '''' = ['''']"
  by (simp add: SplitN2_def)

lemma Authenticate_accepted:
  "Authenticate lib enc now secret next r s =
     (case accepted lib now secret r of
        Some c \<Rightarrow> on_copy (set_principal c) next r s
      | None \<Rightarrow> unauthorized enc
          (if Header_Get r ''Authorization'' = '''' then ''missing Authorization header''
           else if bearer_token r = None then ''malformed Authorization header''
           else ''invalid or expired token'') r s)"
  using SplitN2_cases[of "CHR '' ''" "Header_Get r ''Authorization''"]
  by (auto simp: Authenticate_def accepted_def bearer_token_def SplitN2_Nil Let_def
      split: sum.splits bool.splits)

interpretation authenticate_log: lineless_middleware "Authenticate lib enc now secret" for lib enc now secret
  by unfold_locales
    (simp add: lineless_def Authenticate_accepted on_copy_def unauthorized_def returns_def split: option.splits)

interpretation require_admin_log: lineless_middleware "RequireAdmin enc" for enc
  by unfold_locales (simp add: lineless_def RequireAdmin_def returns_def)

lemma SplitN2_first: "sep \<notin> set a \<Longrightarrow> SplitN2 sep (a @ sep # b) = [a, b]"
  by (simp add: SplitN2_def takeWhile_append dropWhile_append)

lemma bearer_token_bearer:
  assumes "Header_Get r ''Authorization'' = ''Bearer '' @ tok" and "tok \<noteq> ''''"
  shows "bearer_token r = Some tok"
proof -
  have "SplitN2 CHR '' '' (''Bearer'' @ CHR '' '' # tok) = [''Bearer'', tok]"
    by (rule SplitN2_first) simp
  moreover have "EqualFold ''Bearer'' ''bearer''"
    by (simp add: EqualFold_def lower_char_def is_upper_def) code_simp
  ultimately show ?thesis using assms by (simp add: bearer_token_def)
qed

lemma accepted_verifies:
  assumes "jwt_ok lib" and "accepted lib now secret r = Some c"
  shows "\<exists>tok. bearer_token r = Some tok \<and> jwClaims lib tok = Some c
    \<and> jwVerifies lib SigningMethodHS256 secret tok \<and> clIssuer c = ''lottery-system''"
proof -
  obtain tok where tok: "bearer_token r = Some tok"
    "jwParse lib now [''HS256''] ''lottery-system'' (keyFunc secret) tok = Inr (c, True)"
    using assms(2) by (auto simp: accepted_def split: option.splits sum.splits bool.splits prod.splits)
  then obtain m k where "Alg m = ''HS256''" "keyFunc secret m = Inr k" "jwVerifies lib m k tok"
    and c: "jwClaims lib tok = Some c" "clIssuer c = ''lottery-system''"
    using jwt_ok_sound[OF assms(1) tok(2)] by auto
  then have "m = SigningMethodHS256" "k = secret"
    by (cases m; simp add: keyFunc_def SigningMethodHS256_def)+
  with \<open>jwVerifies lib m k tok\<close> tok(1) c show ?thesis by blast
qed

text \<open>
  C10. Behind both middlewares a handler runs only for an administrator: whatever the headers of a
  request, either it is answered 401 or 403 with the state untouched, or its bearer token
  verifies under the server's own secret with HS256, the claims in that token name this system
  as the issuer and the role admin, and the handler sees the user and the role of those claims.
\<close>

theorem admin_gate:
  assumes "jwt_ok lib"
  shows "(\<exists>rs. rsStatus rs \<in> {401, 403} \<and>
            Authenticate lib enc now secret (RequireAdmin enc next) r s = returns r (respond enc rs) s)
    \<or> (\<exists>tok c. bearer_token r = Some tok \<and> jwVerifies lib SigningMethodHS256 secret tok
         \<and> jwClaims lib tok = Some c \<and> clIssuer c = ''lottery-system'' \<and> clRole c = ''admin''
         \<and> Authenticate lib enc now secret (RequireAdmin enc next) r s
             = (next (r\<lparr>rqUserID := Some (clUserID c), rqRole := Some ''admin''\<rparr>) s)\<lparr>oReq := r\<rparr>)"
proof (cases "accepted lib now secret r")
  case None
  then obtain msg where "Authenticate lib enc now secret (RequireAdmin enc next) r s
      = returns r (respond enc (Unauthorized msg)) s"
    by (simp add: Authenticate_accepted unauthorized_def)
  then show ?thesis by (intro disjI1 exI[of _ "Unauthorized msg"]) (simp add: Unauthorized_def Respond_def)
next
  case (Some c)
  then have run: "Authenticate lib enc now secret (RequireAdmin enc next) r s
      = on_copy (set_principal c) (RequireAdmin enc next) r s"
    by (simp add: Authenticate_accepted)
  show ?thesis
  proof (cases "clRole c = ''admin''")
    case True
    with run accepted_verifies[OF assms Some] show ?thesis
      by (auto simp: on_copy_def RequireAdmin_def set_principal_def)
  next
    case False
    then have "on_copy (set_principal c) (RequireAdmin enc next) r s
        = returns r (respond enc (Forbidden ''forbidden: admin only'')) s"
      by (simp add: on_copy_def RequireAdmin_def set_principal_def returns_def)
    with run show ?thesis
      by (intro disjI1 exI[of _ "Forbidden ''forbidden: admin only''"]) (simp add: Forbidden_def Respond_def)
  qed
qed

text \<open>
  C19. A token is good until it expires: a request that carries a token from \<^verbatim>\<open>GenerateToken\<close> as its
  bearer token reaches the handler, with the user and the role the token was issued for, at
  every instant from its issue until its expiry date.
\<close>

theorem token_roundtrip:
  assumes "jwt_ok lib" and "GenerateToken lib issued uid role secret expiry = Inr tok"
    and "Header_Get r ''Authorization'' = ''Bearer '' @ tok"
    and "issued \<le> now" and "now < jwNumericDate lib (issued + expiry)"
  shows "Authenticate lib enc now secret next r s
    = (next (r\<lparr>rqUserID := Some uid, rqRole := Some role\<rparr>) s)\<lparr>oReq := r\<rparr>"
proof -
  let ?c = "\<lparr>clUserID = uid, clRole = role, clExpiresAt = jwNumericDate lib (issued + expiry),
      clIssuedAt = jwNumericDate lib issued, clNotBefore = jwNumericDate lib issued,
      clIssuer = ''lottery-system'', clSubject = subjectFromUserID uid\<rparr>"
  have sign: "jwSign lib SigningMethodHS256 ?c secret = Inr tok"
    using assms(2) by (simp add: GenerateToken_def)
  with jwt_ok_sign[OF assms(1), of ?c secret] have "tok \<noteq> ''''" by auto
  then have "bearer_token r = Some tok" using assms(3) by (rule bearer_token_bearer[rotated])
  moreover have "jwNumericDate lib issued \<le> now"
    using jwt_ok_date[OF assms(1)] assms(4) by (rule order_trans)
  then have "jwParse lib now [''HS256''] ''lottery-system'' (keyFunc secret) tok = Inr (?c, True)"
    using jwt_ok_accepts[OF assms(1) sign, of "keyFunc secret" "[''HS256'']" now] assms(5)
    by (simp add: keyFunc_def SigningMethodHS256_def numeric_dates_def jwt_ok_numeric[OF assms(1)])
  ultimately have "accepted lib now secret r = Some ?c" by (simp add: accepted_def)
  then show ?thesis by (simp add: Authenticate_accepted on_copy_def set_principal_def)
qed

section \<open>A library that keeps the promises\<close>

text \<open>
  Tokens that list their fields, each with its characters escaped and a full stop at its end; the
  key stands in for the signature.
\<close>

definition put_field :: "string \<Rightarrow> string" where
  "put_field s = concat (map (\<lambda>c. [CHR ''x'', c]) s) @ ''.''"

fun take_field :: "string \<Rightarrow> string \<times> string" where
  "take_field (x # c # r) = (if x = CHR ''x'' then (let (s, t) = take_field r in (c # s, t)) else ('''', c # r))"
| "take_field _ = ('''', '''')"

fun fields :: "nat \<Rightarrow> string \<Rightarrow> string list" where
  "fields 0 s = []"
| "fields (Suc n) s = (let (a, r) = take_field s in a # fields n r)"

definition unformat :: "string \<Rightarrow> int" where
  "unformat s = (if take 1 s = ''-'' then - int (dec_val (tl s)) else int (dec_val s))"

definition demo_sign :: "jwt_method \<Rightarrow> Claims \<Rightarrow> string \<Rightarrow> error + string" where
  "demo_sign m c k = Inr (concat (map put_field
     [Alg m, FormatInt (clUserID c), clRole c, FormatInt (clExpiresAt c), FormatInt (clIssuedAt c),
      FormatInt (clNotBefore c), clIssuer c, clSubject c, k]))"

definition demo_verifies :: "jwt_method \<Rightarrow> string \<Rightarrow> string \<Rightarrow> bool" where
  "demo_verifies m k s \<longleftrightarrow> (let fs = fields 9 s in fs ! 0 = Alg m \<and> fs ! 8 = k)"

definition demo_claims :: "string \<Rightarrow> Claims" where
  "demo_claims s = (let fs = fields 9 s in
     \<lparr>clUserID = unformat (fs ! 1), clRole = fs ! 2, clExpiresAt = unformat (fs ! 3),
      clIssuedAt = unformat (fs ! 4), clNotBefore = unformat (fs ! 5), clIssuer = fs ! 6, clSubject = fs ! 7\<rparr>)"

definition demo_parse_token ::
  "instant \<Rightarrow> string list \<Rightarrow> string \<Rightarrow> (jwt_method \<Rightarrow> error + string) \<Rightarrow> string \<Rightarrow> error + (Claims \<times> bool)" where
  "demo_parse_token now ms iss kf s =
     (let m = SigningMethodHMAC (fields 9 s ! 0); c = demo_claims s in
      case kf m of
        Inl err \<Rightarrow> Inl err
      | Inr k \<Rightarrow>
          if Alg m \<in> set ms \<and> demo_verifies m k s \<and> clIssuer c = iss \<and> clNotBefore c \<le> now \<and> now < clExpiresAt c
          then Inr (c, True) else Inl jwt_ErrSignatureInvalid)"

definition demo_jwt :: jwt_lib where
  "demo_jwt = \<lparr>jwNumericDate = (\<lambda>t. t - t mod 1000000000), jwSign = demo_sign, jwParse = demo_parse_token,
     jwClaims = (\<lambda>s. Some (demo_claims s)), jwVerifies = demo_verifies\<rparr>"

lemma take_put_field: "take_field (put_field s @ r) = (s, r)"
proof (induction s)
  case Nil
  show ?case by (cases r) (simp_all add: put_field_def)
next
  case (Cons c s)
  then show ?case by (simp add: put_field_def)
qed

lemma fields_put: "fields (length xs) (concat (map put_field xs)) = xs"
proof (induction xs)
  case (Cons x xs)
  then show ?case by (simp add: take_put_field)
qed simp

lemma unformat_FormatInt [simp]: "unformat (FormatInt i) = i"
proof -
  have "take 1 (dec_nat n) \<noteq> ''-''" for n
    using dec_nat_no_minus[of n] dec_nat_not_Nil[of n] by (cases "dec_nat n") auto
  then show ?thesis by (simp add: unformat_def FormatInt_def)
qed

lemma demo_sign_fields:
  assumes "demo_sign m c k = Inr s"
  shows "fields 9 s = [Alg m, FormatInt (clUserID c), clRole c, FormatInt (clExpiresAt c), FormatInt (clIssuedAt c),
    FormatInt (clNotBefore c), clIssuer c, clSubject c, k]" and "s \<noteq> ''''"
proof -
  let ?fs = "[Alg m, FormatInt (clUserID c), clRole c, FormatInt (clExpiresAt c), FormatInt (clIssuedAt c),
    FormatInt (clNotBefore c), clIssuer c, clSubject c, k]"
  have "length ?fs = 9" by simp
  then show "fields 9 s = ?fs"
    using fields_put[of ?fs] assms unfolding demo_sign_def by (metis Inr_inject)
  show "s \<noteq> ''''" using assms by (auto simp: demo_sign_def put_field_def)
qed

lemma demo_jwt_ok: "jwt_ok demo_jwt"
proof -
  have "t - t mod 1000000000 \<le> t \<and> t - t mod 1000000000 - (t - t mod 1000000000) mod 1000000000 = t - t mod 1000000000"
    for t :: int by (simp add: mod_diff_left_eq[symmetric])
  moreover have "\<exists>s. demo_sign SigningMethodHS256 c k = Inr s \<and> s \<noteq> ''''" for c k
    using demo_sign_fields(2)[of SigningMethodHS256 c k] by (simp add: demo_sign_def)
  moreover have "demo_parse_token now ms (clIssuer c) kf s = Inr (c, True)"
    if "demo_sign SigningMethodHS256 c k = Inr s" "kf SigningMethodHS256 = Inr k" "''HS256'' \<in> set ms"
      "clNotBefore c \<le> now" "now < clExpiresAt c" for c k s now ms kf
    using demo_sign_fields(1)[OF that(1)] that(2-)
    by (simp add: demo_parse_token_def demo_claims_def demo_verifies_def SigningMethodHS256_def)
  moreover have "demo_claims s = c \<and> clIssuer c = iss \<and> (\<exists>m k. Alg m \<in> set ms \<and> kf m = Inr k \<and> demo_verifies m k s)"
    if "demo_parse_token now ms iss kf s = Inr (c, True)" for c s now ms iss kf
    using that
    by (auto simp: demo_parse_token_def Let_def split: sum.splits if_splits
        intro!: exI[of _ "SigningMethodHMAC (fields 9 s ! 0)"])
  ultimately show ?thesis unfolding jwt_ok_def demo_jwt_def by auto
qed

definition demo_bearer :: "string \<Rightarrow> request" where
  "demo_bearer tok = demo_http\<lparr>rqHeader := (\<lambda>_. [])(''Authorization'' := [''Bearer '' @ tok])\<rparr>"

lemma demo_bearer_header [simp]: "Header_Get (demo_bearer tok) ''Authorization'' = ''Bearer '' @ tok"
  by (simp add: Header_Get_def demo_bearer_def)

definition demo_whoami :: "(int option \<times> string option) handler" where
  "demo_whoami r s = returns r [] (rqUserID r, rqRole r)"

theorem token_roundtrip_witness:
  "\<exists>tok. GenerateToken demo_jwt 5000000000 7 ''user'' ''secret'' 60000000000 = Inr tok
     \<and> oState (Authenticate demo_jwt rsError 9000000000 ''secret'' demo_whoami (demo_bearer tok) (None, None)) = (Some 7, Some ''user'')"
proof -
  obtain tok where tok: "GenerateToken demo_jwt 5000000000 7 ''user'' ''secret'' 60000000000 = Inr tok"
    using jwt_ok_sign[OF demo_jwt_ok] by (auto simp: GenerateToken_def)
  have "Authenticate demo_jwt rsError 9000000000 ''secret'' demo_whoami (demo_bearer tok) (None, None)
    = (demo_whoami ((demo_bearer tok)\<lparr>rqUserID := Some 7, rqRole := Some ''user''\<rparr>) (None, None))\<lparr>oReq := demo_bearer tok\<rparr>"
    by (rule token_roundtrip[OF demo_jwt_ok tok]) (simp_all add: demo_jwt_def)
  with tok show ?thesis by (simp add: demo_whoami_def returns_def)
qed

lemma demo_admin_runs:
  assumes "GenerateToken demo_jwt 5000000000 7 ''admin'' ''secret'' 60000000000 = Inr tok"
  shows "bearer_token (demo_bearer tok) = Some tok"
    and "\<exists>c. accepted demo_jwt 9000000000 ''secret'' (demo_bearer tok) = Some c \<and> clUserID c = 7 \<and> clRole c = ''admin''"
proof -
  let ?c = "\<lparr>clUserID = 7, clRole = ''admin'', clExpiresAt = 65000000000, clIssuedAt = 5000000000, clNotBefore = 5000000000,
    clIssuer = ''lottery-system'', clSubject = subjectFromUserID 7\<rparr>"
  have sign: "jwSign demo_jwt SigningMethodHS256 ?c ''secret'' = Inr tok"
    using assms by (simp add: GenerateToken_def demo_jwt_def)
  with jwt_ok_sign[OF demo_jwt_ok, of ?c "''secret''"] have "tok \<noteq> ''''" by auto
  then show "bearer_token (demo_bearer tok) = Some tok" by (intro bearer_token_bearer) simp_all
  moreover have "numeric_dates demo_jwt ?c" by (simp add: numeric_dates_def demo_jwt_def)
  then have "jwParse demo_jwt 9000000000 [''HS256''] ''lottery-system'' (keyFunc ''secret'') tok = Inr (?c, True)"
    using jwt_ok_accepts[OF demo_jwt_ok sign, of "keyFunc ''secret''" "[''HS256'']" 9000000000]
    by (simp add: keyFunc_def SigningMethodHS256_def)
  ultimately show "\<exists>c. accepted demo_jwt 9000000000 ''secret'' (demo_bearer tok) = Some c \<and> clUserID c = 7 \<and> clRole c = ''admin''"
    by (simp add: accepted_def)
qed

theorem admin_gate_witness:
  "\<exists>tok c. bearer_token (demo_bearer tok) = Some tok \<and> jwClaims demo_jwt tok = Some c \<and> clRole c = ''admin''
     \<and> oState (Authenticate demo_jwt rsError 9000000000 ''secret'' (RequireAdmin rsError demo_whoami) (demo_bearer tok) (None, None))
       = (Some (clUserID c), Some ''admin'')"
proof -
  obtain tok where tok: "GenerateToken demo_jwt 5000000000 7 ''admin'' ''secret'' 60000000000 = Inr tok"
    using jwt_ok_sign[OF demo_jwt_ok] by (auto simp: GenerateToken_def)
  let ?run = "Authenticate demo_jwt rsError 9000000000 ''secret'' (RequireAdmin rsError demo_whoami) (demo_bearer tok) (None, None)"
  obtain c where "accepted demo_jwt 9000000000 ''secret'' (demo_bearer tok) = Some c" "clUserID c = 7" "clRole c = ''admin''"
    using demo_admin_runs(2)[OF tok] by blast
  then have "oState ?run = (Some 7, Some ''admin'')"
    by (simp add: Authenticate_accepted on_copy_def set_principal_def RequireAdmin_def demo_whoami_def returns_def)
  moreover have "oState (returns (demo_bearer tok) calls (None, None)) \<noteq> (Some (7 :: int), Some ''admin'')" for calls
    by (simp add: returns_def)
  ultimately obtain tok' c' where "bearer_token (demo_bearer tok) = Some tok'" "jwClaims demo_jwt tok' = Some c'"
    "clRole c' = ''admin''" "oState ?run = (Some (clUserID c'), Some ''admin'')"
    using admin_gate[OF demo_jwt_ok, of rsError 9000000000 "''secret''" demo_whoami "demo_bearer tok" "(None, None)"]
    by (auto simp: demo_whoami_def returns_def)
  moreover from this have "tok' = tok"
    using demo_admin_runs(1)[OF tok] by simp
  ultimately show ?thesis by blast
qed

end
