(* ===== verification/Go_Netip.thy ===== *)
theory Go_Netip
  imports Go_Strings
begin

text \<open>
  The parts of Go's \<^verbatim>\<open>net/netip\<close> and \<^verbatim>\<open>net\<close> packages the program uses: addresses and their text,
  prefixes and membership, \<^verbatim>\<open>net.SplitHostPort\<close>. An IPv4 address is its four bytes, an IPv6
  address its eight 16-bit groups and its zone (empty when it has none). Errors are \<open>None\<close>: the
  program only asks whether parsing succeeded.
\<close>

datatype Addr = V4 "nat list" | V6 "nat list" string

fun addr_ok :: "Addr \<Rightarrow> bool" where
  "addr_ok (V4 bs) \<longleftrightarrow> length bs = 4 \<and> (\<forall>b \<in> set bs. b < 256)"
| "addr_ok (V6 gs z) \<longleftrightarrow> length gs = 8 \<and> (\<forall>g \<in> set gs. g < 65536)"

section \<open>ParseAddr\<close>

text \<open>
  \<open>parseIPv4Fields v n fs s\<close>: the value and number of digits of the octet read so far, the
  finished octets, and the rest of the text.
\<close>

fun parseIPv4Fields :: "nat \<Rightarrow> nat \<Rightarrow> nat list \<Rightarrow> string \<Rightarrow> nat list option" where
  "parseIPv4Fields v n fs [] = (if length fs < 3 then None else Some (fs @ [v]))"
| "parseIPv4Fields v n fs (c # cs) =
     (if is_digit c then
        if n = 1 \<and> v = 0 then None
        else if 10 * v + digit_val c > 255 then None
        else parseIPv4Fields (10 * v + digit_val c) (Suc n) fs cs
      else if c = CHR ''.'' then
        if n = 0 \<or> cs = [] then None
        else if length fs = 3 then None
        else parseIPv4Fields 0 0 (fs @ [v]) cs
      else None)"

definition is_hex :: "char \<Rightarrow> bool" where
  "is_hex c \<longleftrightarrow> is_digit c \<or> (97 \<le> (of_char c :: nat) \<and> (of_char c :: nat) \<le> 102)
     \<or> (65 \<le> (of_char c :: nat) \<and> (of_char c :: nat) \<le> 70)"

definition hex_val :: "char \<Rightarrow> nat" where
  "hex_val c = (if is_digit c then digit_val c
     else if 97 \<le> (of_char c :: nat) then of_char c - 87 else of_char c - 55)"

definition hex_num :: "string \<Rightarrow> nat" where
  "hex_num s = foldl (\<lambda>n c. 16 * n + hex_val c) 0 s"

text \<open>
  The loop of \<^verbatim>\<open>parseIPv6\<close>: groups read, where the ellipsis stands among them, and the rest of
  the text; it ends with eight groups or at the end of the text.
\<close>

function parseIPv6_loop ::
  "nat list \<Rightarrow> nat option \<Rightarrow> string \<Rightarrow> (nat list \<times> nat option \<times> string) option" where
  "parseIPv6_loop g e s =
     (if length g \<ge> 8 then Some (g, e, s)
      else
        let h = takeWhile is_hex s; rest = dropWhile is_hex s in
        if length h > 4 \<or> h = [] then None
        else if rest \<noteq> [] \<and> hd rest = CHR ''.'' then
          if e = None \<and> length g \<noteq> 6 then None
          else if length g > 6 then None
          else (case parseIPv4Fields 0 0 [] s of
                  Some [a, b, c, d] \<Rightarrow> Some (g @ [256 * a + b, 256 * c + d], e, [])
                | _ \<Rightarrow> None)
        else
          let g' = g @ [hex_num h] in
          if rest = [] then Some (g', e, [])
          else if hd rest \<noteq> CHR '':'' \<or> tl rest = [] then None
          else if hd (tl rest) = CHR '':'' then
            if e \<noteq> None then None
            else if tl (tl rest) = [] then Some (g', Some (length g'), [])
            else parseIPv6_loop g' (Some (length g')) (tl (tl rest))
          else parseIPv6_loop g' e (tl rest))"
  by pat_completeness auto

termination parseIPv6_loop
  by (relation "measure (\<lambda>(g, e, s). 8 - length g)") auto

declare parseIPv6_loop.simps [simp del]

definition expand_ellipsis :: "nat list \<Rightarrow> nat option \<Rightarrow> nat list option" where
  "expand_ellipsis g e =
     (case e of
        None \<Rightarrow> if length g < 8 then None else Some g
      | Some k \<Rightarrow>
          if length g < 8 then Some (take k g @ replicate (8 - length g) 0 @ drop k g) else None)"

definition parseIPv6 :: "string \<Rightarrow> Addr option" where
  "parseIPv6 input =
     (let s = takeWhile (\<lambda>c. c \<noteq> CHR ''%'') input;
          zoned = CHR ''%'' \<in> set input;
          zone = tl (dropWhile (\<lambda>c. c \<noteq> CHR ''%'') input);
          lead = take 2 s = [CHR '':'', CHR '':'']
      in if zoned \<and> zone = '''' then None
         else if lead \<and> drop 2 s = '''' then Some (V6 (replicate 8 0) zone)
         else case parseIPv6_loop [] (if lead then Some 0 else None) (if lead then drop 2 s else s) of
           None \<Rightarrow> None
         | Some (g, e, rest) \<Rightarrow>
             if rest \<noteq> '''' then None else map_option (\<lambda>gs. V6 gs zone) (expand_ellipsis g e))"

text \<open>The first of the bytes ., : and % decides how the text is read.\<close>

fun addr_kind :: "string \<Rightarrow> char option" where
  "addr_kind [] = None"
| "addr_kind (c # cs) = (if c = CHR ''.'' \<or> c = CHR '':'' \<or> c = CHR ''%'' then Some c else addr_kind cs)"

definition ParseAddr :: "string \<Rightarrow> Addr option" where
  "ParseAddr s =
     (if addr_kind s = Some CHR ''.'' then map_option V4 (parseIPv4Fields 0 0 [] s)
      else if addr_kind s = Some CHR '':'' then parseIPv6 s
      else None)"

section \<open>Addr methods\<close>

fun Unmap :: "Addr \<Rightarrow> Addr" where
  "Unmap (V4 bs) = V4 bs"
| "Unmap (V6 gs z) =
     (if take 5 gs = replicate 5 0 \<and> gs ! 5 = 0xffff
      then V4 [gs ! 6 div 256, gs ! 6 mod 256, gs ! 7 div 256, gs ! 7 mod 256]
      else V6 gs z)"

fun BitLen :: "Addr \<Rightarrow> nat" where
  "BitLen (V4 bs) = 32"
| "BitLen (V6 gs z) = 128"

definition string4 :: "nat list \<Rightarrow> string" where
  "string4 bs = join CHR ''.'' (map dec_nat bs)"

fun hex_nat :: "nat \<Rightarrow> string" where
  "hex_nat n = (let d = ''0123456789abcdef'' ! (n mod 16) in if n < 16 then [d] else hex_nat (n div 16) @ [d])"

declare hex_nat.simps [simp del]

text \<open>The first longest run of at least two zero groups, as its start and length.\<close>

fun zero_run :: "nat \<Rightarrow> nat list \<Rightarrow> nat \<times> nat \<Rightarrow> nat \<times> nat" where
  "zero_run i [] best = best"
| "zero_run i (g # gs) best =
     (let l = length (takeWhile (\<lambda>x. x = 0) (g # gs)) in
      zero_run (Suc i) gs (if l \<ge> 2 \<and> l > snd best then (i, l) else best))"

definition string6 :: "nat list \<Rightarrow> string \<Rightarrow> string" where
  "string6 gs z =
     (let (i, l) = zero_run 0 gs (8, 0) in
      (if l = 0 then join CHR '':'' (map hex_nat gs)
       else join CHR '':'' (map hex_nat (take i gs)) @ ''::'' @ join CHR '':'' (map hex_nat (drop (i + l) gs)))
      @ (if z = '''' then '''' else CHR ''%'' # z))"

fun addr_String :: "Addr \<Rightarrow> string" where
  "addr_String (V4 bs) = string4 bs"
| "addr_String (V6 gs z) =
     (case Unmap (V6 gs z) of
        V4 bs \<Rightarrow> ''::ffff:'' @ string4 bs @ (if z = '''' then '''' else CHR ''%'' # z)
      | V6 _ _ \<Rightarrow> string6 gs z)"

section \<open>Prefixes\<close>

record Prefix =
  pfAddr :: Addr
  pfBits :: nat

text \<open>Fields of \<open>w\<close> bits agree on their first \<open>n\<close> bits.\<close>

fun same_bits :: "nat \<Rightarrow> nat \<Rightarrow> nat list \<Rightarrow> nat list \<Rightarrow> bool" where
  "same_bits w n (x # xs) (y # ys) \<longleftrightarrow>
     (if n < w then x div 2 ^ (w - n) = y div 2 ^ (w - n) else x = y \<and> same_bits w (n - w) xs ys)"
| "same_bits w n _ _ \<longleftrightarrow> True"

fun mask_bits :: "nat \<Rightarrow> nat \<Rightarrow> nat list \<Rightarrow> nat list" where
  "mask_bits w n [] = []"
| "mask_bits w n (x # xs) =
     (if n < w then x div 2 ^ (w - n) * 2 ^ (w - n) else x) # mask_bits w (n - w) xs"

definition Contains :: "Prefix \<Rightarrow> Addr \<Rightarrow> bool" where
  "Contains p a =
     (case (pfAddr p, a) of
        (V4 ps, V4 bs) \<Rightarrow> same_bits 8 (pfBits p) ps bs
      | (V6 ps _, V6 gs z) \<Rightarrow> z = '''' \<and> same_bits 16 (pfBits p) ps gs
      | _ \<Rightarrow> False)"

definition Masked :: "Prefix \<Rightarrow> Prefix" where
  "Masked p =
     p\<lparr>pfAddr := (case pfAddr p of
        V4 bs \<Rightarrow> V4 (mask_bits 8 (pfBits p) bs)
      | V6 gs z \<Rightarrow> V6 (mask_bits 16 (pfBits p) gs) '''')\<rparr>"

definition ParsePrefix :: "string \<Rightarrow> Prefix option" where
  "ParsePrefix s =
     (case split_last CHR ''/'' s of
        None \<Rightarrow> None
      | Some (addr, bitsStr) \<Rightarrow>
          (case ParseAddr addr of
             None \<Rightarrow> None
           | Some ip \<Rightarrow>
               if (case ip of V6 _ z \<Rightarrow> z \<noteq> '''' | V4 _ \<Rightarrow> False) then None
               else if length bitsStr > 1 \<and> (hd bitsStr = CHR ''0'' \<or> \<not> is_digit (hd bitsStr)) then None
               else (case Atoi bitsStr of
                  (n, Some _) \<Rightarrow> None
                | (n, None) \<Rightarrow>
                    if n < 0 \<or> n > int (BitLen ip) then None else Some \<lparr>pfAddr = ip, pfBits = nat n\<rparr>)))"

section \<open>net.SplitHostPort\<close>

text \<open>The host, when the text is host:port or [host]:port.\<close>

definition SplitHostPort :: "string \<Rightarrow> string option" where
  "SplitHostPort hostport =
     (case split_last CHR '':'' hostport of
        None \<Rightarrow> None
      | Some (front, port) \<Rightarrow>
          if take 1 hostport = ''['' then
            if CHR '']'' \<notin> set hostport then None
            else
              let close = length (takeWhile (\<lambda>c. c \<noteq> CHR '']'') hostport) in
              if close + 1 \<noteq> length front then None
              else if CHR ''['' \<in> set (drop 1 hostport) \<or> CHR '']'' \<in> set (drop (close + 1) hostport) then None
              else Some (take (close - 1) (drop 1 hostport))
          else if CHR '':'' \<in> set front then None
          else if CHR ''['' \<in> set hostport \<or> CHR '']'' \<in> set hostport then None
          else Some front)"

section \<open>Laws\<close>

text \<open>Printing an IPv4 address and parsing it back is the identity.\<close>

lemma digit_0: "digit 0 = CHR ''0''"
  by code_simp

lemma parseIPv4Fields_digits:
  assumes "\<forall>c \<in> set s. is_digit c" and "s \<noteq> []" and "hd s = CHR ''0'' \<longrightarrow> tl s = []"
    and "foldl (\<lambda>n c. 10 * n + digit_val c) 0 s \<le> 255"
  shows "\<exists>n > 0. parseIPv4Fields 0 0 fs (s @ rest)
     = parseIPv4Fields (foldl (\<lambda>n c. 10 * n + digit_val c) 0 s) n fs rest"
proof -
  have run: "\<exists>m \<ge> n. parseIPv4Fields v n fs (cs @ rest)
      = parseIPv4Fields (foldl (\<lambda>n c. 10 * n + digit_val c) v cs) m fs rest"
    if "\<forall>c \<in> set cs. is_digit c" "0 < v \<or> cs = []" "foldl (\<lambda>n c. 10 * n + digit_val c) v cs \<le> 255"
    for cs v n
    using that
  proof (induction cs arbitrary: v n)
    case (Cons c cs)
    have v: "10 * v + digit_val c \<le> 255" "0 < 10 * v + digit_val c"
      using dec_fold_mono[of "10 * v + digit_val c" cs] Cons.prems by auto
    then obtain m where "m \<ge> Suc n" "parseIPv4Fields (10 * v + digit_val c) (Suc n) fs (cs @ rest)
        = parseIPv4Fields (foldl (\<lambda>n c. 10 * n + digit_val c) (10 * v + digit_val c) cs) m fs rest"
      using Cons.IH[of "10 * v + digit_val c" "Suc n"] Cons.prems by auto
    with v Cons.prems show ?case by (auto intro!: exI[of _ m])
  qed auto
  obtain c cs where s: "s = c # cs" using assms(2) by (cases s) auto
  have "0 < digit_val c \<or> cs = []"
  proof (cases "digit_val c = 0")
    case True
    then have "c = CHR ''0''" using digit_digit_val[of c] assms(1) s digit_0 by simp
    with assms(3) s show ?thesis by simp
  qed simp
  moreover have "digit_val c \<le> 255" using dec_fold_mono[of "digit_val c" cs] assms(4) s by simp
  ultimately show ?thesis
    using run[of cs "digit_val c" "Suc 0"] assms(1,4) s by (auto intro: Suc_le_lessD)
qed

lemma dec_nat_head: "hd (dec_nat n) = CHR ''0'' \<Longrightarrow> tl (dec_nat n) = []"
proof (induction n rule: dec_nat.induct)
  case (1 n)
  show ?case
  proof (cases "n < 10")
    case False
    let ?m = "n div 10"
    have split: "dec_nat n = dec_nat ?m @ [digit (n mod 10)]" using False by (subst dec_nat.simps) simp
    then have hd: "hd (dec_nat ?m) = CHR ''0''" using "1.prems" by simp
    then have "tl (dec_nat ?m) = []" using "1.IH" False by blast
    with hd have "dec_nat ?m = ''0''"
      using dec_nat_not_Nil[of ?m] by (cases "dec_nat ?m") auto
    then have "?m = 0" using dec_val_dec_nat[of ?m] by (simp add: dec_val_def digit_val_def)
    with False show ?thesis by simp
  qed (subst dec_nat.simps, simp)
qed

lemma parseIPv4Fields_octet:
  "b < 256 \<Longrightarrow> \<exists>n > 0. parseIPv4Fields 0 0 fs (dec_nat b @ rest) = parseIPv4Fields b n fs rest"
  using parseIPv4Fields_digits[of "dec_nat b" fs rest] dec_nat_digits[of b] dec_nat_head[of b] dec_val_dec_nat[of b]
  by (auto simp: dec_val_def)

lemma dot_not_digit [simp]: "\<not> is_digit CHR ''.''"
  by (simp add: is_digit_def)

lemma parseIPv4Fields_dot:
  assumes "b < 256" and "length fs < 3" and "rest \<noteq> []"
  shows "parseIPv4Fields 0 0 fs (dec_nat b @ CHR ''.'' # rest) = parseIPv4Fields 0 0 (fs @ [b]) rest"
  using parseIPv4Fields_octet[OF assms(1), of fs "CHR ''.'' # rest"] assms(2,3) by auto

lemma addr_kind_digits: "\<forall>c \<in> set s. is_digit c \<Longrightarrow> addr_kind (s @ c # t) = addr_kind (c # t)"
  by (induction s) (auto simp: is_digit_def)

lemma ParseAddr_string4:
  assumes "addr_ok (V4 bs)"
  shows "ParseAddr (addr_String (V4 bs)) = Some (V4 bs)"
proof -
  obtain a b c d where bs: "bs = [a, b, c, d]" and lt: "a < 256" "b < 256" "c < 256" "d < 256"
    using assms by (auto simp: length_Suc_conv numeral_eq_Suc)
  have s: "addr_String (V4 bs) =
      dec_nat a @ CHR ''.'' # dec_nat b @ CHR ''.'' # dec_nat c @ CHR ''.'' # dec_nat d"
    by (simp add: bs string4_def)
  have "parseIPv4Fields 0 0 [] (addr_String (V4 bs)) = parseIPv4Fields 0 0 [a, b, c] (dec_nat d @ [])"
    unfolding s by (simp add: parseIPv4Fields_dot lt)
  also have "\<dots> = Some bs"
    using parseIPv4Fields_octet[OF lt(4), of "[a, b, c]" "[]"] by (auto simp: bs)
  finally have "parseIPv4Fields 0 0 [] (addr_String (V4 bs)) = Some bs" .
  moreover have "addr_kind (addr_String (V4 bs)) = Some CHR ''.''"
    unfolding s by (simp add: addr_kind_digits dec_nat_digits)
  ultimately show ?thesis by (simp add: ParseAddr_def del: addr_String.simps)
qed

text \<open>What is parsed is an address; unmapping keeps it one.\<close>

lemma parseIPv4Fields_ok:
  assumes "parseIPv4Fields v n fs s = Some bs" and "v < 256" and "\<forall>b \<in> set fs. b < 256" and "length fs \<le> 3"
  shows "addr_ok (V4 bs)"
  using assms
proof (induction v n fs s rule: parseIPv4Fields.induct)
  case (2 v n fs c cs)
  show ?case
  proof (cases "is_digit c")
    case True
    with "2.prems"(1) have rec: "\<not> (n = 1 \<and> v = 0)" "\<not> 255 < 10 * v + digit_val c"
      "parseIPv4Fields (10 * v + digit_val c) (Suc n) fs cs = Some bs"
      by (auto split: if_splits)
    show ?thesis by (rule "2.IH"(1)[OF True rec]) (use rec "2.prems" in auto)
  next
    case False
    with "2.prems"(1) have rec: "c = CHR ''.''" "\<not> (n = 0 \<or> cs = [])" "length fs \<noteq> 3"
      "parseIPv4Fields 0 0 (fs @ [v]) cs = Some bs"
      by (auto split: if_splits)
    show ?thesis by (rule "2.IH"(2)[OF False rec]) (use rec "2.prems" in auto)
  qed
qed (auto split: if_splits)

lemma Unmap_ok: "addr_ok a \<Longrightarrow> addr_ok (Unmap a)"
proof (cases a)
  case (V6 gs z)
  assume "addr_ok a"
  with V6 have "gs ! 6 < 65536" "gs ! 7 < 65536" by (auto intro!: nth_mem)
  then have "gs ! 6 div 256 < 256" "gs ! 7 div 256 < 256" by auto
  with V6 \<open>addr_ok a\<close> show ?thesis by auto
qed simp

text \<open>A prefix and its masked form have the same members.\<close>

lemma same_bits_mask: "same_bits w n (mask_bits w n ps) xs = same_bits w n ps xs"
  by (induction w n ps xs rule: same_bits.induct) auto

lemma Contains_Masked: "Contains (Masked p) a = Contains p a"
  by (auto simp: Contains_def Masked_def same_bits_mask split: Addr.splits)

lemma same_bits_refl: "same_bits w n xs xs"
  by (induction xs arbitrary: n) auto

text \<open>A host without colons and brackets is recovered from host:port.\<close>

lemma split_last_append: "c \<notin> set t \<Longrightarrow> split_last c (s @ c # t) = Some (s, t)"
  by (simp add: split_last_def takeWhile_append dropWhile_append)

lemma SplitHostPort_plain:
  assumes "set host \<inter> {CHR '':'', CHR ''['', CHR '']''} = {}" "set port \<inter> {CHR '':'', CHR ''['', CHR '']''} = {}"
  shows "SplitHostPort (host @ CHR '':'' # port) = Some host"
proof -
  have "take 1 (host @ CHR '':'' # port) \<noteq> ''[''" using assms by (cases host) auto
  moreover have "split_last CHR '':'' (host @ CHR '':'' # port) = Some (host, port)"
    using assms by (intro split_last_append) auto
  ultimately show ?thesis using assms by (auto simp: SplitHostPort_def)
qed

text \<open>Prefixes over all bits, and IPv4-in-IPv6 prefixes, which no unmapped address matches.\<close>

lemma same_bits_all: "length xs = length ys \<Longrightarrow> 0 < w \<Longrightarrow> same_bits w (w * length xs) xs ys \<longleftrightarrow> xs = ys"
  by (induction xs ys rule: list_induct2) auto

lemma same_bits_full:
  "length xs = 4 \<Longrightarrow> length ys = 4 \<Longrightarrow> same_bits 8 32 xs ys \<longleftrightarrow> xs = ys"
  "length xs = 8 \<Longrightarrow> length ys = 8 \<Longrightarrow> same_bits 16 128 xs ys \<longleftrightarrow> xs = ys"
  using same_bits_all[of xs ys 8] same_bits_all[of xs ys 16] by simp_all

lemma same_bits_take:
  "same_bits w n xs ys \<Longrightarrow> w * k \<le> n \<Longrightarrow> length xs = length ys \<Longrightarrow> take k xs = take k ys"
proof (induction w n xs ys arbitrary: k rule: same_bits.induct)
  case (1 w n x xs y ys)
  show ?case
  proof (cases k)
    case (Suc j)
    with "1.prems" have "x = y" "same_bits w (n - w) xs ys" "w * j \<le> n - w"
      by (auto split: if_splits)
    with "1.IH"[of j] "1.prems" Suc show ?thesis by auto
  qed simp
qed auto

lemma Contains_mapped:
  assumes "pfAddr p = V6 [0, 0, 0, 0, 0, 0xffff, g, h] z" and "96 \<le> pfBits p" and "addr_ok b"
  shows "\<not> Contains p (Unmap b)"
proof (cases "Unmap b")
  case (V6 ys y)
  then have b: "b = V6 ys y" "\<not> (take 5 ys = replicate 5 0 \<and> ys ! 5 = 0xffff)"
    by (cases b; auto split: if_splits)+
  have "take 6 ys \<noteq> [0, 0, 0, 0, 0, 0xffff]"
  proof
    assume six: "take 6 ys = [0, 0, 0, 0, 0, 0xffff]"
    have "take 5 (take 6 ys) = take 5 ys" "take 6 ys ! 5 = ys ! 5" by simp_all
    then have "take 5 ys = [0, 0, 0, 0, 0]" "ys ! 5 = 0xffff" unfolding six by simp_all
    moreover have "replicate 5 0 = [0, 0, 0, 0, 0 :: nat]" by (simp add: numeral_eq_Suc)
    ultimately show False using b(2) by simp
  qed
  then show ?thesis
    using same_bits_take[of 16 "pfBits p" "[0, 0, 0, 0, 0, 0xffff, g, h]" ys 6] assms b(1) V6
    by (auto simp: Contains_def)
qed (simp add: Contains_def assms(1))

lemma hex_num_bound:
  assumes "\<forall>c \<in> set s. is_hex c"
  shows "hex_num s < 16 ^ length s"
  using assms
proof (induction s rule: rev_induct)
  case (snoc c s)
  have "hex_val c < 16"
    using snoc.prems digit_val_less[of c] by (auto simp: is_hex_def hex_val_def)
  then show ?case using snoc by (simp add: hex_num_def)
qed (simp add: hex_num_def)

lemma hex_group:
  assumes "length (takeWhile is_hex s) \<le> 4"
  shows "hex_num (takeWhile is_hex s) < 65536"
proof -
  have "hex_num (takeWhile is_hex s) < 16 ^ length (takeWhile is_hex s)"
    by (rule hex_num_bound) (auto dest: set_takeWhileD)
  also have "\<dots> \<le> 16 ^ 4" using assms by (intro power_increasing) auto
  finally show ?thesis by simp
qed

definition groups_ok :: "nat list \<Rightarrow> nat option \<Rightarrow> bool" where
  "groups_ok g e \<longleftrightarrow> length g \<le> 8 \<and> (\<forall>x \<in> set g. x < 65536) \<and> (\<forall>k. e = Some k \<longrightarrow> k \<le> length g)"

lemma parseIPv6_loop_ok:
  assumes "parseIPv6_loop g e s = Some (g', e', r)" and "groups_ok g e"
  shows "groups_ok g' e'"
  using assms
proof (induction g e s rule: parseIPv6_loop.induct)
  case (1 g e s)
  let ?h = "takeWhile is_hex s" and ?rest = "dropWhile is_hex s"
  let ?g = "g @ [hex_num ?h]"
  show ?case
  proof (cases "length g \<ge> 8")
    case True
    with "1.prems" show ?thesis by (subst (asm) parseIPv6_loop.simps) simp
  next
    case False
    then have h: "length ?h \<le> 4" "?h \<noteq> []"
      using "1.prems"(1) by (auto simp: parseIPv6_loop.simps[of g e s] Let_def split: if_splits)
    then have ok: "groups_ok ?g e" "groups_ok ?g (Some (length ?g))"
      using False "1.prems"(2) hex_group[OF h(1)] by (auto simp: groups_ok_def)
    consider (v4) a b c d where "parseIPv4Fields 0 0 [] s = Some [a, b, c, d]" "length g \<le> 6"
        "g' = g @ [256 * a + b, 256 * c + d]" "e' = e"
      | (stop) "g' = ?g" "e' = e \<or> e' = Some (length ?g)"
      | (ell) "?rest \<noteq> []" "hd ?rest = CHR '':''" "tl ?rest \<noteq> []" "hd (tl ?rest) = CHR '':''" "e = None"
          "tl (tl ?rest) \<noteq> []" "parseIPv6_loop ?g (Some (length ?g)) (tl (tl ?rest)) = Some (g', e', r)"
      | (next_group) "?rest \<noteq> []" "hd ?rest = CHR '':''" "tl ?rest \<noteq> []" "hd (tl ?rest) \<noteq> CHR '':''"
          "parseIPv6_loop ?g e (tl ?rest) = Some (g', e', r)"
      using "1.prems"(1) False h
      by (auto simp: parseIPv6_loop.simps[of g e s] Let_def split: if_splits option.splits list.splits)
    then show ?thesis
    proof cases
      case v4
      then have "a < 256" "b < 256" "c < 256" "d < 256"
        using parseIPv4Fields_ok[OF v4(1)] by auto
      then show ?thesis using v4 "1.prems"(2) by (auto simp: groups_ok_def)
    next
      case stop
      then show ?thesis using ok by auto
    next
      case ell
      then show ?thesis using "1.IH"(1) False h ok(2) by (simp add: Let_def)
    next
      case next_group
      then show ?thesis using "1.IH"(2) False h ok(1) by (simp add: Let_def)
    qed
  qed
qed

lemma parseIPv6_ok: "parseIPv6 s = Some a \<Longrightarrow> addr_ok a"
proof -
  assume s: "parseIPv6 s = Some a"
  have ok: "addr_ok (V6 gs z)" if "expand_ellipsis g e = Some gs" "groups_ok g e" for g e gs z
    using that by (auto simp: expand_ellipsis_def groups_ok_def split: option.splits if_splits)
      (meson in_set_takeD in_set_dropD)+
  let ?s = "takeWhile (\<lambda>c. c \<noteq> CHR ''%'') s" and ?zone = "tl (dropWhile (\<lambda>c. c \<noteq> CHR ''%'') s)"
  let ?lead = "take 2 ?s = [CHR '':'', CHR '':'']"
  let ?loop = "parseIPv6_loop [] (if ?lead then Some 0 else None) (if ?lead then drop 2 ?s else ?s)"
  have init: "groups_ok [] (if ?lead then Some 0 else None)" by (simp add: groups_ok_def)
  consider "a = V6 (replicate 8 0) ?zone"
    | g e where "?loop = Some (g, e, '''')" "map_option (\<lambda>gs. V6 gs ?zone) (expand_ellipsis g e) = Some a"
    using s unfolding parseIPv6_def Let_def by (auto simp del: map_option_eq_Some split: if_splits option.splits)
  then show ?thesis
  proof cases
    case 2
    then show ?thesis using ok parseIPv6_loop_ok[OF 2(1) init] by auto
  qed simp
qed

lemma ParseAddr_ok: "ParseAddr s = Some a \<Longrightarrow> addr_ok a"
  using parseIPv6_ok parseIPv4Fields_ok[of 0 0 "[]" s] by (auto simp: ParseAddr_def split: if_splits)

end
