(* ===== verification/Client_IP.thy ===== *)
theory Client_IP
  imports Http_Server Go_Netip
begin

text \<open>
  internal/middleware/clientip.go: which address a request is attributed to, and the key the
  login limiter counts under.  Shown here: a peer that is not a trusted proxy cannot choose its
  address by sending headers, and behind a trusted proxy nothing a client puts to the left of
  the entry the proxies vouch for matters.
\<close>

definition isTrusted :: "Prefix list \<Rightarrow> Addr \<Rightarrow> bool" where
  "isTrusted trusted a = list_ex (\<lambda>p. Contains p (Unmap a)) trusted"

definition peerAddr :: "string \<Rightarrow> Addr option" where
  "peerAddr remoteAddr =
     (let host = (case SplitHostPort remoteAddr of None \<Rightarrow> remoteAddr | Some h \<Rightarrow> h)
      in map_option Unmap (ParseAddr host))"

text \<open>The loop over the hops, from the last one down.\<close>

fun last_untrusted :: "(Addr \<Rightarrow> bool) \<Rightarrow> string list \<Rightarrow> Addr option" where
  "last_untrusted tr [] = None"
| "last_untrusted tr (h # hs) =
     (case ParseAddr (TrimSpace h) of
        None \<Rightarrow> None
      | Some a \<Rightarrow> if \<not> tr (Unmap a) then Some (Unmap a) else last_untrusted tr hs)"

definition hops :: "string list \<Rightarrow> string list" where
  "hops values = concat (map (Split CHR '','') values)"

definition fromForwardedFor :: "string list \<Rightarrow> (Addr \<Rightarrow> bool) \<Rightarrow> Addr option" where
  "fromForwardedFor values tr = last_untrusted tr (rev (hops values))"

definition ClientIP :: "Prefix list \<Rightarrow> 's handler \<Rightarrow> 's handler" where
  "ClientIP trusted next r s =
     (if trusted = [] then next r s
      else case peerAddr (rqRemoteAddr r) of
        None \<Rightarrow> next r s
      | Some peer \<Rightarrow>
          if \<not> isTrusted trusted peer then next r s
          else case fromForwardedFor (rqHeader r ''X-Forwarded-For'') (isTrusted trusted) of
            Some ip \<Rightarrow> next (r\<lparr>rqRemoteAddr := addr_String ip\<rparr>) s
          | None \<Rightarrow>
              (case ParseAddr (TrimSpace (Header_Get r ''X-Real-Ip'')) of
                 Some ip \<Rightarrow> next (r\<lparr>rqRemoteAddr := addr_String (Unmap ip)\<rparr>) s
               | None \<Rightarrow> next r s))"

text \<open>
  \<open>unmarshal\<close> is \<^verbatim>\<open>json.Unmarshal\<close> into a struct with the one field \<^verbatim>\<open>Email\<close>.  Reading the body and
  putting it back forgets a read error.
\<close>

definition LoginAccountKey ::
  "(string \<Rightarrow> string) \<Rightarrow> (string \<Rightarrow> string option) \<Rightarrow> request \<Rightarrow> string \<times> request" where
  "LoginAccountKey uni unmarshal r =
     (case rqBody r of
        None \<Rightarrow> (''login:none'', r)
      | Some (bytes, err) \<Rightarrow>
          let r' = r\<lparr>rqBody := Some (bytes, None)\<rparr> in
          if err \<noteq> None then (''login:none'', r')
          else case unmarshal bytes of
            None \<Rightarrow> (''login:none'', r')
          | Some email \<Rightarrow>
              if TrimSpace email = '''' then (''login:none'', r')
              else (''login:'' @ ToLower uni (TrimSpace email), r'))"

section \<open>The attributed address\<close>

lemma last_untrusted_append:
  assumes "\<forall>h \<in> set hs. \<exists>a. ParseAddr (TrimSpace h) = Some a \<and> tr (Unmap a)"
  shows "last_untrusted tr (hs @ t) = last_untrusted tr t"
  using assms by (induction hs) auto

lemma fromForwardedFor_hop:
  assumes "hops values = pre @ hop # post"
    and "\<forall>h \<in> set post. \<exists>a. ParseAddr (TrimSpace h) = Some a \<and> tr (Unmap a)"
    and "ParseAddr (TrimSpace hop) = Some a" "\<not> tr (Unmap a)"
  shows "fromForwardedFor values tr = Some (Unmap a)"
  using last_untrusted_append[of "rev post" tr "hop # rev pre"] assms
  by (simp add: fromForwardedFor_def)

text \<open>The middleware rewrites the remote address, nothing else.\<close>

definition client_address :: "Prefix list \<Rightarrow> request \<Rightarrow> string" where
  "client_address trusted r = rqRemoteAddr (oReq (ClientIP trusted (\<lambda>r s. returns r [] s) r ()))"

lemma ClientIP_eq: "ClientIP trusted next r s = next (r\<lparr>rqRemoteAddr := client_address trusted r\<rparr>) s"
  by (simp add: ClientIP_def client_address_def returns_def split: option.splits)

interpretation client_ip: passing_middleware "ClientIP trusted" for trusted
proof unfold_locales
  fix "next" :: "'s handler" and r s
  show "oState (ClientIP trusted next r s) = s
      \<or> (\<exists>r'. rqHeader r' = rqHeader r \<and> oState (ClientIP trusted next r s) = oState (next r' s))"
    by (rule disjI2, rule exI[of _ "r\<lparr>rqRemoteAddr := client_address trusted r\<rparr>"]) (simp add: ClientIP_eq)
qed

interpretation client_ip_log: lineless_middleware "ClientIP trusted" for trusted
  by unfold_locales (simp add: lineless_def ClientIP_eq)

lemma hops_snoc: "hops (vs @ [v @ CHR '','' # w]) = hops (vs @ [v]) @ hops [w]"
  by (simp add: hops_def Split_snoc)

text \<open>
  C17. The client address cannot be forged.  When the TCP peer is not one of the trusted proxies,
  the request goes on unchanged whatever its headers say; when it is, and the proxies appended
  the hop they saw followed only by trusted hops, the request is attributed to that hop
  whatever the client wrote before it.
\<close>

theorem ClientIP_not_forgeable:
  assumes "peerAddr (rqRemoteAddr r) = Some peer"
  shows "(\<not> isTrusted trusted peer \<longrightarrow> ClientIP trusted next r s = next r s)
    \<and> (isTrusted trusted peer \<and> rqHeader r ''X-Forwarded-For'' = vs @ [forged @ CHR '','' # vouched]
        \<and> hops [vouched] = hop # post
        \<and> (\<forall>h \<in> set post. \<exists>b. ParseAddr (TrimSpace h) = Some b \<and> isTrusted trusted b)
        \<and> ParseAddr (TrimSpace hop) = Some a \<and> \<not> isTrusted trusted a
       \<longrightarrow> ClientIP trusted next r s = next (r\<lparr>rqRemoteAddr := addr_String (Unmap a)\<rparr>) s)"
proof -
  have unmap: "isTrusted trusted (Unmap b) = isTrusted trusted b" for b
    by (cases b) (simp_all add: isTrusted_def)
  have "fromForwardedFor (vs @ [forged @ CHR '','' # vouched]) (isTrusted trusted) = Some (Unmap a)"
    if "hops [vouched] = hop # post"
      "\<forall>h \<in> set post. \<exists>b. ParseAddr (TrimSpace h) = Some b \<and> isTrusted trusted b"
      "ParseAddr (TrimSpace hop) = Some a" "\<not> isTrusted trusted a"
    using that by (intro fromForwardedFor_hop[of _ "hops (vs @ [forged])" hop post]) (auto simp: hops_snoc unmap)
  moreover have "isTrusted trusted peer \<Longrightarrow> trusted \<noteq> []"
    by (auto simp: isTrusted_def)
  ultimately show ?thesis
    using assms by (auto simp: ClientIP_def)
qed

definition demo_proxies :: "Prefix list" where
  "demo_proxies = [\<lparr>pfAddr = V4 [10, 0, 0, 0], pfBits = 8\<rparr>]"

definition demo_forwarded :: request where
  "demo_forwarded = demo_http\<lparr>rqRemoteAddr := ''10.0.0.5:443'',
     rqHeader := (\<lambda>_. [])(''X-Forwarded-For'' := [''1.2.3.4'' @ CHR '','' # ''203.0.113.7,10.0.0.9''])\<rparr>"

definition demo_sees :: "string handler" where
  "demo_sees r s = returns r [] (rqRemoteAddr r)"

lemma demo_parse [simp]:
  "ParseAddr ''10.0.0.5'' = Some (V4 [10, 0, 0, 5])"
  "ParseAddr ''203.0.113.7'' = Some (V4 [203, 0, 113, 7])"
  "ParseAddr ''10.0.0.9'' = Some (V4 [10, 0, 0, 9])"
  by (simp_all add: ParseAddr_def is_digit_def digit_val_def)

lemma demo_trim_addr [simp]:
  "TrimSpace ''203.0.113.7'' = ''203.0.113.7''" "TrimSpace ''10.0.0.9'' = ''10.0.0.9''"
  by (simp_all add: TrimSpace_def trim_words.simps space_encodings_def)

lemma demo_peer: "peerAddr (rqRemoteAddr demo_forwarded) = Some (V4 [10, 0, 0, 5])"
  using SplitHostPort_plain[of "''10.0.0.5''" "''443''"] by (simp add: peerAddr_def demo_forwarded_def)

theorem ClientIP_not_forgeable_witness:
  "oState (ClientIP demo_proxies demo_sees demo_forwarded '''') = ''203.0.113.7''"
proof -
  have "hops [''203.0.113.7,10.0.0.9''] = [''203.0.113.7'', ''10.0.0.9'']"
    by (simp add: hops_def)
  moreover have "isTrusted demo_proxies (V4 [10, 0, 0, b])" "\<not> isTrusted demo_proxies (V4 [203, 0, 113, 7])" for b
    by (simp_all add: isTrusted_def demo_proxies_def Contains_def)
  ultimately have "ClientIP demo_proxies demo_sees demo_forwarded ''''
      = demo_sees (demo_forwarded\<lparr>rqRemoteAddr := addr_String (Unmap (V4 [203, 0, 113, 7]))\<rparr>) ''''"
    using ClientIP_not_forgeable[OF demo_peer, of demo_proxies demo_sees "''''" "[]" "''1.2.3.4''"
        "''203.0.113.7,10.0.0.9''" "''203.0.113.7''" "[''10.0.0.9'']" "V4 [203, 0, 113, 7]"]
    by (simp add: demo_forwarded_def)
  moreover have "string4 [203, 0, 113, 7] = ''203.0.113.7''"
    by (simp add: string4_def dec_nat.simps digit_def) code_simp
  ultimately show ?thesis by (simp add: demo_sees_def returns_def)
qed

end
