(* ===== verification/Auth_Service.thy ===== *)
theory Auth_Service
  imports Scenario Auth_Token Client_IP
begin

text \<open>
  internal/auth: registration, login, the current user, promotion and the bootstrap
  administrator, and the handlers around them.  bcrypt, \<^verbatim>\<open>mail.ParseAddress\<close>, Unicode's case
  tables and the JWT library are parameters.  Shown here: who registers can log in and use the
  token, a refused login does not tell whether the account exists, and registration never
  creates an administrator.
\<close>

definition minPasswordLen :: nat where "minPasswordLen = 8"
definition maxPasswordLen :: nat where "maxPasswordLen = 128"
definition bcryptCost :: nat where "bcryptCost = 12"

definition auth_ErrInvalidInput :: error where
  "auth_ErrInvalidInput = New ''auth.ErrInvalidInput'' ''invalid input''"
definition ErrInvalidCredentials :: error where
  "ErrInvalidCredentials = New ''auth.ErrInvalidCredentials'' ''invalid credentials''"
definition ErrEmailTaken :: error where
  "ErrEmailTaken = New ''auth.ErrEmailTaken'' ''email already registered''"
definition ErrUserNotFound :: error where
  "ErrUserNotFound = New ''auth.ErrUserNotFound'' ''user not found''"

lemmas auth_errors [go_defs] =
  auth_ErrInvalidInput_def ErrInvalidCredentials_def ErrEmailTaken_def ErrUserNotFound_def

text \<open>
  The libraries: the fallback of \<^verbatim>\<open>strings.ToLower\<close>, the error of \<^verbatim>\<open>mail.ParseAddress\<close>,
  \<^verbatim>\<open>bcrypt.GenerateFromPassword\<close> with the salt it draws, \<^verbatim>\<open>bcrypt.CompareHashAndPassword\<close>, JWT.
\<close>

record auth_lib =
  alUnicodeLower :: "string \<Rightarrow> string"
  alParseAddress :: "string \<Rightarrow> error option"
  alGenerate :: "string \<Rightarrow> string \<Rightarrow> nat \<Rightarrow> error + string"
  alCompare :: "string \<Rightarrow> string \<Rightarrow> bool"
  alJwt :: jwt_lib

text \<open>What the documentation of bcrypt promises: a limit of 72 bytes, ASCII hashes that verify.\<close>

definition bcrypt_ErrPasswordTooLong :: error where
  "bcrypt_ErrPasswordTooLong =
     New ''bcrypt.ErrPasswordTooLong'' ''bcrypt: password length exceeds 72 bytes''"

definition bcrypt_ok :: "auth_lib \<Rightarrow> bool" where
  "bcrypt_ok lib \<longleftrightarrow>
     (\<forall>salt pw cost. 72 < length pw \<longrightarrow> alGenerate lib salt pw cost = Inl bcrypt_ErrPasswordTooLong) \<and>
     (\<forall>salt pw cost h. alGenerate lib salt pw cost = Inr h \<longrightarrow> alCompare lib h pw)"

record auth_service =
  asJwtSecret :: string
  asJwtExpiry :: duration

record auth_env =
  avFault :: faults
  avNow :: instant
  avWallClock :: instant
  avSalt :: string

section \<open>Service\<close>

definition auth_invalid :: "string \<Rightarrow> error" where
  "auth_invalid msg = Wrapf '''' auth_ErrInvalidInput ('': '' @ msg)"

definition normalise_email :: "auth_lib \<Rightarrow> string \<Rightarrow> string" where
  "normalise_email lib email = TrimSpace (ToLower (alUnicodeLower lib) email)"

definition validateRegistration :: "auth_lib \<Rightarrow> RegisterRequest \<Rightarrow> error + (string \<times> string)" where
  "validateRegistration lib req =
     (let email = normalise_email lib (regEmail req);
          fullName = TrimSpace (regFullName req)
      in if email = '''' then Inl (auth_invalid ''email is required'')
         else if alParseAddress lib email \<noteq> None then Inl (auth_invalid ''email is not a valid address'')
         else if fullName = '''' then Inl (auth_invalid ''full_name is required'')
         else if length fullName > 200 then Inl (auth_invalid ''full_name too long'')
         else if length (regPassword req) < minPasswordLen
         then Inl (auth_invalid (''password must be at least '' @ FormatInt (int minPasswordLen) @ '' characters''))
         else if length (regPassword req) > maxPasswordLen then Inl (auth_invalid ''password too long'')
         else Inr (email, fullName))"

definition Register :: "auth_lib \<Rightarrow> auth_env \<Rightarrow> RegisterRequest \<Rightarrow> User stmt" where
  "Register lib env req =
     (case validateRegistration lib req of
        Inl err \<Rightarrow> stmt_fail err
      | Inr (email, fullName) \<Rightarrow>
          (case alGenerate lib (avSalt env) (regPassword req) bcryptCost of
             Inl err \<Rightarrow> stmt_fail (wrap ''hashing password'' err)
           | Inr hash \<Rightarrow>
               stmt_bind
                 (on_error (\<lambda>err. if IsUnique err then ErrEmailTaken else wrap ''creating user'' err)
                   (exec (avFault env) (Query 0) (insert_user (avNow env) email hash fullName ''user'')))
                 (\<lambda>u. stmt_return (u\<lparr>uPasswordHash := ''''\<rparr>))))"

definition fetch_by_email :: "faults \<Rightarrow> string \<Rightarrow> db \<Rightarrow> error + User" where
  "fetch_by_email f email d =
     query f (Query 0)
       (if \<not> text_ok email then Inl text_error
        else case select_user_by_email d email of None \<Rightarrow> Inl pgx_ErrNoRows | Some u \<Rightarrow> Inr u)"

definition Login ::
  "auth_lib \<Rightarrow> auth_service \<Rightarrow> auth_env \<Rightarrow> LoginRequest \<Rightarrow> db \<Rightarrow> error + LoginResponse" where
  "Login lib sv env req d =
     (let email = normalise_email lib (logEmail req) in
      if email = '''' \<or> logPassword req = '''' then Inl ErrInvalidCredentials
      else case fetch_by_email (avFault env) email d of
        Inl err \<Rightarrow>
          if errors_Is err pgx_ErrNoRows then Inl ErrInvalidCredentials
          else Inl (wrap ''fetching user'' err)
      | Inr user \<Rightarrow>
          if \<not> alCompare lib (uPasswordHash user) (logPassword req) then Inl ErrInvalidCredentials
          else case GenerateToken (alJwt lib) (avWallClock env) (uID user) (uRole user)
                      (asJwtSecret sv) (asJwtExpiry sv) of
            Inl err \<Rightarrow> Inl (wrap ''generating token'' err)
          | Inr tok \<Rightarrow> Inr \<lparr>lrToken = tok, lrUser = user\<lparr>uPasswordHash := ''''\<rparr>\<rparr>)"

definition Me :: "faults \<Rightarrow> int \<Rightarrow> db \<Rightarrow> error + User" where
  "Me f userID d =
     (case query f (Query 0) (case select_user d userID of None \<Rightarrow> Inl pgx_ErrNoRows | Some u \<Rightarrow> Inr u) of
        Inl err \<Rightarrow>
          if errors_Is err pgx_ErrNoRows then Inl ErrUserNotFound else Inl (wrap ''fetching user'' err)
      | Inr u \<Rightarrow> Inr (u\<lparr>uPasswordHash := ''''\<rparr>))"

definition PromoteToAdmin :: "auth_env \<Rightarrow> int \<Rightarrow> User stmt" where
  "PromoteToAdmin env userID =
     stmt_bind
       (on_error (\<lambda>err. if errors_Is err pgx_ErrNoRows then ErrUserNotFound else wrap ''promoting user'' err)
         (exec (avFault env) (Query 0) (update_user_role (avNow env) userID ''admin'')))
       (\<lambda>u. stmt_return (u\<lparr>uPasswordHash := ''''\<rparr>))"

definition BootstrapAdmin :: "auth_lib \<Rightarrow> auth_env \<Rightarrow> string \<Rightarrow> string \<Rightarrow> string \<Rightarrow> unit stmt" where
  "BootstrapAdmin lib env email password fullName =
     (let email = normalise_email lib email in
      if email = '''' \<or> password = '''' then stmt_fail auth_ErrInvalidInput
      else case alParseAddress lib email of
        Some err \<Rightarrow> stmt_fail (wrap ''invalid admin email'' err)
      | None \<Rightarrow>
          if length password < minPasswordLen
          then stmt_fail (Errorf (''admin password must be at least '' @ FormatInt (int minPasswordLen) @ '' characters''))
          else case alGenerate lib (avSalt env) password bcryptCost of
            Inl err \<Rightarrow> stmt_fail (wrap ''hashing password'' err)
          | Inr hash \<Rightarrow>
              on_error (wrap ''bootstrapping admin'')
                (exec (avFault env) (Exec 0) (upsert_admin (avNow env) email hash fullName)))"

section \<open>Handlers\<close>

definition register_response :: "error + User \<Rightarrow> User response" where
  "register_response res =
     (case res of
        Inl err \<Rightarrow>
          if errors_Is err ErrEmailTaken then Conflict (Error_text err)
          else if errors_Is err auth_ErrInvalidInput then BadRequest (Error_text err)
          else Internal ''could not register user''
      | Inr user \<Rightarrow> Respond 201 True (Some user) '''')"

definition handle_Register ::
  "RegisterRequest json_decoder \<Rightarrow> auth_lib \<Rightarrow> auth_env \<Rightarrow> body \<Rightarrow> db \<Rightarrow> User response \<times> db" where
  "handle_Register dec lib env body d =
     (case DecodeJSON dec body of
        Inl err \<Rightarrow> (BadRequest (''invalid request body: '' @ Error_text err), d)
      | Inr req \<Rightarrow> map_prod register_response id (Register lib env req d))"

definition login_response :: "error + LoginResponse \<Rightarrow> LoginResponse response" where
  "login_response res =
     (case res of
        Inl err \<Rightarrow>
          if errors_Is err ErrInvalidCredentials then Unauthorized (Error_text err)
          else Internal ''could not authenticate''
      | Inr resp \<Rightarrow> Respond 200 True (Some resp) '''')"

definition handle_Login ::
  "LoginRequest json_decoder \<Rightarrow> auth_lib \<Rightarrow> auth_service \<Rightarrow> auth_env \<Rightarrow> body \<Rightarrow> db \<Rightarrow> LoginResponse response" where
  "handle_Login dec lib sv env body d =
     (case DecodeJSON dec body of
        Inl err \<Rightarrow> BadRequest (''invalid request body: '' @ Error_text err)
      | Inr req \<Rightarrow> login_response (Login lib sv env req d))"

definition handle_Me :: "faults \<Rightarrow> int option \<Rightarrow> db \<Rightarrow> User response" where
  "handle_Me f userID d =
     (case userID of
        None \<Rightarrow> Unauthorized ''unauthenticated''
      | Some uid \<Rightarrow>
          (case Me f uid d of
             Inl err \<Rightarrow>
               if errors_Is err ErrUserNotFound then NotFound ''user not found''
               else Internal ''could not fetch user''
           | Inr user \<Rightarrow> Respond 200 True (Some user) ''''))"

definition handle_Promote :: "auth_env \<Rightarrow> string \<Rightarrow> db \<Rightarrow> User response \<times> db" where
  "handle_Promote env param d =
     (case ParseInt param of
        (_, Some _) \<Rightarrow> (BadRequest ''invalid user id'', d)
      | (userID, None) \<Rightarrow>
          (case PromoteToAdmin env userID d of
             (Inl err, d') \<Rightarrow>
               (if errors_Is err ErrUserNotFound then NotFound ''user not found''
                else Internal ''could not promote user'', d')
           | (Inr user, d') \<Rightarrow> (Respond 200 True (Some user) '''', d')))"

section \<open>Registration\<close>

lemma validateRegistration_Inl:
  "validateRegistration lib req = Inl err \<Longrightarrow> errors_Is err auth_ErrInvalidInput"
  by (auto simp: validateRegistration_def Let_def auth_invalid_def auth_ErrInvalidInput_def split: if_splits)

lemma validateRegistration_Inr:
  assumes "validateRegistration lib req = Inr (email, fullName)"
  shows "email = normalise_email lib (regEmail req)" "fullName = TrimSpace (regFullName req)"
    "email \<noteq> ''''" "fullName \<noteq> ''''" "8 \<le> length (regPassword req)" "length (regPassword req) \<le> 128"
  using assms
  by (auto simp: validateRegistration_def Let_def minPasswordLen_def maxPasswordLen_def split: if_splits)

lemma Register_Inr:
  assumes "Register lib env req d = (Inr u, d')"
  obtains hash row where
    "alGenerate lib (avSalt env) (regPassword req) bcryptCost = Inr hash"
    "insert_user (avNow env) (normalise_email lib (regEmail req)) hash (TrimSpace (regFullName req)) ''user'' d = (Inr row, d')"
    "u = row\<lparr>uPasswordHash := ''''\<rparr>" "normalise_email lib (regEmail req) \<noteq> ''''" "regPassword req \<noteq> ''''"
proof -
  obtain email fullName where v: "validateRegistration lib req = Inr (email, fullName)"
    using assms by (cases "validateRegistration lib req") (auto simp: Register_def stmt_fail_def)
  note valid = validateRegistration_Inr[OF v]
  obtain hash where h: "alGenerate lib (avSalt env) (regPassword req) bcryptCost = Inr hash"
    using assms v by (cases "alGenerate lib (avSalt env) (regPassword req) bcryptCost")
      (auto simp: Register_def stmt_fail_def)
  obtain row where "insert_user (avNow env) email hash fullName ''user'' d = (Inr row, d')"
    "u = row\<lparr>uPasswordHash := ''''\<rparr>"
    using assms v h by (auto simp: Register_def stmt_Inr stmt_return_def)
  moreover have "regPassword req \<noteq> ''''" using valid(5) by auto
  ultimately show thesis using that h valid(1-3) by blast
qed

lemma stmt_ok_Register [simp]: "stmt_ok (Register lib env req)"
  by (auto simp: Register_def split: sum.splits prod.splits)

lemma stmt_ok_PromoteToAdmin [simp]: "stmt_ok (PromoteToAdmin env uid)"
  by (auto simp: PromoteToAdmin_def)

lemma stmt_ok_BootstrapAdmin [simp]: "stmt_ok (BootstrapAdmin lib env email pw nm)"
  by (auto simp: BootstrapAdmin_def Let_def split: sum.splits option.splits)

lemma Register_failed:
  assumes "Register lib env req d = (Inl err, d')"
  shows "same_tables d d'"
proof (cases "validateRegistration lib req")
  case (Inr p)
  then show ?thesis
    using assms stmt_failed(1)
    by (auto simp: Register_def stmt_prims seq_advance_def split: sum.splits prod.splits option.splits)
qed (use assms in \<open>simp add: Register_def stmt_fail_def\<close>)

lemma select_user_by_email_snoc:
  "uEmail u \<notin> uEmail ` set (tUsers (d :: db)) \<Longrightarrow> tUsers d' = tUsers d @ [u] \<Longrightarrow>
   select_user_by_email d' (uEmail u) = Some u"
  using select_missing(3)[of "uEmail u" d] by (simp add: select_user_by_email_def find_append)

lemma insert_user_text: "insert_user now email hash nm role d = (Inr u, d') \<Longrightarrow> text_ok email"
  by (simp add: insert_user_def split: if_splits)

text \<open>
  C18. Who registers can log in: after a successful registration, logging in with the same
  address in any spelling that normalises to it, and the same password, returns the user the
  registration reported and a token issued for that user with the role user.
\<close>

theorem Register_then_Login:
  assumes "bcrypt_ok lib" and "jwt_ok (alJwt lib)"
    and "Register lib env req d = (Inr u, d')"
    and "normalise_email lib (logEmail lreq) = normalise_email lib (regEmail req)"
    and "logPassword lreq = regPassword req" and "avFault env' = no_faults"
  shows "\<exists>tok. Login lib sv env' lreq d' = Inr \<lparr>lrToken = tok, lrUser = u\<rparr>
    \<and> GenerateToken (alJwt lib) (avWallClock env') (uID u) ''user'' (asJwtSecret sv) (asJwtExpiry sv) = Inr tok"
proof -
  from Register_Inr[OF assms(3)] obtain hash row where
    hash: "alGenerate lib (avSalt env) (regPassword req) bcryptCost = Inr hash"
    and ins: "insert_user (avNow env) (normalise_email lib (regEmail req)) hash (TrimSpace (regFullName req)) ''user'' d = (Inr row, d')"
    and u: "u = row\<lparr>uPasswordHash := ''''\<rparr>" and ne: "normalise_email lib (regEmail req) \<noteq> ''''" "regPassword req \<noteq> ''''"
    by metis
  note row = insert_user_done[OF ins]
  have "select_user_by_email d' (normalise_email lib (regEmail req)) = Some row"
    using select_user_by_email_snoc[of row d d'] row(4) by (simp add: row(1,2))
  then have "fetch_by_email no_faults (normalise_email lib (regEmail req)) d' = Inr row"
    using insert_user_text[OF ins] by (simp add: fetch_by_email_def)
  moreover have "alCompare lib (uPasswordHash row) (logPassword lreq)"
    using assms(1,5) hash row(1) by (simp add: bcrypt_ok_def)
  moreover have "\<exists>tok. GenerateToken (alJwt lib) (avWallClock env') (uID row) (uRole row) (asJwtSecret sv) (asJwtExpiry sv) = Inr tok"
    unfolding GenerateToken_def using jwt_ok_sign[OF assms(2)] by blast
  ultimately show ?thesis
    using assms(4-6) ne by (auto simp: Login_def u row(1))
qed

text \<open>
  Registration stores what it reports and nothing else: a new user with a fresh id, the
  normalised address, the role user and a hash that verifies; a refused registration changes
  no table.
\<close>

theorem Register_correct:
  assumes "bcrypt_ok lib" and "Register lib env req d = (res, d')"
  shows "(case res of
      Inl _ \<Rightarrow> same_tables d d'
    | Inr u \<Rightarrow> \<exists>hash. tUsers d' = tUsers d @ [u\<lparr>uPasswordHash := hash\<rparr>] \<and> alCompare lib hash (regPassword req)
        \<and> tEvents d' = tEvents d \<and> tBookings d' = tBookings d \<and> tDraws d' = tDraws d \<and> tSeals d' = tSeals d
        \<and> uEmail u = normalise_email lib (regEmail req) \<and> uEmail u \<notin> uEmail ` set (tUsers d)
        \<and> uRole u = ''user'' \<and> uPasswordHash u = '''' \<and> uFullName u = TrimSpace (regFullName req)
        \<and> uID u = qUsers (tSeqs d) + 1)"
proof (cases res)
  case (Inl err)
  with assms(2) Register_failed show ?thesis by auto
next
  case (Inr u)
  with assms(2) have reg: "Register lib env req d = (Inr u, d')" by simp
  from Register_Inr[OF reg] obtain hash row where
    hash: "alGenerate lib (avSalt env) (regPassword req) bcryptCost = Inr hash"
    and ins: "insert_user (avNow env) (normalise_email lib (regEmail req)) hash (TrimSpace (regFullName req)) ''user'' d = (Inr row, d')"
    and u: "u = row\<lparr>uPasswordHash := ''''\<rparr>"
    by metis
  have "alCompare lib hash (regPassword req)" using assms(1) hash by (simp add: bcrypt_ok_def)
  moreover have "row = u\<lparr>uPasswordHash := hash\<rparr>" using insert_user_done(1)[OF ins] by (simp add: u)
  ultimately show ?thesis
    using insert_user_done[OF ins] by (auto simp: Inr u)
qed

section \<open>Login\<close>

lemma Login_unknown:
  "text_ok (normalise_email lib (logEmail req)) \<Longrightarrow> avFault env = no_faults \<Longrightarrow>
   normalise_email lib (logEmail req) \<notin> uEmail ` set (tUsers d) \<Longrightarrow>
   Login lib sv env req d = Inl ErrInvalidCredentials"
  by (simp add: Login_def fetch_by_email_def pgx_ErrNoRows_def Let_def)

lemma Login_wrong_password:
  "text_ok (normalise_email lib (logEmail req)) \<Longrightarrow> avFault env = no_faults \<Longrightarrow>
   select_user_by_email d (normalise_email lib (logEmail req)) = Some u \<Longrightarrow>
   \<not> alCompare lib (uPasswordHash u) (logPassword req) \<Longrightarrow>
   Login lib sv env req d = Inl ErrInvalidCredentials"
  by (simp add: Login_def fetch_by_email_def Let_def)

text \<open>
  C29. A refused login does not tell whether the account exists: when the server answers, the
  response to a wrong password for a registered address is the response to an unregistered
  address, a 401 with the same body.
\<close>

theorem Login_does_not_enumerate:
  assumes "avFault env = no_faults" and "DecodeJSON dec body = Inr req" and "DecodeJSON dec body' = Inr req'"
    and "text_ok (normalise_email lib (logEmail req))" "text_ok (normalise_email lib (logEmail req'))"
    and "select_user_by_email d (normalise_email lib (logEmail req)) = Some u"
    and "\<not> alCompare lib (uPasswordHash u) (logPassword req)"
    and "normalise_email lib (logEmail req') \<notin> uEmail ` set (tUsers d)"
  shows "handle_Login dec lib sv env body d = handle_Login dec lib sv env body' d
    \<and> rsStatus (handle_Login dec lib sv env body d) = 401"
  using Login_wrong_password[OF assms(4,1,6,7), of sv] Login_unknown[OF assms(5,1,8), of sv] assms(2,3)
  by (simp add: handle_Login_def login_response_def response_defs ErrInvalidCredentials_def)

text \<open>
  The login limiter counts under the account that is tried: for an ASCII address the key is
  \<^verbatim>\<open>login:\<close> followed by the very address \<^verbatim>\<open>Login\<close> looks up, so spellings that differ in case or
  outer white space share one budget; and the handler still finds the body it was sent.
\<close>

theorem LoginAccountKey_is_login_email:
  assumes "rqBody r = Some (bytes, None)" and "unmarshal bytes = Some (logEmail req)"
    and "is_ascii (logEmail req)" and "normalise_email lib (logEmail req) \<noteq> ''''"
  shows "LoginAccountKey (alUnicodeLower lib) unmarshal r = (''login:'' @ normalise_email lib (logEmail req), r)"
proof -
  have "normalise_email lib (logEmail req) = ToLower (alUnicodeLower lib) (TrimSpace (logEmail req))"
    unfolding normalise_email_def by (rule TrimSpace_ToLower[OF assms(3)])
  moreover from this assms(4) have "TrimSpace (logEmail req) \<noteq> ''''"
    by (auto simp: ToLower_def is_ascii_def)
  moreover have "r\<lparr>rqBody := Some (bytes, None)\<rparr> = r" using assms(1) by (cases r) simp
  ultimately show ?thesis using assms(1,2) by (simp add: LoginAccountKey_def Let_def)
qed

lemma validateRegistration_password:
  assumes "validateRegistration lib (req\<lparr>regPassword := pw\<rparr>) = Inr v"
  shows "validateRegistration lib req =
    (if length (regPassword req) < minPasswordLen
     then Inl (auth_invalid (''password must be at least '' @ FormatInt (int minPasswordLen) @ '' characters''))
     else if length (regPassword req) > maxPasswordLen then Inl (auth_invalid ''password too long'')
     else Inr v)"
  using assms by (simp add: validateRegistration_def Let_def split: if_splits)

text \<open>
  C39. Passwords that bcrypt refuses pass validation: take a request that is valid with some other
  password.  With a password of 73 to 128 bytes it is still valid, bcrypt refuses to hash it, and
  the client gets a 500 for a request it could have corrected; only from 129 bytes on does it
  get the 400.  Nothing is stored in either case.
\<close>

theorem Register_long_password_fails:
  assumes "bcrypt_ok lib" and "DecodeJSON dec body = Inr req"
    and "validateRegistration lib (req\<lparr>regPassword := pw\<rparr>) = Inr v" and "72 < length (regPassword req)"
  shows "(validateRegistration lib req = Inr v \<longleftrightarrow> length (regPassword req) \<le> 128)
    \<and> rsStatus (fst (handle_Register dec lib env body d)) = (if length (regPassword req) \<le> 128 then 500 else 400)
    \<and> snd (handle_Register dec lib env body d) = d"
proof -
  note valid = validateRegistration_password[OF assms(3)]
  have hash: "alGenerate lib (avSalt env) (regPassword req) bcryptCost = Inl bcrypt_ErrPasswordTooLong"
    using assms(1,4) by (simp add: bcrypt_ok_def)
  show ?thesis
  proof (cases "length (regPassword req) \<le> 128")
    case True
    then have v: "validateRegistration lib req = Inr v"
      using valid assms(4) by (simp add: minPasswordLen_def maxPasswordLen_def)
    with hash have "Register lib env req d = (Inl (wrap ''hashing password'' bcrypt_ErrPasswordTooLong), d)"
      by (cases v) (simp add: Register_def stmt_fail_def)
    with v True show ?thesis
      using assms(2) by (simp add: handle_Register_def register_response_def auth_errors
          bcrypt_ErrPasswordTooLong_def response_defs)
  next
    case False
    then have v: "validateRegistration lib req = Inl (auth_invalid ''password too long'')"
      using valid by (simp add: minPasswordLen_def maxPasswordLen_def)
    then have "Register lib env req d = (Inl (auth_invalid ''password too long''), d)"
      by (simp add: Register_def stmt_fail_def)
    with v False show ?thesis
      using assms(2) by (simp add: handle_Register_def register_response_def auth_errors auth_invalid_def response_defs)
  qed
qed

section \<open>Examples\<close>

definition demo_auth :: auth_lib where
  "demo_auth = \<lparr>alUnicodeLower = (\<lambda>s. s), alParseAddress = (\<lambda>s. if CHR 0x40 \<in> set s then None else Some io_EOF),
     alGenerate = (\<lambda>salt pw cost. if 72 < length pw then Inl bcrypt_ErrPasswordTooLong else Inr (''h'' @ pw)),
     alCompare = (\<lambda>h pw. h = ''h'' @ pw), alJwt = demo_jwt\<rparr>"

lemma demo_auth_ok: "bcrypt_ok demo_auth" "jwt_ok (alJwt demo_auth)"
  by (auto simp: bcrypt_ok_def demo_auth_def demo_jwt_ok split: if_splits)

definition demo_auth_env :: auth_env where
  "demo_auth_env = \<lparr>avFault = no_faults, avNow = 1000, avWallClock = 2000, avSalt = ''s''\<rparr>"

definition demo_sv_auth :: auth_service where
  "demo_sv_auth = \<lparr>asJwtSecret = ''secret'', asJwtExpiry = 60000000000\<rparr>"

definition demo_registration :: "string \<Rightarrow> RegisterRequest" where
  "demo_registration pw = \<lparr>regEmail = '' Ann@X.org'', regPassword = pw, regFullName = ''Ann''\<rparr>"

lemma demo_lower: "map lower_char '' Ann@X.org'' = '' ann@x.org''" "map lower_char ''ANN@x.ORG'' = ''ann@x.org''"
  "map lower_char ''BOB@x.org'' = ''bob@x.org''" "map lower_char ''zoe@x.org'' = ''zoe@x.org''"
  by code_simp+

lemma demo_trims: "TrimSpace '' ann@x.org'' = ''ann@x.org''" "TrimSpace ''ann@x.org'' = ''ann@x.org''"
  "TrimSpace ''bob@x.org'' = ''bob@x.org''" "TrimSpace ''zoe@x.org'' = ''zoe@x.org''" "TrimSpace ''Ann'' = ''Ann''"
  by (simp_all add: TrimSpace_def trim_words.simps space_encodings_def)

lemma demo_normalise [simp]:
  "normalise_email demo_auth '' Ann@X.org'' = ''ann@x.org''"
  "normalise_email demo_auth ''ANN@x.ORG'' = ''ann@x.org''"
  "normalise_email demo_auth ''BOB@x.org'' = ''bob@x.org''"
  "normalise_email demo_auth ''zoe@x.org'' = ''zoe@x.org''"
  using demo_lower demo_trims by (simp_all add: normalise_email_def ToLower_def is_ascii_def)

lemma demo_valid:
  "8 \<le> length pw \<Longrightarrow> length pw \<le> 128 \<Longrightarrow>
   validateRegistration demo_auth (demo_registration pw) = Inr (''ann@x.org'', ''Ann'')"
  by (simp add: validateRegistration_def demo_registration_def demo_trims minPasswordLen_def maxPasswordLen_def Let_def)
    (simp add: demo_auth_def)

lemma demo_registers:
  "\<exists>u d'. Register demo_auth demo_auth_env (demo_registration ''correct horse'') demo_db = (Inr u, d') \<and> uID u = 4"
proof -
  have "alGenerate demo_auth s ''correct horse'' c = Inr ''hcorrect horse''" for s c
    by (simp add: demo_auth_def)
  moreover have "text_ok ''ann@x.org''" "text_ok ''hcorrect horse''" "text_ok ''Ann''"
    by (simp_all add: text_ok_def)
  moreover have "''ann@x.org'' \<notin> uEmail ` set (tUsers demo_db)" by (simp add: demo_defs)
  ultimately show ?thesis
    using demo_valid[of "''correct horse''"]
    by (simp add: Register_def stmt_prims demo_auth_env_def insert_user_def Let_def demo_registration_def)
      (simp add: demo_defs)
qed

theorem Register_then_Login_witness:
  "\<exists>u d' tok. Register demo_auth demo_auth_env (demo_registration ''correct horse'') demo_db = (Inr u, d')
     \<and> Login demo_auth demo_sv_auth demo_auth_env \<lparr>logEmail = ''ANN@x.ORG'', logPassword = ''correct horse''\<rparr> d'
       = Inr \<lparr>lrToken = tok, lrUser = u\<rparr>"
proof -
  obtain u d' where reg: "Register demo_auth demo_auth_env (demo_registration ''correct horse'') demo_db = (Inr u, d')"
    using demo_registers by blast
  have "\<exists>tok. Login demo_auth demo_sv_auth demo_auth_env \<lparr>logEmail = ''ANN@x.ORG'', logPassword = ''correct horse''\<rparr> d'
      = Inr \<lparr>lrToken = tok, lrUser = u\<rparr>"
    using Register_then_Login[OF demo_auth_ok reg, of "\<lparr>logEmail = ''ANN@x.ORG'', logPassword = ''correct horse''\<rparr>"
        demo_auth_env demo_sv_auth]
    by (auto simp: demo_registration_def demo_auth_env_def)
  with reg show ?thesis by blast
qed

theorem Register_correct_witness:
  "\<exists>u d' hash. Register demo_auth demo_auth_env (demo_registration ''correct horse'') demo_db = (Inr u, d')
     \<and> tUsers d' = tUsers demo_db @ [u\<lparr>uPasswordHash := hash\<rparr>] \<and> uRole u = ''user''"
proof -
  obtain u d' where reg: "Register demo_auth demo_auth_env (demo_registration ''correct horse'') demo_db = (Inr u, d')"
    using demo_registers by blast
  show ?thesis using Register_correct[OF demo_auth_ok(1) reg] reg by auto
qed

definition demo_login_json :: "LoginRequest json_decoder" where
  "demo_login_json b = (Inr \<lparr>logEmail = fst b, logPassword = ''wrong guess''\<rparr>, '''')"

lemma demo_login_json_ok:
  "DecodeJSON demo_login_json (m, None) = Inr \<lparr>logEmail = m, logPassword = ''wrong guess''\<rparr>"
  by (simp add: DecodeJSON_def demo_login_json_def json_More_def)

theorem Login_does_not_enumerate_witness:
  "handle_Login demo_login_json demo_auth demo_sv_auth demo_auth_env (''BOB@x.org'', None) demo_db
     = handle_Login demo_login_json demo_auth demo_sv_auth demo_auth_env (''zoe@x.org'', None) demo_db
   \<and> rsStatus (handle_Login demo_login_json demo_auth demo_sv_auth demo_auth_env (''BOB@x.org'', None) demo_db) = 401"
proof (rule Login_does_not_enumerate[OF _ demo_login_json_ok demo_login_json_ok])
  show "select_user_by_email demo_db (normalise_email demo_auth (logEmail \<lparr>logEmail = ''BOB@x.org'', logPassword = ''wrong guess''\<rparr>))
      = Some (demo_user 2 ''bob@x.org'' ''user'')"
    by (simp add: select_user_by_email_def demo_defs)
  show "\<not> alCompare demo_auth (uPasswordHash (demo_user 2 ''bob@x.org'' ''user''))
      (logPassword \<lparr>logEmail = ''BOB@x.org'', logPassword = ''wrong guess''\<rparr>)"
    by (simp add: demo_auth_def demo_user_def)
qed (simp_all add: demo_auth_env_def text_ok_def demo_defs)

theorem LoginAccountKey_is_login_email_witness:
  "fst (LoginAccountKey (alUnicodeLower demo_auth) (\<lambda>b. Some b) (demo_http\<lparr>rqBody := Some ('' Ann@X.org'', None)\<rparr>))
     = ''login:ann@x.org''"
  using LoginAccountKey_is_login_email[of "demo_http\<lparr>rqBody := Some ('' Ann@X.org'', None)\<rparr>" "'' Ann@X.org''" "\<lambda>b. Some b"
      "\<lparr>logEmail = '' Ann@X.org'', logPassword = ''p''\<rparr>" demo_auth]
  by (simp add: is_ascii_def)

definition demo_register_json :: "nat \<Rightarrow> RegisterRequest json_decoder" where
  "demo_register_json n b = (Inr (demo_registration (replicate n CHR ''p'')), '''')"

theorem Register_long_password_fails_witness:
  "rsStatus (fst (handle_Register (demo_register_json 80) demo_auth demo_auth_env ('''', None) demo_db)) = 500
   \<and> rsStatus (fst (handle_Register (demo_register_json 130) demo_auth demo_auth_env ('''', None) demo_db)) = 400"
proof -
  have req: "DecodeJSON (demo_register_json n) ('''', None) = Inr (demo_registration (replicate n CHR ''p''))" for n
    by (simp add: DecodeJSON_def demo_register_json_def json_More_def)
  have "validateRegistration demo_auth (demo_registration ''correct horse'') = Inr (''ann@x.org'', ''Ann'')"
    by (rule demo_valid) simp_all
  then have other: "validateRegistration demo_auth ((demo_registration (replicate n CHR ''p''))\<lparr>regPassword := ''correct horse''\<rparr>)
      = Inr (''ann@x.org'', ''Ann'')" for n
    by (simp add: demo_registration_def)
  show ?thesis
    using Register_long_password_fails[OF demo_auth_ok(1) req other, of 80 demo_auth_env demo_db]
      Register_long_password_fails[OF demo_auth_ok(1) req other, of 130 demo_auth_env demo_db]
    by (simp add: demo_registration_def)
qed

end
