(* ===== verification/Event_Service.thy ===== *)
theory Event_Service
  imports Scenario Httpx
begin

text \<open>
  internal/event: creating, reading, listing, closing and cancelling events, and the
  handlers around them. Shown here: what \<^verbatim>\<open>Create\<close> stores and refuses, the status machine of
  \<^verbatim>\<open>Close\<close> and \<^verbatim>\<open>Cancel\<close>, and which pages \<^verbatim>\<open>List\<close> returns.
\<close>

definition event_ErrInvalidInput :: error where
  "event_ErrInvalidInput = New ''event.ErrInvalidInput'' ''invalid input''"
definition event_ErrEventNotFound :: error where
  "event_ErrEventNotFound = New ''event.ErrEventNotFound'' ''event not found''"
definition ErrInvalidTransition :: error where
  "ErrInvalidTransition = New ''event.ErrInvalidTransition'' ''event status does not permit this transition''"
definition errInvalidID :: error where
  "errInvalidID = New ''event.errInvalidID'' ''invalid id''"

lemmas event_errors [go_defs] =
  event_ErrInvalidInput_def event_ErrEventNotFound_def ErrInvalidTransition_def errInvalidID_def

definition maxTitleLen :: nat where "maxTitleLen = 200"
definition maxDescriptionLen :: nat where "maxDescriptionLen = 4000"

definition invalid_input :: "string \<Rightarrow> error" where
  "invalid_input msg = Wrapf '''' event_ErrInvalidInput ('': '' @ msg)"

section \<open>Create\<close>

text \<open>
  The checks of \<^verbatim>\<open>Create\<close> in their order. The result is the values that are inserted: trimmed
  texts, and a winner count of at least 1. \<open>now\<close> is \<^verbatim>\<open>time.Now()\<close>.
\<close>

definition validate_create ::
  "int \<Rightarrow> instant \<Rightarrow> CreateEventRequest \<Rightarrow> error + (string \<times> string \<times> int)" where
  "validate_create maxWinners now req =
     (let title = TrimSpace (ceTitle req);
          description = TrimSpace (ceDescription req);
          winnerCount = (if ceWinnerCount req < 1 then 1 else ceWinnerCount req)
      in if title = '''' then Inl (invalid_input ''title is required'')
         else if length title > maxTitleLen then Inl (invalid_input ''title too long'')
         else if length description > maxDescriptionLen then Inl (invalid_input ''description too long'')
         else if IsZero (ceDrawAt req) then Inl (invalid_input ''draw_at is required'')
         else if ceDrawAt req < now then Inl (invalid_input ''draw_at must be in the future'')
         else if ceCapacity req < 1 then Inl (invalid_input ''capacity must be at least 1'')
         else if winnerCount > ceCapacity req
         then Inl (invalid_input ''winner_count cannot exceed capacity'')
         else if maxWinners > 0 \<and> winnerCount > maxWinners
         then Inl (invalid_input (''winner_count cannot exceed '' @ FormatInt maxWinners))
         else Inr (title, description, winnerCount))"

record create_env =
  cvFault :: faults
  cvWallClock :: instant
  cvNow :: instant

definition with_count :: "int \<Rightarrow> event_row \<Rightarrow> Event" where
  "with_count n e = event_row.extend e (Event.fields n)"

definition event_Create :: "int \<Rightarrow> create_env \<Rightarrow> CreateEventRequest \<Rightarrow> int \<Rightarrow> Event stmt" where
  "event_Create maxWinners env req createdBy =
     (case validate_create maxWinners (cvWallClock env) req of
        Inl err \<Rightarrow> stmt_fail err
      | Inr (title, description, winnerCount) \<Rightarrow>
          stmt_bind
            (on_error (wrap ''inserting event'')
              (exec (cvFault env) (Exec 0)
                (insert_event (cvNow env) title description (ceCapacity req) (ceDrawAt req)
                   winnerCount createdBy)))
            (\<lambda>e. stmt_return (with_count 0 e)))"

section \<open>GetByID and List\<close>

definition event_GetByID :: "faults \<Rightarrow> db_call \<Rightarrow> int \<Rightarrow> db \<Rightarrow> error + Event" where
  "event_GetByID f c eid d =
     (case query f c (case select_event d eid of None \<Rightarrow> Inl pgx_ErrNoRows | Some e \<Rightarrow> Inr e) of
        Inl err \<Rightarrow>
          if errors_Is err pgx_ErrNoRows then Inl event_ErrEventNotFound
          else Inl (wrap ''fetching event'' err)
      | Inr e \<Rightarrow> Inr (with_count (count_bookings d eid) e))"

definition clamp_page :: "int \<Rightarrow> int" where
  "clamp_page page = (if page < 1 then 1 else page)"

definition clamp_limit :: "int \<Rightarrow> int" where
  "clamp_limit limit = (if limit < 1 \<or> limit > 100 then 20 else limit)"

definition page_offset :: "int \<Rightarrow> int \<Rightarrow> int" where
  "page_offset page limit = wrap64 (wrap64 (page - 1) * limit)"

definition matching_events :: "string \<Rightarrow> db \<Rightarrow> event_row list" where
  "matching_events status d = filter (\<lambda>e. status = '''' \<or> eStatus e = status) (tEvents d)"

definition offset_error :: error where
  "offset_error = PgError ''2201X'' ''OFFSET must not be negative''"

text \<open>
  The listing query. It orders by \<^verbatim>\<open>draw_at\<close> only; \<open>tie\<close> is the order this one execution gives to
  rows with equal times, which may differ from query to query. The server rejects a status that is not a text value and a negative
  offset while it executes, which the driver reports when the rows are read.
\<close>

definition select_page ::
  "(event_row \<Rightarrow> nat) \<Rightarrow> string \<Rightarrow> int \<Rightarrow> int \<Rightarrow> db \<Rightarrow> error + Event list" where
  "select_page tie status limit offset d =
     (if \<not> text_ok status then Inl text_error
      else if offset < 0 then Inl offset_error
      else Inr (map (\<lambda>e. with_count (count_bookings d (eID e)) e)
        (take (nat limit) (drop (nat offset) (order_by tie eDrawAt (matching_events status d))))))"

definition event_List ::
  "faults \<Rightarrow> (event_row \<Rightarrow> nat) \<Rightarrow> string \<Rightarrow> int \<Rightarrow> int \<Rightarrow> db \<Rightarrow> error + (Event list \<times> int)" where
  "event_List f tie status page limit d =
     (let page' = clamp_page page; limit' = clamp_limit limit;
          rows = select_page tie status limit' (page_offset page' limit') d
      in case (case rows of
                 Inl err \<Rightarrow>
                   (case f (Query 0) of Some e \<Rightarrow> Inl (wrap ''querying events'' e)
                    | None \<Rightarrow> Inl (wrap ''iterating event rows'' err))
               | Inr es \<Rightarrow> fetch f 0 ''querying events'' ''scanning event row'' ''iterating event rows'' es) of
           Inl err \<Rightarrow> Inl err
         | Inr es \<Rightarrow>
             (case f (Query 1) of
                Some err \<Rightarrow> Inl (wrap ''counting events'' err)
              | None \<Rightarrow> Inr (es, int (length (matching_events status d)))))"

section \<open>Close and Cancel\<close>

text \<open>\<^verbatim>\<open>%q\<close> on a status: the statuses have no character that needs an escape.\<close>

definition Quote :: "string \<Rightarrow> string" where
  "Quote s = [CHR 0x22] @ s @ [CHR 0x22]"

definition lock_status :: "faults \<Rightarrow> int \<Rightarrow> event_row stmt" where
  "lock_status f eid =
     on_error (\<lambda>err. if errors_Is err pgx_ErrNoRows then event_ErrEventNotFound
                     else wrap ''loading event'' err)
       (query_row f (Query 0) (\<lambda>d. select_event d eid))"

definition Close_body :: "('m tx_env_scheme) \<Rightarrow> int \<Rightarrow> unit stmt" where
  "Close_body env eid =
     stmt_bind (lock_status (txFault env) eid)
     (\<lambda>e. if eStatus e = EventStatusOpen
          then on_error (wrap ''closing event'')
            (exec (txFault env) (Exec 0) (update_event_status (txNow env) eid EventStatusClosed))
          else if eStatus e = EventStatusClosed then stmt_return ()
          else stmt_fail (Wrapf '''' ErrInvalidTransition
            ('': cannot close event in status '' @ Quote (eStatus e))))"

definition Cancel_body :: "('m tx_env_scheme) \<Rightarrow> int \<Rightarrow> unit stmt" where
  "Cancel_body env eid =
     stmt_bind (lock_status (txFault env) eid)
     (\<lambda>e. if eStatus e = EventStatusOpen \<or> eStatus e = EventStatusClosed
          then on_error (wrap ''cancelling event'')
            (exec (txFault env) (Exec 0) (update_event_status (txNow env) eid EventStatusCancelled))
          else if eStatus e = EventStatusCancelled then stmt_return ()
          else stmt_fail (Wrapf '''' ErrInvalidTransition
            ('': cannot cancel event in status '' @ Quote (eStatus e))))"

text \<open>
  After the commit, the event is read again outside the transaction: \<open>rvMeanwhile\<close> is what the
  commits of others make of the database between the two.
\<close>

record reload_env = tx_env +
  rvMeanwhile :: "db \<Rightarrow> db"

definition then_reload :: "('m reload_env_scheme) \<Rightarrow> int \<Rightarrow> unit stmt \<Rightarrow> Event stmt" where
  "then_reload env eid body d =
     (case with_tx env (wrap ''begin tx'') (wrap ''commit'') body d of
        (Inl err, d') \<Rightarrow> (Inl err, d')
      | (Inr _, d') \<Rightarrow> (event_GetByID (txFault env) (Query 1) eid (rvMeanwhile env d'), d'))"

definition event_Close :: "('m reload_env_scheme) \<Rightarrow> int \<Rightarrow> Event stmt" where
  "event_Close env eid = then_reload env eid (Close_body env eid)"

definition event_Cancel :: "('m reload_env_scheme) \<Rightarrow> int \<Rightarrow> Event stmt" where
  "event_Cancel env eid = then_reload env eid (Cancel_body env eid)"

section \<open>Handlers\<close>

definition parseID :: "string \<Rightarrow> error + int" where
  "parseID param = (case parse_event_id param of None \<Rightarrow> Inl errInvalidID | Some i \<Rightarrow> Inr i)"

definition handle_Create ::
  "CreateEventRequest json_decoder \<Rightarrow> int \<Rightarrow> create_env \<Rightarrow> body \<Rightarrow> int option \<Rightarrow> db \<Rightarrow> Event response \<times> db" where
  "handle_Create dec maxWinners env body userID d =
     (case DecodeJSON dec body of
        Inl err \<Rightarrow> (BadRequest (''invalid request body: '' @ Error_text err), d)
      | Inr req \<Rightarrow>
          (case userID of
             None \<Rightarrow> (Unauthorized ''unauthenticated'', d)
           | Some uid \<Rightarrow>
               (case event_Create maxWinners env req uid d of
                  (Inl err, d') \<Rightarrow>
                    (if errors_Is err event_ErrInvalidInput then BadRequest (Error_text err)
                     else Internal ''could not create event'', d')
                | (Inr e, d') \<Rightarrow> (Respond 201 True (Some e) '''', d'))))"

definition handle_GetByID :: "faults \<Rightarrow> string \<Rightarrow> db \<Rightarrow> Event response" where
  "handle_GetByID f param d =
     (case parseID param of
        Inl err \<Rightarrow> BadRequest (Error_text err)
      | Inr eid \<Rightarrow>
          (case event_GetByID f (Query 0) eid d of
             Inl err \<Rightarrow>
               if errors_Is err event_ErrEventNotFound then NotFound ''event not found''
               else Internal ''could not fetch event''
           | Inr e \<Rightarrow> Respond 200 True (Some e) ''''))"

definition handle_List ::
  "faults \<Rightarrow> (event_row \<Rightarrow> nat) \<Rightarrow> string \<Rightarrow> string \<Rightarrow> string \<Rightarrow> db \<Rightarrow> Event list response" where
  "handle_List f tie status pageParam limitParam d =
     (let page = fst (Atoi pageParam); limit = fst (Atoi limitParam) in
      case event_List f tie status page limit d of
        Inl err \<Rightarrow> Internal ''failed to list events''
      | Inr (es, n) \<Rightarrow>
          RespondMeta 200 es \<lparr>metaTotal = n, metaPage = clamp_page page, metaLimit = clamp_limit limit\<rparr>)"

definition transition_response :: "string \<Rightarrow> error + Event \<Rightarrow> Event response" where
  "transition_response failure res =
     (case res of
        Inl err \<Rightarrow>
          if errors_Is err event_ErrEventNotFound then NotFound ''event not found''
          else if errors_Is err ErrInvalidTransition then Conflict (Error_text err)
          else Internal failure
      | Inr e \<Rightarrow> Respond 200 True (Some e) '''')"

definition handle_Close :: "('m reload_env_scheme) \<Rightarrow> string \<Rightarrow> db \<Rightarrow> Event response \<times> db" where
  "handle_Close env param d =
     (case parseID param of
        Inl err \<Rightarrow> (BadRequest (Error_text err), d)
      | Inr eid \<Rightarrow> map_prod (transition_response ''could not close event'') id (event_Close env eid d))"

definition handle_Cancel :: "('m reload_env_scheme) \<Rightarrow> string \<Rightarrow> db \<Rightarrow> Event response \<times> db" where
  "handle_Cancel env param d =
     (case parseID param of
        Inl err \<Rightarrow> (BadRequest (Error_text err), d)
      | Inr eid \<Rightarrow> map_prod (transition_response ''could not cancel event'') id (event_Cancel env eid d))"

section \<open>Creating events\<close>

lemma validate_create_Inr:
  assumes "validate_create maxWinners now req = Inr (title, description, wc)"
  shows "title = TrimSpace (ceTitle req)" "title \<noteq> ''''" "length title \<le> maxTitleLen"
    and "description = TrimSpace (ceDescription req)" "length description \<le> maxDescriptionLen"
    and "now \<le> ceDrawAt req" "\<not> IsZero (ceDrawAt req)"
    and "1 \<le> ceCapacity req" "1 \<le> wc" "wc \<le> ceCapacity req" "0 < maxWinners \<Longrightarrow> wc \<le> maxWinners"
    and "wc = max 1 (ceWinnerCount req)"
  using assms by (auto simp: validate_create_def Let_def split: if_splits)

lemma validate_create_Inl:
  "validate_create maxWinners now req = Inl err \<Longrightarrow> errors_Is err event_ErrInvalidInput"
  by (auto simp: validate_create_def Let_def invalid_input_def event_ErrInvalidInput_def split: if_splits)

lemma with_count_fields [simp]:
  "eID (with_count n e) = eID e" "eStatus (with_count n e) = eStatus e"
  "eCapacity (with_count n e) = eCapacity e" "eWinnerCount (with_count n e) = eWinnerCount e"
  "eTitle (with_count n e) = eTitle e" "eDescription (with_count n e) = eDescription e"
  "eDrawAt (with_count n e) = eDrawAt e" "eCreatedBy (with_count n e) = eCreatedBy e"
  "eBookingCount (with_count n e) = n" "event_row.truncate (with_count n e) = e"
  by (simp_all add: with_count_def event_row.defs Event.defs)

lemma stmt_ok_event_Create [intro, simp]: "stmt_ok (event_Create mw env req uid)"
  by (auto simp: event_Create_def split: sum.splits)

lemma event_Create_Inr:
  assumes "event_Create maxWinners env req uid d = (Inr ev, d')"
  obtains title description wc where
    "validate_create maxWinners (cvWallClock env) req = Inr (title, description, wc)"
    "insert_event (cvNow env) title description (ceCapacity req) (ceDrawAt req) wc uid d
       = (Inr (event_row.truncate ev), d')"
    "eBookingCount ev = 0"
  using assms
  by (auto simp: event_Create_def stmt_fail_def stmt_Inr stmt_return_def split: sum.splits)

lemma event_Create_Inl:
  assumes "event_Create maxWinners env req uid d = (Inl err, d')"
  shows "same_tables d d'"
  using assms
  by (auto simp: event_Create_def stmt_fail_def stmt_bind_def stmt_return_def on_error_def exec_def
      split: sum.splits prod.splits option.splits dest!: stmt_failed simp: seq_advance_def)

lemma event_Create_succeeds:
  assumes "validate_create maxWinners (cvWallClock env) req = Inr (title, description, wc)"
    and "cvFault env = no_faults" "is_int32 (ceCapacity req)" "uid \<in> user_ids d"
    and "text_ok title" "text_ok description"
  shows "\<exists>ev d'. event_Create maxWinners env req uid d = (Inr ev, d')"
proof -
  note v = validate_create_Inr[OF assms(1)]
  have "is_int32 wc" using v(9,10) assms(3) by (auto simp: is_int32_def)
  then have "\<exists>e d'. insert_event (cvNow env) title description (ceCapacity req) (ceDrawAt req) wc uid d = (Inr e, d')"
    using assms(3-6) v(8-10) by (auto simp: insert_event_def Let_def)
  then show ?thesis
    using assms(1,2) by (auto simp: event_Create_def stmt_bind_def on_error_def stmt_return_def)
qed

text \<open>
  A capacity that does not fit the column is not among the validated inputs: the driver
  refuses to encode it and the request ends in an internal error.
\<close>

lemma event_Create_too_large:
  assumes "validate_create maxWinners (cvWallClock env) req = Inr (title, description, wc)"
    and "cvFault env = no_faults" "max_int32 < ceCapacity req"
  shows "event_Create maxWinners env req uid d = (Inl (wrap ''inserting event'' encode_error), d)"
  using assms
  by (simp add: event_Create_def stmt_bind_def on_error_def insert_event_def is_int32_def)

section \<open>The status machine\<close>

definition status_edge :: "string \<Rightarrow> string \<Rightarrow> bool" where
  "status_edge a b \<longleftrightarrow> (a, b) \<in> {(EventStatusOpen, EventStatusClosed), (EventStatusOpen, EventStatusCancelled),
     (EventStatusClosed, EventStatusCancelled), (EventStatusClosed, EventStatusDrawn)}"

lemma status_edge_terminal [simp]:
  "\<not> status_edge EventStatusDrawn b" "\<not> status_edge EventStatusCancelled b"
  by (simp_all add: status_edge_def)

text \<open>A change of state that moves one event along the machine and touches nothing else.\<close>

definition status_change :: "instant \<Rightarrow> int \<Rightarrow> string \<Rightarrow> string \<Rightarrow> db \<Rightarrow> db \<Rightarrow> bool" where
  "status_change now eid a b d d' \<longleftrightarrow>
     (\<exists>e. select_event d eid = Some e \<and> eStatus e = a) \<and> status_edge a b \<and>
     d' = d\<lparr>tEvents := map (set_status now eid b) (tEvents d)\<rparr>"

lemma status_change_select:
  assumes "status_change now eid a b d d'"
  shows "\<exists>e. select_event d' eid = Some e \<and> eStatus e = b" and "tBookings d' = tBookings d"
proof -
  from assms obtain e where "select_event d eid = Some e"
    and d': "d' = d\<lparr>tEvents := map (set_status now eid b) (tEvents d)\<rparr>"
    by (auto simp: status_change_def)
  then have "select_event d' eid = Some (set_status now eid b e)" "eID e = eid"
    using select_event_SomeD by (simp_all add: select_event_set_status)
  then show "\<exists>e. select_event d' eid = Some e \<and> eStatus e = b" by simp
  show "tBookings d' = tBookings d" by (simp add: d')
qed

lemma lock_status_Inr:
  "lock_status f eid d = (Inr e, d') \<longleftrightarrow> f (Query 0) = None \<and> d' = d \<and> select_event d eid = Some e"
  by (simp add: lock_status_def query_row_Inr)

lemma Close_body_Inr:
  assumes "Close_body env eid d = (Inr x, d')"
  shows "(\<exists>e. select_event d eid = Some e \<and> eStatus e = EventStatusClosed \<and> d' = d) \<or>
    status_change (txNow env) eid EventStatusOpen EventStatusClosed d d'"
  using assms
  by (auto simp: Close_body_def stmt_Inr lock_status_Inr stmt_return_def stmt_fail_def status_change_def
      status_edge_def split: if_splits dest: update_event_status_done(1))

lemma Cancel_body_Inr:
  assumes "Cancel_body env eid d = (Inr x, d')"
  shows "(\<exists>e. select_event d eid = Some e \<and> eStatus e = EventStatusCancelled \<and> d' = d) \<or>
    (\<exists>a. status_change (txNow env) eid a EventStatusCancelled d d')"
  using assms
  by (auto simp: Cancel_body_def stmt_Inr lock_status_Inr stmt_return_def stmt_fail_def status_change_def
      status_edge_def split: if_splits dest: update_event_status_done(1))

lemma stmt_ok_lock_status [intro, simp]: "stmt_ok (lock_status f eid)"
  by (simp add: lock_status_def)

interpretation close_tx: transaction "Close_body env eid" for env eid
  by unfold_locales (auto simp: Close_body_def)

interpretation cancel_tx: transaction "Cancel_body env eid" for env eid
  by unfold_locales (auto simp: Cancel_body_def)

lemma then_reload_tx: "snd (then_reload env eid body d) = snd (with_tx env (wrap ''begin tx'') (wrap ''commit'') body d)"
  by (simp add: then_reload_def split: prod.splits sum.splits)

lemma event_Close_tables:
  assumes "event_Close env eid d = (res, d')"
  shows "same_tables d d' \<or> status_change (txNow env) eid EventStatusOpen EventStatusClosed d d'"
proof -
  obtain r where "with_tx env (wrap ''begin tx'') (wrap ''commit'') (Close_body env eid) d = (r, d')"
    using assms then_reload_tx[of env eid "Close_body env eid" d]
    by (simp add: event_Close_def prod_eq_iff)
  from with_tx_tables[OF this] show ?thesis by (auto dest!: Close_body_Inr)
qed

lemma event_Cancel_tables:
  assumes "event_Cancel env eid d = (res, d')"
  shows "same_tables d d' \<or> (\<exists>a. status_change (txNow env) eid a EventStatusCancelled d d')"
proof -
  obtain r where "with_tx env (wrap ''begin tx'') (wrap ''commit'') (Cancel_body env eid) d = (r, d')"
    using assms then_reload_tx[of env eid "Cancel_body env eid" d]
    by (simp add: event_Cancel_def prod_eq_iff)
  from with_tx_tables[OF this] show ?thesis by (auto dest!: Cancel_body_Inr)
qed

text \<open>What a successful \<^verbatim>\<open>Close\<close> or \<^verbatim>\<open>Cancel\<close> returns is the event in its new status.\<close>

lemma event_GetByID_Inr:
  "event_GetByID f c eid d = Inr ev \<longleftrightarrow>
   f c = None \<and> (\<exists>e. select_event d eid = Some e \<and> ev = with_count (count_bookings d eid) e)"
  by (auto simp: event_GetByID_def query_def split: option.splits)

text \<open>
  \<open>reloaded st\<close>: the transaction left the event in status \<open>st\<close>, and \<open>ev\<close> is what the second query
  found; it has that status as long as nobody changed the event in between.
\<close>

definition reloaded :: "('m reload_env_scheme) \<Rightarrow> int \<Rightarrow> string \<Rightarrow> db \<Rightarrow> Event \<Rightarrow> bool" where
  "reloaded env eid st d' ev \<longleftrightarrow>
     (\<exists>e e'. select_event d' eid = Some e \<and> eStatus e = st
        \<and> select_event (rvMeanwhile env d') eid = Some e'
        \<and> ev = with_count (count_bookings (rvMeanwhile env d') eid) e')"

lemma then_reload_Inr:
  assumes "then_reload env eid body d = (Inr ev, d')"
    and "\<And>x. body d = (Inr x, d') \<Longrightarrow> \<exists>e. select_event d' eid = Some e \<and> eStatus e = st"
  shows "reloaded env eid st d' ev"
proof -
  from assms(1) have "\<exists>x. body d = (Inr x, d')"
    and "event_GetByID (txFault env) (Query 1) eid (rvMeanwhile env d') = Inr ev"
    by (auto simp: then_reload_def with_tx_Inr split: prod.splits sum.splits)
  with assms(2) show ?thesis by (auto simp: reloaded_def event_GetByID_Inr)
qed

lemma event_Close_Inr:
  assumes "event_Close env eid d = (Inr ev, d')"
  shows "reloaded env eid EventStatusClosed d' ev"
  using assms unfolding event_Close_def
  by (rule then_reload_Inr) (metis Close_body_Inr status_change_select(1))

lemma event_Cancel_Inr:
  assumes "event_Cancel env eid d = (Inr ev, d')"
  shows "reloaded env eid EventStatusCancelled d' ev"
  using assms unfolding event_Cancel_def
  by (rule then_reload_Inr) (metis Cancel_body_Inr status_change_select(1))

lemma reloaded_id: "reloaded env eid st d' ev \<Longrightarrow> eID ev = eid"
  by (auto simp: reloaded_def dest: select_event_SomeD)

lemma reloaded_quiet: "reloaded env eid st d' ev \<Longrightarrow> rvMeanwhile env d' = d' \<Longrightarrow> eStatus ev = st"
  by (auto simp: reloaded_def)

text \<open>Which requests are refused, and how.\<close>

lemma lock_status_missing:
  "eid \<notin> event_ids d \<Longrightarrow> lock_status no_faults eid d = (Inl event_ErrEventNotFound, d)"
  by (simp add: lock_status_def on_error_def query_row_def stmt_read_def)

lemma lock_status_found:
  "select_event d eid = Some e \<Longrightarrow> lock_status no_faults eid d = (Inr e, d)"
  by (simp add: lock_status_Inr)

lemma event_Close_refused:
  assumes "txFault env = no_faults" "select_event d eid = Some e"
    and "eStatus e = EventStatusDrawn \<or> eStatus e = EventStatusCancelled"
  shows "event_Close env eid d = (Inl (Wrapf '''' ErrInvalidTransition
    ('': cannot close event in status '' @ Quote (eStatus e))), d)"
  using assms
  by (auto simp: event_Close_def then_reload_def with_tx_def Close_body_def stmt_bind_def lock_status_found
      stmt_fail_def rollback_def)

lemma event_Cancel_refused:
  assumes "txFault env = no_faults" "select_event d eid = Some e" "eStatus e = EventStatusDrawn"
  shows "event_Cancel env eid d = (Inl (Wrapf '''' ErrInvalidTransition
    ('': cannot cancel event in status '' @ Quote (eStatus e))), d)"
  using assms
  by (auto simp: event_Cancel_def then_reload_def with_tx_def Cancel_body_def stmt_bind_def lock_status_found
      stmt_fail_def rollback_def)

section \<open>Pages\<close>

lemma page_offset_exact:
  assumes "1 \<le> page" "page \<le> 92233720368547758" "1 \<le> limit" "limit \<le> 100"
  shows "page_offset page limit = (page - 1) * limit"
proof -
  have "(page - 1) * limit \<le> 92233720368547757 * 100"
    using assms by (intro mult_mono) auto
  moreover have "0 \<le> (page - 1) * limit" using assms by simp
  ultimately have "is_int64 ((page - 1) * limit)" by (simp add: is_int64_def)
  then show ?thesis using assms by (simp add: page_offset_def is_int64_def)
qed

lemma clamp_limit_range: "1 \<le> clamp_limit limit \<and> clamp_limit limit \<le> 100"
  by (simp add: clamp_limit_def)

lemma event_List_page:
  assumes "text_ok status" "1 \<le> page" "page \<le> 92233720368547758"
  shows "event_List no_faults tie status page limit d = Inr
    (map (\<lambda>e. with_count (count_bookings d (eID e)) e)
      (take (nat (clamp_limit limit))
        (drop (nat ((page - 1) * clamp_limit limit)) (order_by tie eDrawAt (matching_events status d)))),
     int (length (matching_events status d)))"
proof -
  have "\<not> (page - 1) * clamp_limit limit < 0"
    using assms(2) clamp_limit_range[of limit] by (simp add: not_less)
  then show ?thesis
    using assms clamp_limit_range[of limit]
    by (simp add: event_List_def clamp_page_def page_offset_exact select_page_def Let_def)
qed

lemma concat_pages: "concat (map (\<lambda>j. take n (drop (j * n) xs)) [0..<k]) = take (k * n) xs"
proof (induction k)
  case (Suc k)
  have "take (Suc k * n) xs = take (k * n) xs @ take n (drop (k * n) xs)"
    by (metis mult_Suc add.commute take_add)
  with Suc show ?case by simp
qed simp

text \<open>Page \<open>j\<close> of the list, counted from 0.\<close>

definition page_events ::
  "(event_row \<Rightarrow> nat) \<Rightarrow> string \<Rightarrow> int \<Rightarrow> db \<Rightarrow> nat \<Rightarrow> Event list" where
  "page_events tie status limit d j =
     (case event_List no_faults tie status (int j + 1) limit d of Inr (es, _) \<Rightarrow> es | Inl _ \<Rightarrow> [])"

lemma page_events_slice:
  assumes "text_ok status" "int j < 92233720368547758"
  shows "page_events tie status limit d j = map (\<lambda>e. with_count (count_bookings d (eID e)) e)
    (take (nat (clamp_limit limit)) (drop (j * nat (clamp_limit limit)) (order_by tie eDrawAt (matching_events status d))))"
proof -
  have "nat (int j * clamp_limit limit) = j * nat (clamp_limit limit)"
    using clamp_limit_range[of limit] by (simp add: nat_mult_distrib)
  then show ?thesis using assms by (simp add: page_events_def event_List_page)
qed

lemma order_by_times: "map k (order_by tie k xs) = sort (map k xs)"
  by (metis mset_map mset_order_by properties_for_sort sorted_order_by)

lemma pages_concat:
  assumes "text_ok status" "int k \<le> 92233720368547758"
    and "\<And>j. order_by (tie j) eDrawAt (matching_events status d) = rows"
  shows "concat (map (\<lambda>j. page_events (tie j) status limit d j) [0..<k]) =
    map (\<lambda>e. with_count (count_bookings d (eID e)) e) (take (k * nat (clamp_limit limit)) rows)"
proof -
  have "concat (map (\<lambda>j. page_events (tie j) status limit d j) [0..<k])
      = map (\<lambda>e. with_count (count_bookings d (eID e)) e)
          (concat (map (\<lambda>j. take (nat (clamp_limit limit)) (drop (j * nat (clamp_limit limit)) rows)) [0..<k]))"
    using assms by (auto simp: page_events_slice map_concat o_def intro!: arg_cong[where f = concat])
  then show ?thesis by (simp only: concat_pages)
qed

lemma pages_times:
  assumes "text_ok status" "int k \<le> 92233720368547758"
  shows "map eDrawAt (concat (map (\<lambda>j. page_events (tie j) status limit d j) [0..<k])) =
    take (k * nat (clamp_limit limit)) (sort (map eDrawAt (matching_events status d)))"
proof -
  have "map eDrawAt (page_events (tie j) status limit d j) = take (nat (clamp_limit limit))
      (drop (j * nat (clamp_limit limit)) (sort (map eDrawAt (matching_events status d))))" if "j < k" for j
    using that assms by (simp add: page_events_slice o_def take_map[symmetric] drop_map[symmetric] order_by_times)
  then have "map eDrawAt (concat (map (\<lambda>j. page_events (tie j) status limit d j) [0..<k])) =
      concat (map (\<lambda>j. take (nat (clamp_limit limit))
        (drop (j * nat (clamp_limit limit)) (sort (map eDrawAt (matching_events status d))))) [0..<k])"
    by (auto simp: map_concat o_def intro!: arg_cong[where f = concat])
  then show ?thesis by (simp only: concat_pages)
qed

text \<open>
  With equal times the pages need not fit together: two events with one draw time, listed one
  to a page, can give the same event twice and the other one never.
\<close>

lemma pages_tied_repeat:
  assumes "matching_events status d = [a, b]" "eDrawAt a = eDrawAt b" "a \<noteq> b" "text_ok status"
  shows "\<exists>tie :: nat \<Rightarrow> event_row \<Rightarrow> nat. page_events (tie 0) status 1 d 0 = page_events (tie 1) status 1 d 1 \<and> page_events (tie 0) status 1 d 0 \<noteq> []"
proof -
  let ?tie = "\<lambda>j :: nat. \<lambda>e. if (e = a) = (j = 0) then 0 else (1 :: nat)"
  have "order_by (?tie 0) eDrawAt [a, b] = [a, b]" "order_by (?tie 1) eDrawAt [a, b] = [b, a]"
    using assms(2,3) by (auto simp: order_by_def)
  then have "page_events (?tie 0) status 1 d 0 = page_events (?tie 1) status 1 d 1" "page_events (?tie 0) status 1 d 0 \<noteq> []"
    using assms(1,4) by (simp_all add: page_events_slice clamp_limit_def)
  then show ?thesis by (intro exI[of _ ?tie] conjI)
qed

text \<open>
  The handler passes on what \<^verbatim>\<open>Atoi\<close> returns even when it reports an error. For a page number
  beyond 64 bits that is the largest integer, and the offset wraps around: to a negative number
  for an even limit, and to a huge positive one for an odd limit.
\<close>

lemma page_offset_wraps:
  assumes "1 \<le> l" "l \<le> 100"
  shows "page_offset max_int64 l = (if even l then - 2 * l else 9223372036854775808 - 2 * l)"
proof -
  obtain q where q: "l = 2 * q \<or> l = 2 * q + 1" by (metis evenE oddE)
  then have "(max_int64 - 1) * l = q * 18446744073709551616 + (if even l then - 2 * l else 9223372036854775808 - 2 * l)"
    by auto
  moreover have "wrap64 (max_int64 - 1) = max_int64 - 1" by (simp add: wrap64_def)
  moreover have "wrap64 (q * 18446744073709551616 + x) = wrap64 x" for x
    using mod_mult_self2[of "x + 9223372036854775808" 18446744073709551616 q] by (simp add: wrap64_def ac_simps)
  moreover have "wrap64 (if even l then - 2 * l else 9223372036854775808 - 2 * l)
      = (if even l then - 2 * l else 9223372036854775808 - 2 * l)"
    using assms by (intro wrap64_id) (auto simp: is_int64_def)
  ultimately show ?thesis by (simp add: page_offset_def)
qed

section \<open>Properties\<close>

definition demo_request :: "int \<Rightarrow> int \<Rightarrow> CreateEventRequest" where
  "demo_request capacity winners = \<lparr>ceTitle = ''  Launch '', ceDescription = ''party'', ceCapacity = capacity,
     ceDrawAt = 5000, ceWinnerCount = winners\<rparr>"

definition demo_create :: create_env where
  "demo_create = \<lparr>cvFault = no_faults, cvWallClock = 4000, cvNow = 4000\<rparr>"

lemma demo_trim [simp]: "TrimSpace ''  Launch '' = ''Launch''" "TrimSpace ''party'' = ''party''"
  by (simp_all add: TrimSpace_def trim_words.simps space_encodings_def)

lemma demo_validate:
  "1 \<le> w \<Longrightarrow> w \<le> c \<Longrightarrow> validate_create 0 (cvWallClock demo_create) (demo_request c w) = Inr (''Launch'', ''party'', w)"
  by (simp add: validate_create_def demo_request_def demo_create_def maxTitleLen_def maxDescriptionLen_def
      IsZero_def zero_time_def Let_def)

text \<open>
  C23. What \<^verbatim>\<open>Create\<close> reports as created is stored that way and is what was asked for: an open event
  with a fresh id, both texts trimmed and within their limits, the capacity, the draw time to the
  microsecond, and the requested winner count, or 1 when less was requested, between 1, the
  capacity and the configured maximum. Every other table keeps its rows. A request that is refused
  changes no table.
\<close>

theorem Create_correct:
  shows "(\<forall>ev d'. event_Create maxWinners env req uid d = (Inr ev, d') \<longrightarrow>
      tEvents d' = tEvents d @ [event_row.truncate ev] \<and> eID ev = qEvents (tSeqs d) + 1 \<and>
      eStatus ev = EventStatusOpen \<and> eTitle ev = TrimSpace (ceTitle req) \<and> eTitle ev \<noteq> '''' \<and>
      length (eTitle ev) \<le> maxTitleLen \<and>
      eDescription ev = TrimSpace (ceDescription req) \<and> length (eDescription ev) \<le> maxDescriptionLen \<and>
      eCapacity ev = ceCapacity req \<and> is_int32 (eCapacity ev) \<and>
      eWinnerCount ev = max 1 (ceWinnerCount req) \<and> eWinnerCount ev \<le> eCapacity ev \<and>
      (0 < maxWinners \<longrightarrow> eWinnerCount ev \<le> maxWinners) \<and>
      cvWallClock env \<le> ceDrawAt req \<and> eDrawAt ev = Truncate_us (ceDrawAt req) \<and>
      eCreatedBy ev = uid \<and> uid \<in> user_ids d \<and> eBookingCount ev = 0 \<and>
      eCreatedAt ev = cvNow env \<and> eUpdatedAt ev = cvNow env \<and>
      tUsers d' = tUsers d \<and> tBookings d' = tBookings d \<and> tDraws d' = tDraws d \<and> tSeals d' = tSeals d) \<and>
    (\<forall>err d'. event_Create maxWinners env req uid d = (Inl err, d') \<longrightarrow> same_tables d d')"
proof (intro conjI allI impI)
  fix err d' assume "event_Create maxWinners env req uid d = (Inl err, d')"
  then show "same_tables d d'" by (rule event_Create_Inl)
next
  fix ev d' assume "event_Create maxWinners env req uid d = (Inr ev, d')"
  then obtain title description wc where
    v: "validate_create maxWinners (cvWallClock env) req = Inr (title, description, wc)"
    and ins: "insert_event (cvNow env) title description (ceCapacity req) (ceDrawAt req) wc uid d
       = (Inr (event_row.truncate ev), d')" and cnt: "eBookingCount ev = 0"
    by (rule event_Create_Inr)
  note i = insert_event_done[OF ins]
  have f: "eID (event_row.truncate ev) = eID ev" "eStatus (event_row.truncate ev) = eStatus ev"
    "eTitle (event_row.truncate ev) = eTitle ev" "eDescription (event_row.truncate ev) = eDescription ev"
    "eCapacity (event_row.truncate ev) = eCapacity ev" "eWinnerCount (event_row.truncate ev) = eWinnerCount ev"
    "eDrawAt (event_row.truncate ev) = eDrawAt ev" "eCreatedBy (event_row.truncate ev) = eCreatedBy ev"
    "eCreatedAt (event_row.truncate ev) = eCreatedAt ev" "eUpdatedAt (event_row.truncate ev) = eUpdatedAt ev"
    by (simp_all add: event_row.defs)
  note vi = validate_create_Inr[OF v]
  show "tEvents d' = tEvents d @ [event_row.truncate ev]" using i(2) by simp
  show "eID ev = qEvents (tSeqs d) + 1" "eStatus ev = EventStatusOpen" "eTitle ev = TrimSpace (ceTitle req)"
    "eTitle ev \<noteq> ''''" "length (eTitle ev) \<le> maxTitleLen" "eDescription ev = TrimSpace (ceDescription req)"
    "length (eDescription ev) \<le> maxDescriptionLen"
    "eCapacity ev = ceCapacity req" "is_int32 (eCapacity ev)" "eWinnerCount ev = max 1 (ceWinnerCount req)"
    "eWinnerCount ev \<le> eCapacity ev" "eDrawAt ev = Truncate_us (ceDrawAt req)" "eCreatedBy ev = uid"
    "eCreatedAt ev = cvNow env" "eUpdatedAt ev = cvNow env"
    unfolding f[symmetric] i(1) using vi i(4) by simp_all
  show "eWinnerCount ev \<le> maxWinners" if "0 < maxWinners"
    unfolding f(6)[symmetric] i(1) using vi(11) that by simp
  show "cvWallClock env \<le> ceDrawAt req" "uid \<in> user_ids d" "eBookingCount ev = 0"
    using vi(6) i(7) cnt by simp_all
  show "tUsers d' = tUsers d" "tBookings d' = tBookings d" "tDraws d' = tDraws d" "tSeals d' = tSeals d"
    by (simp_all add: i(2))
qed

theorem Create_correct_witness:
  "\<exists>ev d'. event_Create 0 demo_create (demo_request 10 2) 1 demo_db = (Inr ev, d') \<and>
     eStatus ev = EventStatusOpen \<and> eTitle ev = ''Launch'' \<and> eDescription ev = ''party'' \<and> eWinnerCount ev = 2"
proof -
  have "\<exists>ev d'. event_Create 0 demo_create (demo_request 10 2) 1 demo_db = (Inr ev, d')"
    by (rule event_Create_succeeds[OF demo_validate])
      (simp_all add: demo_create_def demo_request_def is_int32_def text_ok_def)
  then obtain ev d' where run: "event_Create 0 demo_create (demo_request 10 2) 1 demo_db = (Inr ev, d')" by blast
  with Create_correct[of 0 demo_create "demo_request 10 2" 1 demo_db] show ?thesis
    by (auto simp: demo_request_def)
qed

definition demo_reload :: reload_env where
  "demo_reload = \<lparr>txFault = no_faults, txCommit = CommitOk, txNow = 2000, rvMeanwhile = (\<lambda>d. d)\<rparr>"

lemma demo_reload_simps [simp]:
  "txFault demo_reload = no_faults" "txCommit demo_reload = CommitOk" "txNow demo_reload = 2000" "rvMeanwhile demo_reload d = d"
  by (simp_all add: demo_reload_def)

text \<open>
  C15. \<^verbatim>\<open>Close\<close> and \<^verbatim>\<open>Cancel\<close> follow the status machine: each either changes no table or moves this
  one event along an edge (open to closed; open or closed to cancelled). What they return is
  the event as it is read again after the commit: in the new status, unless another request
  has changed it in between. A drawn event is never moved.
\<close>

theorem Close_Cancel_machine:
  shows "(\<forall>res d'. event_Close env eid d = (res, d') \<longrightarrow>
      (same_tables d d' \<or> status_change (txNow env) eid EventStatusOpen EventStatusClosed d d') \<and>
      (\<forall>ev. res = Inr ev \<longrightarrow> eID ev = eid \<and> reloaded env eid EventStatusClosed d' ev \<and>
         (rvMeanwhile env d' = d' \<longrightarrow> eStatus ev = EventStatusClosed))) \<and>
    (\<forall>res d'. event_Cancel env eid d = (res, d') \<longrightarrow>
      (same_tables d d' \<or> status_change (txNow env) eid EventStatusOpen EventStatusCancelled d d' \<or>
       status_change (txNow env) eid EventStatusClosed EventStatusCancelled d d') \<and>
      (\<forall>ev. res = Inr ev \<longrightarrow> eID ev = eid \<and> reloaded env eid EventStatusCancelled d' ev \<and>
         (rvMeanwhile env d' = d' \<longrightarrow> eStatus ev = EventStatusCancelled)))"
proof (intro conjI allI impI)
  fix res d'
  assume "event_Close env eid d = (res, d')"
  then show "same_tables d d' \<or> status_change (txNow env) eid EventStatusOpen EventStatusClosed d d'"
    by (rule event_Close_tables)
next
  fix res d' ev
  assume "event_Close env eid d = (res, d')" "res = Inr ev"
  then show r: "reloaded env eid EventStatusClosed d' ev" using event_Close_Inr by blast
  then show "eID ev = eid" by (rule reloaded_id)
  show "eStatus ev = EventStatusClosed" if "rvMeanwhile env d' = d'" using r that by (rule reloaded_quiet)
next
  fix res d'
  assume "event_Cancel env eid d = (res, d')"
  then show "same_tables d d' \<or> status_change (txNow env) eid EventStatusOpen EventStatusCancelled d d' \<or>
      status_change (txNow env) eid EventStatusClosed EventStatusCancelled d d'"
    using event_Cancel_tables by (fastforce simp: status_change_def status_edge_def)
next
  fix res d' ev
  assume "event_Cancel env eid d = (res, d')" "res = Inr ev"
  then show r: "reloaded env eid EventStatusCancelled d' ev" using event_Cancel_Inr by blast
  then show "eID ev = eid" by (rule reloaded_id)
  show "eStatus ev = EventStatusCancelled" if "rvMeanwhile env d' = d'" using r that by (rule reloaded_quiet)
qed

theorem Close_Cancel_machine_witness:
  "\<exists>ev d'. event_Close demo_reload 1 demo_db = (Inr ev, d') \<and> eStatus ev = EventStatusClosed"
proof -
  have "\<exists>ev d'. event_Close demo_reload 1 demo_db = (Inr ev, d')"
    by (simp add: event_Close_def then_reload_def with_tx_def Close_body_def stmt_bind_def lock_status_found
        on_error_def update_event_status_def forbid_drawn_event_change_def statuses_def event_GetByID_def
        select_event_set_status select_event_def demo_defs)
  with Close_Cancel_machine[of demo_reload 1 demo_db] show ?thesis by auto
qed

text \<open>
  C38. The pages of the event list fit together, in a database that does not change between the
  queries. Whatever order each query gives to events with the same draw time, the draw times
  shown on the first \<open>k\<close> pages are the earliest ones, in order; and when no two matching events
  have the same draw time, the pages one after the other are exactly the matching events in
  order, none skipped or repeated.
\<close>

theorem List_pages:
  assumes "text_ok status" "int k \<le> 92233720368547758"
  shows "map eDrawAt (concat (map (\<lambda>j. page_events (tie j) status limit d j) [0..<k]))
      = take (k * nat (clamp_limit limit)) (sort (map eDrawAt (matching_events status d)))
    \<and> (distinct (map eDrawAt (matching_events status d)) \<longrightarrow>
        concat (map (\<lambda>j. page_events (tie j) status limit d j) [0..<k]) =
        map (\<lambda>e. with_count (count_bookings d (eID e)) e)
          (take (k * nat (clamp_limit limit)) (sort_key eDrawAt (matching_events status d))))"
  using pages_times[OF assms] pages_concat[OF assms order_by_distinct] by blast

definition demo_list_db :: db where
  "demo_list_db = demo_db\<lparr>tEvents := [(demo_event 1 3 EventStatusOpen)\<lparr>eDrawAt := 9\<rparr>, (demo_event 2 3 EventStatusOpen)\<lparr>eDrawAt := 4\<rparr>,
     (demo_event 3 3 EventStatusOpen)\<lparr>eDrawAt := 7\<rparr>]\<rparr>"

theorem List_pages_witness:
  "map eID (concat (map (\<lambda>j. page_events (\<lambda>e. if even j then 0 else nat (eID e)) '''' 2 demo_list_db j) [0..<2])) = [2, 3, 1]"
proof -
  have rows: "matching_events '''' demo_list_db = [(demo_event 1 3 EventStatusOpen)\<lparr>eDrawAt := 9\<rparr>,
      (demo_event 2 3 EventStatusOpen)\<lparr>eDrawAt := 4\<rparr>, (demo_event 3 3 EventStatusOpen)\<lparr>eDrawAt := 7\<rparr>]"
    by (simp add: matching_events_def demo_list_db_def)
  have "distinct (map eDrawAt (matching_events '''' demo_list_db))" by (simp add: rows)
  with List_pages[of "''''" 2 "\<lambda>j e. if even j then 0 else nat (eID e)" 2 demo_list_db] show ?thesis
    by (simp add: text_ok_def clamp_limit_def rows demo_event_def o_def)
qed

text \<open>
  C40. A page past the end of the list is answered 200 with no events, up to a page number of
  92233720368547758. For a number that does not fit into 64 bits \<^verbatim>\<open>Atoi\<close> saturates, its error is
  dropped, and the offset wraps around: with an even limit, as the default of 20, it is negative
  and the answer is 500; with an odd limit it is positive, and the answer is the empty page.
\<close>

theorem List_huge_page_fails:
  assumes "text_ok status" and "int (length (matching_events status d)) \<le> 4611686018427387904"
  shows "let l = clamp_limit (fst (Atoi limitParam)); total = int (length (matching_events status d)) in
    (\<forall>p. 1 \<le> p \<and> p \<le> 92233720368547758 \<and> total \<le> (p - 1) * l \<longrightarrow>
       handle_List no_faults tie status (FormatInt p) limitParam d
         = RespondMeta 200 [] \<lparr>metaTotal = total, metaPage = p, metaLimit = l\<rparr>) \<and>
    (\<forall>ds. (\<forall>c \<in> set ds. is_digit c) \<and> 9223372036854775807 \<le> dec_val ds \<longrightarrow>
       handle_List no_faults tie status ds limitParam d
         = (if even l then Internal ''failed to list events''
            else RespondMeta 200 [] \<lparr>metaTotal = total, metaPage = max_int64, metaLimit = l\<rparr>))"
proof -
  let ?l = "clamp_limit (fst (Atoi limitParam))" and ?total = "int (length (matching_events status d))"
  have l: "clamp_limit ?l = ?l" "1 \<le> ?l" "?l \<le> 100" by (simp_all add: clamp_limit_def)
  have "handle_List no_faults tie status (FormatInt p) limitParam d
      = RespondMeta 200 [] \<lparr>metaTotal = ?total, metaPage = p, metaLimit = ?l\<rparr>"
    if "1 \<le> p" "p \<le> 92233720368547758" "?total \<le> (p - 1) * ?l" for p
  proof -
    have "fst (Atoi (FormatInt p)) = p" using that by (simp add: Atoi_def ParseInt_FormatInt is_int64_def)
    moreover have "length (order_by tie eDrawAt (matching_events status d)) \<le> nat ((p - 1) * ?l)"
      using that(3) by simp
    ultimately show ?thesis
      using that assms(1) by (simp add: handle_List_def event_List_page clamp_page_def Let_def)
  qed
  moreover have "handle_List no_faults tie status ds limitParam d
      = (if even ?l then Internal ''failed to list events''
         else RespondMeta 200 [] \<lparr>metaTotal = ?total, metaPage = max_int64, metaLimit = ?l\<rparr>)"
    if "\<forall>c \<in> set ds. is_digit c" "9223372036854775807 \<le> dec_val ds" for ds
  proof -
    have ds: "fst (Atoi ds) = max_int64" using that by (rule Atoi_large)
    have "length (matching_events status d) \<le> nat (9223372036854775808 - 2 * ?l)" using assms(2) l by linarith
    then show ?thesis
      using assms(1) l page_offset_wraps[OF l(2,3)]
      by (simp add: handle_List_def ds event_List_def select_page_def clamp_page_def Let_def)
  qed
  ultimately show ?thesis by (simp add: Let_def)
qed

theorem List_huge_page_fails_witness:
  "rsStatus (handle_List no_faults (\<lambda>_. 0) ''open'' ''99999999999999999999'' '''' demo_db) = 500
   \<and> rsData (handle_List no_faults (\<lambda>_. 0) ''open'' ''99999999999999999999'' ''3'' demo_db) = Some []"
proof -
  have "text_ok ''open''" "int (length (matching_events ''open'' demo_db)) \<le> 4611686018427387904"
    by (simp_all add: text_ok_def matching_events_def demo_db_def)
  note huge = List_huge_page_fails[OF this]
  have ds: "(\<forall>c \<in> set ''99999999999999999999''. is_digit c) \<and> 9223372036854775807 \<le> dec_val ''99999999999999999999''"
    by (simp add: is_digit_def dec_val_def digit_val_def)
  have "clamp_limit (fst (Atoi '''')) = 20" "clamp_limit (fst (Atoi ''3'')) = 3"
    by (simp_all add: clamp_limit_def Atoi_def ParseInt_def ParseUint_def is_digit_def digit_val_def)
  with huge[of "''''"] huge[of "''3''"] ds show ?thesis
    by (simp add: Let_def response_defs del: set_simps)
qed

end
