(* ===== verification/Sha256.thy ===== *)
theory Sha256
  imports Prelude
begin

text \<open>
  SHA-256 as \<^verbatim>\<open>crypto/sha256.Sum256\<close> computes it, on byte lists with 32-bit words, and the
  lower-case hexadecimal text of \<^verbatim>\<open>encoding/hex.EncodeToString\<close>.
\<close>

unbundle bit_operations_syntax

type_synonym word32 = "32 word"

text \<open>
  The tables of constants are derived as the standard derives them: the first 32 bits of the
  fractional parts of the cube roots of the first 64 primes, and of the square roots of the first
  eight.  \<open>root_bits k b r n\<close> completes \<open>r\<close> to the integer \<open>k\<close>-th root of \<open>n\<close>, one bit at a time.
\<close>

fun root_bits :: "nat \<Rightarrow> nat \<Rightarrow> int \<Rightarrow> int \<Rightarrow> int" where
  "root_bits k 0 r n = r"
| "root_bits k (Suc b) r n = root_bits k b (if (r + 2 ^ b) ^ k \<le> n then r + 2 ^ b else r) n"

lemma root_bits_correct:
  assumes "r ^ k \<le> n" "n < (r + 2 ^ b) ^ k"
  shows "root_bits k b r n ^ k \<le> n \<and> n < (root_bits k b r n + 1) ^ k"
  using assms
proof (induction b arbitrary: r)
  case (Suc b)
  have "n < (r + 2 ^ b + 2 ^ b) ^ k"
    using Suc.prems(2) by (simp add: algebra_simps)
  then show ?case
    using Suc.IH[of r] Suc.IH[of "r + 2 ^ b"] Suc.prems(1) by simp
qed simp

definition trial_prime :: "int \<Rightarrow> bool" where
  "trial_prime n = list_all (\<lambda>d. n mod d \<noteq> 0) [2..n - 1]"

definition first_primes :: "int list" where
  "first_primes = filter trial_prime [2..311]"

definition root_fraction :: "nat \<Rightarrow> int \<Rightarrow> word32" where
  "root_fraction k p = of_int (root_bits k 37 0 (p * 2 ^ (32 * k)))"

definition sha_K :: "word32 list" where
  "sha_K = map (root_fraction 3) first_primes"

definition sha_H0 :: "word32 list" where
  "sha_H0 = map (root_fraction 2) (take 8 first_primes)"

definition rotr :: "nat \<Rightarrow> word32 \<Rightarrow> word32" where
  "rotr n x = drop_bit n x OR push_bit (32 - n) x"

definition small_sigma0 :: "word32 \<Rightarrow> word32" where
  "small_sigma0 x = rotr 7 x XOR rotr 18 x XOR drop_bit 3 x"

definition small_sigma1 :: "word32 \<Rightarrow> word32" where
  "small_sigma1 x = rotr 17 x XOR rotr 19 x XOR drop_bit 10 x"

definition big_sigma0 :: "word32 \<Rightarrow> word32" where
  "big_sigma0 x = rotr 2 x XOR rotr 13 x XOR rotr 22 x"

definition big_sigma1 :: "word32 \<Rightarrow> word32" where
  "big_sigma1 x = rotr 6 x XOR rotr 11 x XOR rotr 25 x"

text \<open>Message schedule: \<open>ws\<close> holds the last sixteen words, oldest first.\<close>

fun schedule :: "nat \<Rightarrow> word32 list \<Rightarrow> word32 list" where
  "schedule 0 ws = []"
| "schedule (Suc n) ws =
     hd ws # schedule n (tl ws @ [small_sigma1 (ws ! 14) + ws ! 9 + small_sigma0 (ws ! 1) + ws ! 0])"

fun sha_rounds :: "(word32 \<times> word32) list \<Rightarrow> word32 list \<Rightarrow> word32 list" where
  "sha_rounds [] h = h"
| "sha_rounds ((k, w) # kws) [a, b, c, d, e, f, g, h] =
     (let t1 = h + big_sigma1 e + ((e AND f) XOR (NOT e AND g)) + k + w;
          t2 = big_sigma0 a + ((a AND b) XOR (a AND c) XOR (b AND c))
      in sha_rounds kws [t1 + t2, a, b, c, d + t1, e, f, g])"
| "sha_rounds _ h = h"

definition be_word :: "byte list \<Rightarrow> word32" where
  "be_word bs = foldl (\<lambda>w b. push_bit 8 w OR ucast b) 0 bs"

fun chunks :: "nat \<Rightarrow> nat \<Rightarrow> 'a list \<Rightarrow> 'a list list" where
  "chunks 0 k xs = []"
| "chunks (Suc n) k xs = take k xs # chunks n k (drop k xs)"

definition sha_block :: "word32 list \<Rightarrow> byte list \<Rightarrow> word32 list" where
  "sha_block h block =
     map2 (+) h (sha_rounds (zip sha_K (schedule 64 (map be_word (chunks 16 4 block)))) h)"

definition be_bytes32 :: "word32 \<Rightarrow> byte list" where
  "be_bytes32 w = [ucast (drop_bit 24 w), ucast (drop_bit 16 w), ucast (drop_bit 8 w), ucast w]"

definition be_bytes64 :: "64 word \<Rightarrow> byte list" where
  "be_bytes64 w = be_bytes32 (ucast (drop_bit 32 w)) @ be_bytes32 (ucast w)"

definition sha_pad :: "byte list \<Rightarrow> byte list" where
  "sha_pad msg =
     msg @ [0x80] @ replicate ((119 - length msg mod 64) mod 64) 0
     @ be_bytes64 (of_nat (8 * length msg))"

definition Sum256 :: "byte list \<Rightarrow> byte list" where
  "Sum256 msg =
     (let p = sha_pad msg;
          h = foldl sha_block sha_H0 (chunks (length p div 64) 64 p)
      in concat (map be_bytes32 h))"

section \<open>Text\<close>

definition bytes_of :: "string \<Rightarrow> byte list" where
  "bytes_of s = map (\<lambda>c. of_nat (of_char c)) s"

definition hex_digit :: "nat \<Rightarrow> char" where
  "hex_digit n = ''0123456789abcdef'' ! n"

definition hex_EncodeToString :: "byte list \<Rightarrow> string" where
  "hex_EncodeToString bs = concat (map (\<lambda>b. [hex_digit (unat b div 16), hex_digit (unat b mod 16)]) bs)"

lemma bytes_of_inj: "bytes_of s = bytes_of t \<Longrightarrow> s = t"
proof -
  have "inj (\<lambda>c. of_nat (of_char c) :: byte)"
  proof (rule injI)
    fix c d :: char
    assume "(of_nat (of_char c) :: byte) = of_nat (of_char d)"
    then have "unat (of_nat (of_char c) :: byte) = unat (of_nat (of_char d) :: byte)" by simp
    then have "of_char c = (of_char d :: nat)"
      by (simp add: unsigned_of_nat take_bit_nat_eq_self)
    then show "c = d" by simp
  qed
  then show "bytes_of s = bytes_of t \<Longrightarrow> s = t"
    by (simp add: bytes_of_def inj_map_eq_map)
qed

lemma hex_digit_inj: "m < 16 \<Longrightarrow> n < 16 \<Longrightarrow> hex_digit m = hex_digit n \<Longrightarrow> m = n"
  unfolding hex_digit_def by (rule nth_eq_iff_index_eq[THEN iffD1, of "''0123456789abcdef''"]) simp_all

lemma hex_inj: "hex_EncodeToString xs = hex_EncodeToString ys \<Longrightarrow> xs = ys"
proof (induction xs arbitrary: ys)
  case Nil
  then show ?case by (cases ys) (simp_all add: hex_EncodeToString_def)
next
  case (Cons x xs)
  then obtain y zs where ys: "ys = y # zs" by (cases ys) (auto simp: hex_EncodeToString_def)
  have bound: "unat b div 16 < 16" "unat b mod 16 < 16" for b :: byte
    using unsigned_less[of b, where 'a = nat] by simp_all
  from Cons.prems ys have "hex_digit (unat x div 16) = hex_digit (unat y div 16)"
    "hex_digit (unat x mod 16) = hex_digit (unat y mod 16)"
    and rest: "hex_EncodeToString xs = hex_EncodeToString zs"
    by (simp_all add: hex_EncodeToString_def)
  then have "unat x div 16 = unat y div 16" "unat x mod 16 = unat y mod 16"
    using bound hex_digit_inj by blast+
  then have "unat x = unat y" by (metis div_mult_mod_eq)
  with Cons.IH[OF rest] ys show ?case by (simp add: word_unat_eq_iff)
qed

end
