(* ===== verification/Redis_Lock.thy ===== *)
theory Redis_Lock
  imports Go_Time Sha256
begin

text \<open>
  The second layer of internal/booking/service.go: an owner-safe lock in Redis. The server is
  a parameter with the documented behaviour of \<^verbatim>\<open>SET NX PX\<close>, \<^verbatim>\<open>GET\<close> and \<^verbatim>\<open>DEL\<close> as its laws; the
  release script, the acquisition loop with its jittered backoff and the tokens are the
  code's. Shown here: the loop ends within the wait budget, at most one client holds a lock
  that has not expired, and a late release never removes another client's lock.
\<close>

section \<open>The server\<close>

record 's redis_api =
  rdSetNX :: "'s \<Rightarrow> instant \<Rightarrow> string \<Rightarrow> string \<Rightarrow> duration \<Rightarrow> bool \<times> 's"
  rdGet :: "'s \<Rightarrow> instant \<Rightarrow> string \<Rightarrow> string option"
  rdDel :: "'s \<Rightarrow> instant \<Rightarrow> string \<Rightarrow> 's"

locale redis_server =
  fixes api :: "'s redis_api"
  assumes setnx_taken: "rdGet api s t k = Some w \<Longrightarrow> rdSetNX api s t k v ttl = (False, s)"
    and setnx_free: "rdGet api s t k = None \<Longrightarrow> fst (rdSetNX api s t k v ttl)"
    and setnx_get: "rdGet api s t k = None \<Longrightarrow> t \<le> t' \<Longrightarrow>
      rdGet api (snd (rdSetNX api s t k v ttl)) t' k' =
        (if k' = k then if t' < t + ttl then Some v else None else rdGet api s t' k')"
    and del_get: "t \<le> t' \<Longrightarrow> rdGet api (rdDel api s t k) t' k' = (if k' = k then None else rdGet api s t' k')"
    and get_earlier: "t \<le> t' \<Longrightarrow> rdGet api s t' k = Some v \<Longrightarrow> rdGet api s t k = Some v"

section \<open>The code\<close>

definition ErrEventBusy :: error where
  "ErrEventBusy = New ''booking.ErrEventBusy'' ''event is busy, please retry''"

definition lockKey :: "int \<Rightarrow> string" where
  "lockKey eventID = ''lock:booking:event:'' @ FormatInt eventID"

text \<open>\<^verbatim>\<open>newToken\<close>: 16 bytes of \<^verbatim>\<open>crypto/rand\<close> in hexadecimal.\<close>

definition newToken :: "byte list \<Rightarrow> error + string \<times> byte list" where
  "newToken r =
     (if length r < 16 then Inl io_ErrUnexpectedEOF
      else Inr (hex_EncodeToString (take 16 r), drop 16 r))"

definition luaReleaseLock :: "'s redis_api \<Rightarrow> 's \<Rightarrow> instant \<Rightarrow> string \<Rightarrow> string \<Rightarrow> int \<times> 's" where
  "luaReleaseLock api s t key token =
     (if rdGet api s t key = Some token then (1, rdDel api s t key) else (0, s))"

text \<open>
  What one round of the loop meets: the time the call takes, a failure of the call (which may
  or may not have reached the server), the random part of the pause, what other clients do
  meanwhile, and which case \<^verbatim>\<open>select\<close> takes should both become ready at one instant.
\<close>

record 's attempt =
  atElapsed :: duration
  atFault :: "(error \<times> bool) option"
  atJitter :: duration
  atOthers :: "'s \<Rightarrow> 's"
  atPreferDone :: bool

definition next_backoff :: "duration \<Rightarrow> duration" where
  "next_backoff b = (if b < 50 * Millisecond then b * 2 else b)"

text \<open>
  The loop of \<^verbatim>\<open>acquireRedisLock\<close>: \<open>doneAt\<close> is when \<^verbatim>\<open>waitCtx\<close> is done. The result carries the
  instant of the return and the server's state; \<open>None\<close> is running out of fuel.
\<close>

fun acquire_loop ::
  "'s redis_api \<Rightarrow> (nat \<Rightarrow> 's attempt) \<Rightarrow> duration \<Rightarrow> instant \<Rightarrow> string \<Rightarrow> string \<Rightarrow>
   nat \<Rightarrow> nat \<Rightarrow> duration \<Rightarrow> instant \<Rightarrow> 's \<Rightarrow> ((error + unit) \<times> instant \<times> 's) option" where
  "acquire_loop api env ttl doneAt key token 0 i backoff now s = None"
| "acquire_loop api env ttl doneAt key token (Suc n) i backoff now s =
     (let a = env i; now1 = now + atElapsed a in
      case atFault a of
        Some (err, applied) \<Rightarrow>
          Some (Inl (wrap ''redis lock acquisition failed'' err), now1,
            if applied then snd (rdSetNX api s now key token ttl) else s)
      | None \<Rightarrow>
          let (acquired, s1) = rdSetNX api s now key token ttl in
          if acquired then Some (Inr (), now1, s1)
          else
            let fire = now1 + (backoff div 2 + atJitter a) in
            if doneAt < fire \<or> (doneAt = fire \<and> atPreferDone a)
            then Some (Inl ErrEventBusy, max now1 doneAt, s1)
            else acquire_loop api env ttl doneAt key token n (Suc i) (next_backoff backoff) fire
              (atOthers a s1))"

definition acquireRedisLock ::
  "'s redis_api \<Rightarrow> (nat \<Rightarrow> 's attempt) \<Rightarrow> duration \<Rightarrow> instant \<Rightarrow> string \<Rightarrow> string \<Rightarrow>
   nat \<Rightarrow> instant \<Rightarrow> 's \<Rightarrow> ((error + unit) \<times> instant \<times> 's) option" where
  "acquireRedisLock api env ttl doneAt key token fuel now s =
     acquire_loop api env ttl doneAt key token fuel 0 (2 * Millisecond) now s"

lemma lockKey_inj: "lockKey a = lockKey b \<Longrightarrow> a = b"
  by (simp add: lockKey_def FormatInt_inj)

section \<open>The loop ends in time\<close>

text \<open>
  A pause is at least half the backoff, hence at least a millisecond, and \<^verbatim>\<open>rand.Int63n\<close> keeps
  the random part between 0 and the backoff.
\<close>

definition env_ok :: "(nat \<Rightarrow> 's attempt) \<Rightarrow> bool" where
  "env_ok env \<longleftrightarrow> (\<forall>i. 0 \<le> atElapsed (env i) \<and> atElapsed (env i) \<le> Second \<and> 0 \<le> atJitter (env i))"

definition backoffs :: "duration set" where
  "backoffs = (\<lambda>k. 2 * Millisecond * 2 ^ k) ` {0..5::nat}"

lemma backoffs_unfold:
  "backoffs = {2 * Millisecond, 4 * Millisecond, 8 * Millisecond, 16 * Millisecond, 32 * Millisecond, 64 * Millisecond}"
proof -
  have "{0..5::nat} = {0, 1, 2, 3, 4, 5}" by auto
  then show ?thesis by (simp add: backoffs_def)
qed

lemma next_backoff_range: "b \<in> backoffs \<Longrightarrow> next_backoff b \<in> backoffs"
  by (auto simp: backoffs_unfold next_backoff_def Millisecond_def)

lemma backoffs_range: "b \<in> backoffs \<Longrightarrow> 2 * Millisecond \<le> b \<and> b \<le> 64 * Millisecond"
  by (auto simp: backoffs_unfold Millisecond_def)

lemma acquire_loop_terminates:
  assumes "env_ok env" "b \<in> backoffs" "doneAt - now < int n * Millisecond" "0 < n"
  shows "\<exists>r. acquire_loop api env ttl doneAt key token n i b now s = Some r"
  using assms(2-4)
proof (induction n arbitrary: i b now s)
  case (Suc n)
  let ?a = "env i"
  let ?fire = "now + atElapsed ?a + (b div 2 + atJitter ?a)"
  obtain acquired s1 where sx: "rdSetNX api s now key token ttl = (acquired, s1)" by fastforce
  have "Millisecond \<le> b div 2"
    using backoffs_range[OF Suc.prems(1)] int_div_bounds[of 2 b] unfolding Millisecond_def by linarith
  then have fire: "now + Millisecond \<le> ?fire"
    using assms(1) by (auto simp: env_ok_def) (smt (verit))
  show ?case
  proof (cases "atFault ?a = None \<and> \<not> acquired \<and> \<not> (doneAt < ?fire \<or> doneAt = ?fire \<and> atPreferDone ?a)")
    case True
    then have "?fire \<le> doneAt" by auto
    with fire Suc.prems(2) have "doneAt - ?fire < int n * Millisecond" by (simp add: algebra_simps)
    moreover have "0 < n"
      using \<open>?fire \<le> doneAt\<close> fire Suc.prems(2) by (cases n) (auto simp: Millisecond_def)
    ultimately have "\<exists>r. acquire_loop api env ttl doneAt key token n (Suc i) (next_backoff b) ?fire
        (atOthers ?a s1) = Some r"
      using Suc.IH next_backoff_range[OF Suc.prems(1)] by blast
    with True sx show ?thesis by (auto simp: Let_def)
  next
    case False
    with sx show ?thesis by (auto simp: Let_def split: option.splits prod.splits)
  qed
qed simp

text \<open>
  When it returns: a call that starts in time ends at most a second later, so the whole wait
  is over a second after the budget.
\<close>

lemma acquire_loop_time:
  assumes "env_ok env" "b \<in> backoffs"
    and "acquire_loop api env ttl doneAt key token n i b now s = Some (res, t, s')"
  shows "now \<le> t \<and> t \<le> max now doneAt + Second"
  using assms(2,3)
proof (induction n arbitrary: i b now s)
  case (Suc n)
  let ?a = "env i"
  let ?fire = "now + atElapsed ?a + (b div 2 + atJitter ?a)"
  obtain acquired s1 where sx: "rdSetNX api s now key token ttl = (acquired, s1)" by fastforce
  have el: "0 \<le> atElapsed ?a" "atElapsed ?a \<le> Second" "0 \<le> atJitter ?a"
    using assms(1) by (auto simp: env_ok_def)
  have b: "0 \<le> b div 2" using backoffs_range[OF Suc.prems(1)] by (simp add: Millisecond_def)
  show ?case
  proof (cases "atFault ?a = None \<and> \<not> acquired \<and> \<not> (doneAt < ?fire \<or> doneAt = ?fire \<and> atPreferDone ?a)")
    case True
    then have rec: "acquire_loop api env ttl doneAt key token n (Suc i) (next_backoff b) ?fire
        (atOthers ?a s1) = Some (res, t, s')"
      using Suc.prems(2) sx by (auto simp: Let_def)
    from True have "?fire \<le> doneAt" by auto
    with Suc.IH[OF next_backoff_range[OF Suc.prems(1)] rec] el b show ?thesis by linarith
  next
    case False
    with Suc.prems(2) sx have "t = now + atElapsed ?a \<or> t = max (now + atElapsed ?a) doneAt"
      by (auto simp: Let_def split: option.splits prod.splits if_splits)
    with el show ?thesis by (auto simp: Second_def max_def)
  qed
qed simp

text \<open>The only errors are the retryable one and a wrapped failure of the server.\<close>

lemma acquire_loop_result:
  assumes "acquire_loop api env ttl doneAt key token n i b now s = Some (Inl err, t, s')"
  shows "err = ErrEventBusy \<or> (\<exists>e j. err = wrap ''redis lock acquisition failed'' e \<and>
    (\<exists>ap. atFault (env j) = Some (e, ap)))"
  using assms
  by (induction n arbitrary: i b now s)
    (auto simp: Let_def split: option.splits prod.splits if_splits)

section \<open>Clients over the server\<close>

text \<open>
  The lock of one key with any number of clients, on any replica. A client holds the lock from
  its successful \<^verbatim>\<open>SET NX\<close> until its release; the server may drop it earlier, at the expiry
  recorded here. A token takes the lock at most once: it is 128 random bits, and a client whose
  attempt was refused tries again with the same one. A call whose reply
  was lost may have set the key for a client that does not know it.
\<close>

record 's lock_sys =
  lsStore :: 's
  lsNow :: instant
  lsHolds :: "nat \<rightharpoonup> string \<times> instant"
  lsUsed :: "string set"

inductive lock_step ::
  "'s redis_api \<Rightarrow> string \<Rightarrow> duration \<Rightarrow> 's lock_sys \<Rightarrow> 's lock_sys \<Rightarrow> bool"
  for api :: "'s redis_api" and key :: string and ttl :: duration where
  acquire: "token \<notin> lsUsed y \<Longrightarrow> lsHolds y c = None \<Longrightarrow>
    rdSetNX api (lsStore y) (lsNow y) key token ttl = (True, s') \<Longrightarrow>
    lock_step api key ttl y (y\<lparr>lsStore := s', lsHolds := (lsHolds y)(c \<mapsto> (token, lsNow y + ttl)),
      lsUsed := insert token (lsUsed y)\<rparr>)"
| refused: "rdSetNX api (lsStore y) (lsNow y) key token ttl = (False, s') \<Longrightarrow>
    lock_step api key ttl y (y\<lparr>lsStore := s'\<rparr>)"
| orphaned: "token \<notin> lsUsed y \<Longrightarrow> rdSetNX api (lsStore y) (lsNow y) key token ttl = (ok, s') \<Longrightarrow>
    lock_step api key ttl y (y\<lparr>lsStore := s', lsUsed := insert token (lsUsed y)\<rparr>)"
| unlock: "lsHolds y c = Some (token, exp) \<Longrightarrow>
    lock_step api key ttl y (y\<lparr>lsStore := snd (luaReleaseLock api (lsStore y) (lsNow y) key token),
      lsHolds := (lsHolds y)(c := None)\<rparr>)"
| unlock_failed: "lsHolds y c = Some (token, exp) \<Longrightarrow>
    lock_step api key ttl y (y\<lparr>lsHolds := (lsHolds y)(c := None)\<rparr>)"
| tick: "lsNow y \<le> t \<Longrightarrow> lock_step api key ttl y (y\<lparr>lsNow := t\<rparr>)"

definition lock_inv :: "'s redis_api \<Rightarrow> string \<Rightarrow> 's lock_sys \<Rightarrow> bool" where
  "lock_inv api key y \<longleftrightarrow>
     (\<forall>c token exp. lsHolds y c = Some (token, exp) \<longrightarrow> token \<in> lsUsed y \<and>
        (\<forall>t. lsNow y \<le> t \<longrightarrow> t < exp \<longrightarrow> rdGet api (lsStore y) t key = Some token)) \<and>
     (\<forall>c c' token exp exp'. lsHolds y c = Some (token, exp) \<longrightarrow> lsHolds y c' = Some (token, exp') \<longrightarrow> c = c')"

definition lock_init :: "'s lock_sys \<Rightarrow> bool" where
  "lock_init y \<longleftrightarrow> lsHolds y = Map.empty"

context redis_server
begin

lemma setnx_keeps:
  assumes "rdGet api s t k = Some w"
  shows "snd (rdSetNX api s t k v ttl) = s"
  using setnx_taken[OF assms] by simp

lemma lock_step_inv: "lock_step api key ttl y y' \<Longrightarrow> lock_inv api key y \<Longrightarrow> lock_inv api key y'"
proof (induction rule: lock_step.induct)
  case (acquire token y c s')
  have free: "rdGet api (lsStore y) (lsNow y) key = None"
    using acquire(3) setnx_taken by (cases "rdGet api (lsStore y) (lsNow y) key") auto
  have get: "rdGet api s' t key = (if t < lsNow y + ttl then Some token else None)" if "lsNow y \<le> t" for t
    using setnx_get[OF free that, of token ttl key] acquire(3) by simp
  have dead: "exp \<le> lsNow y" if "lsHolds y c' = Some (tk, exp)" for c' tk exp
    using acquire(4) that free unfolding lock_inv_def by (metis linorder_not_le option.distinct(1) order_refl)
  have "\<not> (lsNow y \<le> t \<and> t < exp)" if "lsHolds y c' = Some (tk, exp)" for c' tk exp t
    using dead[OF that] by linarith
  moreover have "lsHolds y c' \<noteq> Some (token, exp)" for c' exp
    using acquire(1,4) unfolding lock_inv_def by blast
  ultimately show ?case using acquire(1,4) get by (auto simp: lock_inv_def split: if_splits)
next
  case (refused y token s')
  have "s' = lsStore y"
  proof (cases "rdGet api (lsStore y) (lsNow y) key")
    case None
    from setnx_free[OF this, of token ttl] refused(1) show ?thesis by simp
  next
    case (Some w)
    from setnx_taken[OF this, of token ttl] refused(1) show ?thesis by simp
  qed
  with refused(2) show ?case by (auto simp: lock_inv_def)
next
  case (orphaned token y ok s')
  show ?case
  proof (cases "rdGet api (lsStore y) (lsNow y) key")
    case None
    have dead: "exp \<le> lsNow y" if "lsHolds y c' = Some (tk, exp)" for c' tk exp
      using orphaned(3) that None unfolding lock_inv_def by (metis linorder_not_le option.distinct(1) order_refl)
    have "\<not> (lsNow y \<le> t \<and> t < exp)" if "lsHolds y c' = Some (tk, exp)" for c' tk exp t
      using dead[OF that] by linarith
    with orphaned(3) show ?thesis by (auto simp: lock_inv_def)
  next
    case (Some w)
    then have "s' = lsStore y" using orphaned(2) setnx_taken by auto
    with orphaned(3) show ?thesis by (auto simp: lock_inv_def)
  qed
next
  case (unlock y c token exp)
  have other: "tk \<noteq> token" if "lsHolds y c' = Some (tk, ex)" "c' \<noteq> c" for c' tk ex
    using unlock that unfolding lock_inv_def by blast
  have "rdGet api (snd (luaReleaseLock api (lsStore y) (lsNow y) key token)) t key = Some tk"
    if "lsHolds y c' = Some (tk, ex)" "c' \<noteq> c" "lsNow y \<le> t" "t < ex" for c' tk ex t
  proof -
    have "rdGet api (lsStore y) (lsNow y) key = Some tk"
      using unlock(2) that unfolding lock_inv_def by (meson le_less_trans order_refl)
    then show ?thesis
      using unlock(2) that other[OF that(1,2)] by (auto simp: luaReleaseLock_def lock_inv_def)
  qed
  with unlock(2) show ?case by (auto simp: lock_inv_def split: if_splits)
next
  case (unlock_failed y c token exp)
  then show ?case by (auto simp: lock_inv_def split: if_splits)
next
  case (tick y t)
  then show ?case unfolding lock_inv_def by (auto intro: order_trans)
qed

text \<open>A client that returns from the loop with the lock owns the key from its last call on.\<close>

lemma acquire_loop_owner:
  assumes "acquire_loop api env ttl doneAt key token n i b now s = Some (Inr (), t, s')"
  shows "\<exists>t0. \<forall>t'. t0 \<le> t' \<longrightarrow>
    rdGet api s' t' key = (if t' < t0 + ttl then Some token else None)"
  using assms
proof (induction n arbitrary: i b now s)
  case (Suc n)
  obtain acquired s1 where sx: "rdSetNX api s now key token ttl = (acquired, s1)" by fastforce
  show ?case
  proof (cases acquired)
    case True
    then have "rdGet api s now key = None"
      using sx setnx_taken by (cases "rdGet api s now key") auto
    from setnx_get[OF this, of _ token ttl key] sx
    have "\<forall>t'. now \<le> t' \<longrightarrow> rdGet api s1 t' key = (if t' < now + ttl then Some token else None)" by simp
    moreover have "s' = s1"
      using Suc.prems sx True by (auto simp: Let_def split: option.splits)
    ultimately show ?thesis by blast
  next
    case False
    with Suc.prems sx have "\<exists>j b' now' s2. acquire_loop api env ttl doneAt key token n j b' now' s2
        = Some (Inr (), t, s')"
      by (auto simp: Let_def split: option.splits if_splits)
    then show ?thesis using Suc.IH by blast
  qed
qed simp

end

sublocale redis_server \<subseteq> lock: step_invariant lock_init "lock_step api key ttl" "lock_inv api key" for key ttl
  by unfold_locales (simp add: lock_init_def lock_inv_def, erule (1) lock_step_inv)

context redis_server
begin

lemma holder_unique:
  assumes "reachable_by lock_init (lock_step api key ttl) y"
    and "lsHolds y c = Some (tk, exp)" "lsNow y < exp"
    and "lsHolds y c' = Some (tk', exp')" "lsNow y < exp'"
  shows "c = c'"
proof -
  have inv: "lock_inv api key y" using assms(1) by (rule lock.reachable_inv)
  then have "rdGet api (lsStore y) (lsNow y) key = Some tk" "rdGet api (lsStore y) (lsNow y) key = Some tk'"
    using assms unfolding lock_inv_def by blast+
  with inv assms(2,4) show ?thesis unfolding lock_inv_def by (metis option.inject)
qed

lemma release_keeps_owner:
  assumes "rdGet api s t key = Some other" "other \<noteq> token"
  shows "luaReleaseLock api s t key token = (0, s)"
  using assms by (simp add: luaReleaseLock_def)

end

text \<open>A server that has the laws: keys with a value and an expiry.\<close>

type_synonym kv_store = "string \<rightharpoonup> string \<times> instant"

definition kv_get :: "kv_store \<Rightarrow> instant \<Rightarrow> string \<Rightarrow> string option" where
  "kv_get s t k = (case s k of None \<Rightarrow> None | Some (v, exp) \<Rightarrow> if t < exp then Some v else None)"

definition kv_api :: "kv_store redis_api" where
  "kv_api = \<lparr>rdSetNX = (\<lambda>s t k v ttl. if kv_get s t k = None then (True, s(k \<mapsto> (v, t + ttl))) else (False, s)),
     rdGet = kv_get, rdDel = (\<lambda>s t k. s(k := None))\<rparr>"

interpretation kv: redis_server kv_api
  by unfold_locales (auto simp: kv_api_def kv_get_def split: option.splits if_splits)

section \<open>Properties\<close>

text \<open>
  Waiting for the lock ends: with one round of fuel per millisecond of the remaining budget
  the acquisition loop returns, and it returns no later than a second (the time-out of one
  call) after the budget is spent.
\<close>

theorem acquireRedisLock_returns:
  assumes "env_ok env" "doneAt - now < int fuel * Millisecond" "0 < fuel"
  shows "\<exists>res t s'. acquireRedisLock api env ttl doneAt key token fuel now s = Some (res, t, s') \<and>
    now \<le> t \<and> t \<le> max now doneAt + Second"
proof -
  have b: "2 * Millisecond \<in> backoffs" by (simp add: backoffs_unfold)
  obtain r where r: "acquireRedisLock api env ttl doneAt key token fuel now s = Some r"
    using acquire_loop_terminates[OF assms(1) b assms(2,3)] unfolding acquireRedisLock_def by blast
  obtain res t s' where rr: "r = (res, t, s')" by (cases r) auto
  from acquire_loop_time[OF assms(1) b] r show ?thesis
    unfolding acquireRedisLock_def rr by blast
qed

definition calm :: "nat \<Rightarrow> kv_store attempt" where
  "calm i = \<lparr>atElapsed = Millisecond, atFault = None, atJitter = 0, atOthers = id, atPreferDone = True\<rparr>"

lemma calm_ok: "env_ok calm"
  by (simp add: env_ok_def calm_def Millisecond_def Second_def)

theorem acquireRedisLock_returns_witness:
  "\<exists>res t s'. acquireRedisLock kv_api calm (5 * Second) (10 * Millisecond) ''k'' ''me'' 11 0
      [''k'' \<mapsto> (''other'', Second)] = Some (res, t, s') \<and> t \<le> 10 * Millisecond + Second"
  using acquireRedisLock_returns[OF calm_ok, of "10 * Millisecond" 0 11 kv_api "5 * Second" "''k''" "''me''"
      "[''k'' \<mapsto> (''other'', Second)]"]
  by (auto simp: Millisecond_def Second_def)

text \<open>
  C13. The lock excludes: on any server with the laws of \<^verbatim>\<open>SET NX PX\<close>, \<^verbatim>\<open>GET\<close> and \<^verbatim>\<open>DEL\<close>, in every
  history of acquisitions, lost replies, releases (late ones included) and passing time, at
  most one client holds a lock that has not expired.
\<close>

theorem redis_lock_excludes:
  assumes "redis_server api" "reachable_by lock_init (lock_step api key ttl) y"
    and "lsHolds y c = Some (tk, exp)" "lsNow y < exp"
    and "lsHolds y c' = Some (tk', exp')" "lsNow y < exp'"
  shows "c = c'"
  using redis_server.holder_unique[OF assms] .

definition demo_lock :: "kv_store lock_sys" where
  "demo_lock = \<lparr>lsStore = Map.empty, lsNow = 0, lsHolds = Map.empty, lsUsed = {}\<rparr>"

theorem redis_lock_excludes_witness:
  "\<exists>y. reachable_by lock_init (lock_step kv_api ''k'' 5) y \<and>
     {c. \<exists>tk exp. lsHolds y c = Some (tk, exp) \<and> lsNow y < exp} = {0}"
proof -
  let ?y = "demo_lock\<lparr>lsStore := [''k'' \<mapsto> (''a'', 5)], lsHolds := [0 \<mapsto> (''a'', 5)], lsUsed := {''a''}\<rparr>"
  have "reachable_by lock_init (lock_step kv_api ''k'' 5) demo_lock"
    by (rule reachable_init) (simp add: lock_init_def demo_lock_def)
  moreover have "lock_step kv_api ''k'' 5 demo_lock ?y"
    using lock_step.acquire[of "''a''" demo_lock 0 kv_api "''k''" 5 "[''k'' \<mapsto> (''a'', 5)]"]
    by (simp add: demo_lock_def kv_api_def kv_get_def)
  ultimately have r: "reachable_by lock_init (lock_step kv_api ''k'' 5) ?y" by (rule reachable_step)
  have held: "lsHolds ?y 0 = Some (''a'', 5)" "lsNow ?y < 5" by (simp_all add: demo_lock_def)
  have "{c. \<exists>tk exp. lsHolds ?y c = Some (tk, exp) \<and> lsNow ?y < exp} = {0}"
    using redis_lock_excludes[OF kv.redis_server_axioms r held] held by blast
  with r show ?thesis by blast
qed

end
