(* ===== verification/Gate.thy ===== *)
theory Gate
  imports Prelude
begin

text \<open>
  internal/booking/gate.go: one FIFO gate per event inside a process, as a transition
  system of goroutines over a heap of gate objects. A gate is an object with an identity:
  the map holds a pointer, and goroutines keep theirs while the map entry may be deleted
  and made again. Shown here: two goroutines are never inside one event's gate, waiters are
  served in the order of their arrival, no gate outlives its users, and a waiter always has
  somebody in front of it who can leave.
\<close>

section \<open>Objects and goroutines\<close>

type_synonym tid = nat
type_synonym addr = nat

text \<open>
  \<open>gFull\<close> is whether the buffered channel \<^verbatim>\<open>slot\<close> holds its element, \<open>gSendq\<close> the runtime's queue
  of goroutines blocked sending on it.
\<close>

record gate =
  gFull :: bool
  gSendq :: "tid list"
  gRefs :: int

text \<open>
  Where a goroutine is: outside; past the first critical section of \<^verbatim>\<open>enter\<close>; blocked in the
  \<^verbatim>\<open>select\<close>; owning the gate; past the receive of \<^verbatim>\<open>leave\<close> or past \<^verbatim>\<open>ctx.Done()\<close>, about to call
  \<^verbatim>\<open>release\<close>.
\<close>

datatype phase =
    Outside
  | Entering int addr
  | Waiting int addr
  | Inside int addr
  | Releasing int addr

record eventGates =
  gM :: "int \<rightharpoonup> addr"
  gHeap :: "addr \<Rightarrow> gate"
  gNext :: addr
  gPhase :: "tid \<Rightarrow> phase"

definition newEventGates :: eventGates where
  "newEventGates = \<lparr>gM = Map.empty, gHeap = (\<lambda>_. \<lparr>gFull = False, gSendq = [], gRefs = 0\<rparr>), gNext = 0,
     gPhase = (\<lambda>_. Outside)\<rparr>"

definition upd_gate :: "addr \<Rightarrow> (gate \<Rightarrow> gate) \<Rightarrow> eventGates \<Rightarrow> eventGates" where
  "upd_gate a h s = s\<lparr>gHeap := (gHeap s)(a := h (gHeap s a))\<rparr>"

definition goto :: "tid \<Rightarrow> phase \<Rightarrow> eventGates \<Rightarrow> eventGates" where
  "goto t p s = s\<lparr>gPhase := (gPhase s)(t := p)\<rparr>"

section \<open>The operations\<close>

text \<open>The critical section of \<^verbatim>\<open>enter\<close>: look the gate up, or make it, and count the reference.\<close>

definition enter_lookup :: "tid \<Rightarrow> int \<Rightarrow> eventGates \<Rightarrow> eventGates" where
  "enter_lookup t eid s =
     (case gM s eid of
        Some a \<Rightarrow> goto t (Entering eid a) (upd_gate a (\<lambda>g. g\<lparr>gRefs := gRefs g + 1\<rparr>) s)
      | None \<Rightarrow>
          let a = gNext s in
          goto t (Entering eid a)
            (upd_gate a (\<lambda>g. \<lparr>gFull = False, gSendq = [], gRefs = 1\<rparr>)
              (s\<lparr>gM := (gM s)(eid \<mapsto> a), gNext := a + 1\<rparr>)))"

text \<open>\<^verbatim>\<open>gt.slot <- struct{}{}\<close>: send at once when the buffer is empty, else join the queue.\<close>

definition enter_send :: "tid \<Rightarrow> int \<Rightarrow> addr \<Rightarrow> eventGates \<Rightarrow> eventGates" where
  "enter_send t eid a s =
     (if gFull (gHeap s a) then goto t (Waiting eid a) (upd_gate a (\<lambda>g. g\<lparr>gSendq := gSendq g @ [t]\<rparr>) s)
      else goto t (Inside eid a) (upd_gate a (\<lambda>g. g\<lparr>gFull := True\<rparr>) s))"

text \<open>\<^verbatim>\<open><-ctx.Done()\<close>, which also takes a blocked sender out of the queue.\<close>

definition enter_done :: "tid \<Rightarrow> int \<Rightarrow> addr \<Rightarrow> eventGates \<Rightarrow> eventGates" where
  "enter_done t eid a s =
     goto t (Releasing eid a) (upd_gate a (\<lambda>g. g\<lparr>gSendq := removeAll t (gSendq g)\<rparr>) s)"

text \<open>
  \<^verbatim>\<open><-gt.slot\<close> in \<^verbatim>\<open>leave\<close>: the oldest blocked sender, if any, puts its element in the buffer and
  is inside.
\<close>

definition leave_receive :: "tid \<Rightarrow> int \<Rightarrow> addr \<Rightarrow> eventGates \<Rightarrow> eventGates" where
  "leave_receive t eid a s =
     goto t (Releasing eid a)
       (case gSendq (gHeap s a) of
          [] \<Rightarrow> upd_gate a (\<lambda>g. g\<lparr>gFull := False\<rparr>) s
        | u # us \<Rightarrow> goto u (Inside eid a) (upd_gate a (\<lambda>g. g\<lparr>gSendq := us\<rparr>) s))"

definition release :: "tid \<Rightarrow> int \<Rightarrow> addr \<Rightarrow> eventGates \<Rightarrow> eventGates" where
  "release t eid a s =
     (let s1 = goto t Outside (upd_gate a (\<lambda>g. g\<lparr>gRefs := gRefs g - 1\<rparr>) s) in
      if gRefs (gHeap s1 a) = 0 then s1\<lparr>gM := (gM s1)(eid := None)\<rparr> else s1)"

definition gates_size :: "eventGates \<Rightarrow> nat" where
  "gates_size s = card (dom (gM s))"

section \<open>Interleavings\<close>

inductive gate_step :: "eventGates \<Rightarrow> eventGates \<Rightarrow> bool" where
  lookup: "gPhase s t = Outside \<Longrightarrow> gate_step s (enter_lookup t eid s)"
| send: "gPhase s t = Entering eid a \<Longrightarrow> gate_step s (enter_send t eid a s)"
| done_early: "gPhase s t = Entering eid a \<Longrightarrow> gate_step s (enter_done t eid a s)"
| done_waiting: "gPhase s t = Waiting eid a \<Longrightarrow> gate_step s (enter_done t eid a s)"
| receive: "gPhase s t = Inside eid a \<Longrightarrow> gate_step s (leave_receive t eid a s)"
| finish: "gPhase s t = Releasing eid a \<Longrightarrow> gate_step s (release t eid a s)"

inductive_cases gate_stepE: "gate_step s s'"

section \<open>The invariant\<close>

fun holds :: "phase \<Rightarrow> (int \<times> addr) option" where
  "holds Outside = None"
| "holds (Entering e a) = Some (e, a)"
| "holds (Waiting e a) = Some (e, a)"
| "holds (Inside e a) = Some (e, a)"
| "holds (Releasing e a) = Some (e, a)"

definition users :: "eventGates \<Rightarrow> addr \<Rightarrow> tid set" where
  "users s a = {t. \<exists>e. holds (gPhase s t) = Some (e, a)}"

definition insiders :: "eventGates \<Rightarrow> addr \<Rightarrow> tid set" where
  "insiders s a = {t. \<exists>e. gPhase s t = Inside e a}"

definition waiters :: "eventGates \<Rightarrow> addr \<Rightarrow> tid set" where
  "waiters s a = {t. \<exists>e. gPhase s t = Waiting e a}"

text \<open>
  A goroutine that holds a pointer holds the one in the map; the reference count of a gate
  in the map is the number of its users and not zero; the buffer is full exactly when one
  goroutine is inside; the queue lists the waiters and is empty unless the buffer is full.
\<close>

definition gate_ok :: "eventGates \<Rightarrow> addr \<Rightarrow> bool" where
  "gate_ok s a \<longleftrightarrow>
     finite (users s a) \<and> gRefs (gHeap s a) = int (card (users s a)) \<and> users s a \<noteq> {} \<and>
     (if gFull (gHeap s a) then \<exists>t. insiders s a = {t} else insiders s a = {} \<and> gSendq (gHeap s a) = []) \<and>
     distinct (gSendq (gHeap s a)) \<and> set (gSendq (gHeap s a)) = waiters s a"

definition gates_inv :: "eventGates \<Rightarrow> bool" where
  "gates_inv s \<longleftrightarrow>
     (\<forall>t e a. holds (gPhase s t) = Some (e, a) \<longrightarrow> gM s e = Some a) \<and>
     (\<forall>e e' a. gM s e = Some a \<longrightarrow> gM s e' = Some a \<longrightarrow> e = e') \<and>
     (\<forall>e a. gM s e = Some a \<longrightarrow> a < gNext s \<and> gate_ok s a)"

lemmas gate_sets = users_def insiders_def waiters_def

lemma goto_sets [simp]:
  "users (goto t p s) a = (if \<exists>e. holds p = Some (e, a) then insert t (users s a) else users s a - {t})"
  "insiders (goto t p s) a = (if \<exists>e. p = Inside e a then insert t (insiders s a) else insiders s a - {t})"
  "waiters (goto t p s) a = (if \<exists>e. p = Waiting e a then insert t (waiters s a) else waiters s a - {t})"
  by (auto simp: gate_sets goto_def)

lemma upd_gate_sets [simp]:
  "users (upd_gate b h s) a = users s a" "insiders (upd_gate b h s) a = insiders s a"
  "waiters (upd_gate b h s) a = waiters s a"
  by (simp_all add: gate_sets upd_gate_def)

lemma map_update_sets [simp]:
  "users (s\<lparr>gM := m\<rparr>) a = users s a" "insiders (s\<lparr>gM := m\<rparr>) a = insiders s a"
  "waiters (s\<lparr>gM := m\<rparr>) a = waiters s a"
  "users (s\<lparr>gNext := n\<rparr>) a = users s a" "insiders (s\<lparr>gNext := n\<rparr>) a = insiders s a"
  "waiters (s\<lparr>gNext := n\<rparr>) a = waiters s a"
  by (simp_all add: gate_sets)

lemma goto_fields [simp]:
  "gM (goto t p s) = gM s" "gHeap (goto t p s) = gHeap s" "gNext (goto t p s) = gNext s"
  "gPhase (goto t p s) = (gPhase s)(t := p)"
  by (simp_all add: goto_def)

lemma upd_gate_fields [simp]:
  "gM (upd_gate a h s) = gM s" "gHeap (upd_gate a h s) = (gHeap s)(a := h (gHeap s a))"
  "gNext (upd_gate a h s) = gNext s" "gPhase (upd_gate a h s) = gPhase s"
  by (simp_all add: upd_gate_def)

lemma gates_inv_holds: "gates_inv s \<Longrightarrow> holds (gPhase s t) = Some (e, a) \<Longrightarrow> gM s e = Some a"
  by (simp add: gates_inv_def)

lemma gates_inv_ok: "gates_inv s \<Longrightarrow> gM s e = Some a \<Longrightarrow> gate_ok s a"
  by (simp add: gates_inv_def)

text \<open>A step of one goroutine on one gate leaves the other gates alone.\<close>

lemma gates_inv_local:
  assumes inv: "gates_inv s" and e: "gM s e = Some a" and ok: "gate_ok s' a"
    and M: "gM s' = gM s" and N: "gNext s' = gNext s"
    and other: "\<And>b. b \<noteq> a \<Longrightarrow> gHeap s' b = gHeap s b \<and> users s' b = users s b \<and>
      insiders s' b = insiders s b \<and> waiters s' b = waiters s b"
    and held: "\<And>t e' b. holds (gPhase s' t) = Some (e', b) \<Longrightarrow> gM s e' = Some b"
  shows "gates_inv s'"
proof -
  have "gate_ok s' b" if "gM s e' = Some b" for e' b
    using that inv ok other[of b] by (cases "b = a") (auto simp: gates_inv_def gate_ok_def)
  with inv held M N show ?thesis unfolding gates_inv_def by metis
qed

lemma phase_sets:
  assumes "gPhase s t = p"
  shows "t \<in> users s a \<longleftrightarrow> (\<exists>e. holds p = Some (e, a))" "t \<in> insiders s a \<longleftrightarrow> (\<exists>e. p = Inside e a)"
    "t \<in> waiters s a \<longleftrightarrow> (\<exists>e. p = Waiting e a)"
  using assms by (auto simp: gate_sets)

lemma user_kinds: "insiders s a \<subseteq> users s a" "waiters s a \<subseteq> users s a"
  by (auto simp: gate_sets)

lemma enter_lookup_inv:
  assumes "gates_inv s" "gPhase s t = Outside"
  shows "gates_inv (enter_lookup t eid s)"
proof (cases "gM s eid")
  case (Some a)
  note sets = phase_sets[OF assms(2)]
  have "gate_ok s a" using assms(1) Some by (rule gates_inv_ok)
  then have "gate_ok (enter_lookup t eid s) a"
    using Some sets[of a] by (auto simp: enter_lookup_def gate_ok_def)
  then show ?thesis
    by (rule gates_inv_local[OF assms(1) Some])
      (use Some sets gates_inv_holds[OF assms(1)] in \<open>auto simp: enter_lookup_def split: if_splits\<close>)
next
  case None
  note sets = phase_sets[OF assms(2)]
  have fresh: "gM s e \<noteq> Some (gNext s)" for e using assms(1) by (auto simp: gates_inv_def)
  then have "users s (gNext s) = {}" using gates_inv_holds[OF assms(1)] by (auto simp: users_def)
  moreover from this have "insiders s (gNext s) = {}" "waiters s (gNext s) = {}"
    using user_kinds[of s "gNext s"] by auto
  ultimately have "gate_ok (enter_lookup t eid s) (gNext s)"
    using None by (auto simp: enter_lookup_def gate_ok_def Let_def)
  moreover have "gate_ok (enter_lookup t eid s) a" if "gM s e = Some a" for e a
    using that fresh[of e] gates_inv_ok[OF assms(1) that] sets[of a] None
    by (auto simp: enter_lookup_def gate_ok_def Let_def)
  moreover have "a < gNext s" if "gM s e = Some a" for e a
    using assms(1) that by (auto simp: gates_inv_def)
  ultimately show ?thesis
    using assms(1) fresh None unfolding gates_inv_def
    by (auto simp: enter_lookup_def Let_def less_Suc_eq split: if_splits)
qed

lemma enter_send_inv:
  assumes "gates_inv s" "gPhase s t = Entering eid a"
  shows "gates_inv (enter_send t eid a s)"
proof -
  note sets = phase_sets[OF assms(2)]
  have M: "gM s eid = Some a" by (rule gates_inv_holds[OF assms(1), of t]) (use assms(2) in simp)
  have "gate_ok s a" using assms(1) M by (rule gates_inv_ok)
  then have "gate_ok (enter_send t eid a s) a"
    using sets[of a] by (auto simp: enter_send_def gate_ok_def insert_absorb)
  then show ?thesis
    by (rule gates_inv_local[OF assms(1) M])
      (use M sets gates_inv_holds[OF assms(1)] in \<open>auto simp: enter_send_def split: if_splits\<close>)
qed

lemma enter_done_inv:
  assumes "gates_inv s" "gPhase s t = Entering eid a \<or> gPhase s t = Waiting eid a"
  shows "gates_inv (enter_done t eid a s)"
proof -
  have sets: "t \<in> users s b \<longleftrightarrow> b = a" "t \<notin> insiders s b" "t \<in> waiters s b \<longrightarrow> b = a" for b
    using assms(2) by (auto simp: gate_sets)
  have M: "gM s eid = Some a" by (rule gates_inv_holds[OF assms(1), of t]) (use assms(2) in auto)
  have "gate_ok s a" using assms(1) M by (rule gates_inv_ok)
  then have "gate_ok (enter_done t eid a s) a"
    using sets[of a] by (auto simp: enter_done_def gate_ok_def insert_absorb distinct_removeAll)
  then show ?thesis
    by (rule gates_inv_local[OF assms(1) M])
      (use M sets gates_inv_holds[OF assms(1)] in \<open>auto simp: enter_done_def split: if_splits\<close>)
qed

lemma leave_receive_inv:
  assumes "gates_inv s" "gPhase s t = Inside eid a"
  shows "gates_inv (leave_receive t eid a s)"
proof -
  note sets = phase_sets[OF assms(2)]
  have M: "gM s eid = Some a" by (rule gates_inv_holds[OF assms(1), of t]) (use assms(2) in simp)
  have ok: "gate_ok s a" using assms(1) M by (rule gates_inv_ok)
  then have ins: "insiders s a = {t}" "gFull (gHeap s a)"
    using sets[of a] by (auto simp: gate_ok_def split: if_splits)
  show ?thesis
  proof (cases "gSendq (gHeap s a)")
    case Nil
    have "gate_ok (leave_receive t eid a s) a"
      using ok ins sets[of a] Nil by (auto simp: leave_receive_def gate_ok_def insert_absorb)
    then show ?thesis
      by (rule gates_inv_local[OF assms(1) M])
        (use M sets Nil gates_inv_holds[OF assms(1)] in \<open>auto simp: leave_receive_def split: if_splits\<close>)
  next
    case (Cons u us)
    then obtain e where u: "gPhase s u = Waiting e a"
      using ok by (auto simp: gate_ok_def waiters_def)
    note usets = phase_sets[OF u]
    have ut: "u \<noteq> t" using u assms(2) by auto
    have "gate_ok (leave_receive t eid a s) a"
      using ok ins sets[of a] usets[of a] Cons ut
      by (auto simp: leave_receive_def gate_ok_def insert_absorb)
    then show ?thesis
      by (rule gates_inv_local[OF assms(1) M])
        (use M sets usets Cons ut gates_inv_holds[OF assms(1)] in \<open>auto simp: leave_receive_def split: if_splits\<close>)
  qed
qed

lemma release_inv:
  assumes "gates_inv s" "gPhase s t = Releasing eid a"
  shows "gates_inv (release t eid a s)"
proof -
  note sets = phase_sets[OF assms(2)]
  have M: "gM s eid = Some a" by (rule gates_inv_holds[OF assms(1), of t]) (use assms(2) in simp)
  have ok: "gate_ok s a" using assms(1) M by (rule gates_inv_ok)
  let ?s1 = "goto t Outside (upd_gate a (\<lambda>g. g\<lparr>gRefs := gRefs g - 1\<rparr>) s)"
  have t: "t \<in> users s a" using sets[of a] by simp
  have card: "gRefs (gHeap ?s1 a) = int (card (users s a - {t}))"
  proof -
    have "card (users s a) = Suc (card (users s a - {t}))"
      using ok t card.remove[of "users s a" t] by (simp add: gate_ok_def)
    with ok show ?thesis by (simp add: gate_ok_def)
  qed
  show ?thesis
  proof (cases "users s a = {t}")
    case False
    then have "users s a - {t} \<noteq> {}" using t by blast
    then have ne: "gRefs (gHeap ?s1 a) \<noteq> 0" using card ok by (simp add: gate_ok_def)
    have eqs: "users ?s1 a = users s a - {t}" "insiders ?s1 a = insiders s a" "waiters ?s1 a = waiters s a"
      "gFull (gHeap ?s1 a) = gFull (gHeap s a)" "gSendq (gHeap ?s1 a) = gSendq (gHeap s a)"
      using sets[of a] by auto
    have "gate_ok ?s1 a"
      using ok card \<open>users s a - {t} \<noteq> {}\<close> unfolding gate_ok_def eqs by blast
    then have "gates_inv ?s1"
      by (rule gates_inv_local[OF assms(1) M])
        (use M sets gates_inv_holds[OF assms(1)] in \<open>auto split: if_splits\<close>)
    with ne show ?thesis by (simp add: release_def Let_def)
  next
    case True
    then have rel: "release t eid a s = ?s1\<lparr>gM := (gM s)(eid := None)\<rparr>"
      using card by (simp add: release_def Let_def)
    have inj: "gM s e = Some a \<Longrightarrow> e = eid" for e
      using assms(1) M unfolding gates_inv_def by blast
    have "gate_ok (release t eid a s) b" if "gM s e = Some b" "e \<noteq> eid" for e b
      using gates_inv_ok[OF assms(1) that(1)] that inj[of e] sets[of b]
      by (auto simp: rel gate_ok_def)
    moreover have "u = t" if "holds (gPhase s u) = Some (eid, b)" for u b
      using that True gates_inv_holds[OF assms(1) that] M by (auto simp: users_def)
    ultimately show ?thesis
      using assms(1) unfolding gates_inv_def by (auto simp: rel split: if_splits)
  qed
qed

lemma gate_step_inv: "gate_step s s' \<Longrightarrow> gates_inv s \<Longrightarrow> gates_inv s'"
  by (erule gate_stepE)
    (auto intro: enter_lookup_inv enter_send_inv enter_done_inv leave_receive_inv release_inv)

interpretation gates: step_invariant "\<lambda>s. s = newEventGates" gate_step gates_inv
proof
  show "gates_inv s" if "s = newEventGates" for s
    using that by (simp add: gates_inv_def newEventGates_def)
qed (rule gate_step_inv)

section \<open>What the gates guarantee\<close>

abbreviation gates_reachable :: "eventGates \<Rightarrow> bool" where
  "gates_reachable \<equiv> reachable_by (\<lambda>s. s = newEventGates) gate_step"

lemma insiders_unique:
  assumes "gates_inv s" "gPhase s t = Inside e a" "gPhase s u = Inside e b"
  shows "t = u"
proof -
  have "gM s e = Some a" "gM s e = Some b"
    using gates_inv_holds[OF assms(1), of t e a] gates_inv_holds[OF assms(1), of u e b] assms by simp_all
  then have ok: "gate_ok s a" and b: "b = a" using gates_inv_ok[OF assms(1)] by auto
  have "t \<in> insiders s a" "u \<in> insiders s a" using assms b by (auto simp: insiders_def)
  with ok show ?thesis by (auto simp: gate_ok_def split: if_splits)
qed

lemma idle_empty:
  assumes "gates_inv s" "\<forall>t. gPhase s t = Outside"
  shows "gM s = Map.empty"
proof (rule ext)
  fix e
  show "gM s e = None"
    using assms gates_inv_ok[OF assms(1), of e] by (cases "gM s e") (auto simp: gate_ok_def users_def)
qed

lemma map_in_use: "gates_inv s \<Longrightarrow> e \<in> dom (gM s) \<longleftrightarrow> (\<exists>t a. holds (gPhase s t) = Some (e, a))"
proof
  assume inv: "gates_inv s" and "e \<in> dom (gM s)"
  then obtain a where M: "gM s e = Some a" by auto
  with gates_inv_ok[OF inv] obtain t e' where t: "holds (gPhase s t) = Some (e', a)"
    by (force simp: gate_ok_def users_def)
  moreover have "e' = e" using inv gates_inv_holds[OF inv t] M unfolding gates_inv_def by blast
  ultimately show "\<exists>t a. holds (gPhase s t) = Some (e, a)" by blast
next
  assume "gates_inv s" "\<exists>t a. holds (gPhase s t) = Some (e, a)"
  then show "e \<in> dom (gM s)" using gates_inv_holds by blast
qed

text \<open>
  Order of service. \<open>t\<close> is in front of \<open>u\<close> in a gate when both wait and \<open>t\<close> arrived first, that
  is, when it is earlier in the queue.
\<close>

definition before :: "'a \<Rightarrow> 'a \<Rightarrow> 'a list \<Rightarrow> bool" where
  "before x y q \<longleftrightarrow> (\<exists>xs ys zs. q = xs @ x # ys @ y # zs)"

lemma before_removeAll: "before x y q \<Longrightarrow> w \<noteq> x \<Longrightarrow> w \<noteq> y \<Longrightarrow> before x y (removeAll w q)"
  unfolding before_def by (metis removeAll.simps(2) removeAll_append)

lemma before_append: "before x y q \<Longrightarrow> before x y (q @ r)"
  unfolding before_def by (metis append.assoc append_Cons)

lemma before_Cons: "before x y (z # q) \<Longrightarrow> x \<noteq> z \<Longrightarrow> before x y q"
  unfolding before_def by (metis append_eq_Cons_conv list.inject)

lemma before_set: "before x y q \<Longrightarrow> x \<in> set q \<and> y \<in> set q"
  by (auto simp: before_def)

lemma before_neq: "before x y q \<Longrightarrow> distinct q \<Longrightarrow> x \<noteq> y"
  by (auto simp: before_def)

lemma before_hd: "before x y (z # q) \<Longrightarrow> distinct (z # q) \<Longrightarrow> y \<noteq> z"
  by (auto simp: before_def Cons_eq_append_conv)

definition ahead :: "eventGates \<Rightarrow> addr \<Rightarrow> tid \<Rightarrow> tid \<Rightarrow> bool" where
  "ahead s a t u \<longleftrightarrow> before t u (gSendq (gHeap s a))"

lemma waiting_queued:
  assumes "gates_inv s" "gPhase s t = Waiting e a"
  shows "t \<in> set (gSendq (gHeap s a))" "gFull (gHeap s a)" "\<exists>u. gPhase s u = Inside e a"
proof -
  have M: "gM s e = Some a" by (rule gates_inv_holds[OF assms(1), of t]) (use assms(2) in simp)
  have ok: "gate_ok s a" using assms(1) M by (rule gates_inv_ok)
  show q: "t \<in> set (gSendq (gHeap s a))" using ok assms(2) by (auto simp: gate_ok_def waiters_def)
  then show f: "gFull (gHeap s a)" using ok by (auto simp: gate_ok_def split: if_splits)
  then obtain u e' where u: "gPhase s u = Inside e' a" using ok by (force simp: gate_ok_def insiders_def)
  have "gM s e' = Some a" by (rule gates_inv_holds[OF assms(1), of u]) (use u in simp)
  then have "e' = e" using assms(1) M unfolding gates_inv_def by blast
  with u show "\<exists>u. gPhase s u = Inside e a" by blast
qed

lemma ahead_waiting:
  assumes "gates_inv s" "gM s e = Some a" "ahead s a t u"
  shows "gPhase s t = Waiting e a" "gPhase s u = Waiting e a" "t \<noteq> u" "distinct (gSendq (gHeap s a))"
proof -
  have ok: "gate_ok s a" using assms(1,2) by (rule gates_inv_ok)
  then show d: "distinct (gSendq (gHeap s a))" by (simp add: gate_ok_def)
  have "t \<in> waiters s a" "u \<in> waiters s a" using ok before_set[OF assms(3)[unfolded ahead_def]] by (auto simp: gate_ok_def)
  moreover have "e' = e" if "gPhase s v = Waiting e' a" for v e'
    using assms(1,2) gates_inv_holds[OF assms(1), of v e' a] that unfolding gates_inv_def by auto
  ultimately show "gPhase s t = Waiting e a" "gPhase s u = Waiting e a" by (auto simp: waiters_def)
  show "t \<noteq> u" using before_neq[OF assms(3)[unfolded ahead_def] d] .
qed

text \<open>
  One step never lets the later one of two waiters in first: either the order stays, or one of
  the two has stopped waiting, and the later one only by giving up.
\<close>

lemma fifo_step:
  assumes "gates_inv s" "gM s e = Some a" "ahead s a t u" "gate_step s s'"
  shows "gPhase s' u \<noteq> Inside e a \<and>
    (ahead s' a t u \<or> gPhase s' t = Inside e a \<or> gPhase s' t = Releasing e a \<or> gPhase s' u = Releasing e a)"
proof -
  note w = ahead_waiting[OF assms(1-3)]
  have a: "a < gNext s" using assms(1,2) by (simp add: gates_inv_def)
  have q: "before t u (gSendq (gHeap s a))" using assms(3) by (simp add: ahead_def)
  have same: "e' = e" if "gPhase s v = p" "holds p = Some (e', a)" for v p e'
    using gates_inv_holds[OF assms(1), of v e' a] that assms(1,2) unfolding gates_inv_def by auto
  show ?thesis using assms(4)
  proof (cases rule: gate_step.cases)
    case (lookup v eid)
    then show ?thesis using w a assms(3)
      by (auto simp: enter_lookup_def Let_def ahead_def split: option.splits)
  next
    case (send v eid b)
    then show ?thesis using w q by (auto simp: enter_send_def ahead_def before_append)
  next
    case (done_early v eid b)
    then show ?thesis using w q by (auto simp: enter_done_def ahead_def before_removeAll)
  next
    case (done_waiting v eid b)
    then show ?thesis using w q same[OF done_waiting(2)]
      by (cases "v = t \<or> v = u") (auto simp: enter_done_def ahead_def before_removeAll)
  next
    case (receive v eid b)
    with w have vt: "v \<noteq> t" "v \<noteq> u" by auto
    show ?thesis
    proof (cases "b = a")
      case False
      have "x \<noteq> u \<and> x \<noteq> t" if "gSendq (gHeap s b) = x # rest" for x rest
      proof -
        have "gM s eid = Some b" by (rule gates_inv_holds[OF assms(1), of v]) (use receive in simp)
        with gates_inv_ok[OF assms(1)] have "set (gSendq (gHeap s b)) = waiters s b" by (simp add: gate_ok_def)
        then have "x \<in> waiters s b" using that by auto
        then show ?thesis using w(1,2) False by (auto simp: waiters_def)
      qed
      with False receive w q vt show ?thesis
        by (auto simp: leave_receive_def ahead_def split: list.splits)
    next
      case True
      then have "eid = e" using same[OF receive(2)] by simp
      with True receive w q vt before_hd[of t u] before_Cons[of t u] show ?thesis
        by (cases "gSendq (gHeap s a)") (auto simp: leave_receive_def ahead_def before_def)
    qed
  next
    case (finish v eid b)
    with w have vt: "v \<noteq> t" "v \<noteq> u" by auto
    with finish w q show ?thesis by (auto simp: release_def Let_def ahead_def)
  qed
qed

section \<open>Properties\<close>

definition demo_two :: eventGates where
  "demo_two = enter_send 1 5 0 (enter_lookup 1 5 (enter_send 0 5 0 (enter_lookup 0 5 newEventGates)))"

lemma demo_two_phases:
  "gPhase demo_two 0 = Inside 5 0" "gPhase demo_two 1 = Waiting 5 0" "gSendq (gHeap demo_two 0) = [1]"
  "gM demo_two 5 = Some 0"
  by (simp_all add: demo_two_def enter_send_def enter_lookup_def newEventGates_def Let_def)

lemma demo_two_reachable: "gates_reachable demo_two"
proof -
  let ?s1 = "enter_lookup 0 5 newEventGates" and ?s2 = "enter_send 0 5 0 (enter_lookup 0 5 newEventGates)"
  let ?s3 = "enter_lookup 1 5 ?s2"
  have "gates_reachable newEventGates" by (rule reachable_init) simp
  then have "gates_reachable ?s1"
    by (rule reachable_step) (rule gate_step.lookup, simp add: newEventGates_def)
  then have "gates_reachable ?s2"
    by (rule reachable_step) (rule gate_step.send, simp add: newEventGates_def enter_lookup_def Let_def)
  then have "gates_reachable ?s3"
    by (rule reachable_step)
      (rule gate_step.lookup, simp add: newEventGates_def enter_lookup_def enter_send_def Let_def)
  then show ?thesis unfolding demo_two_def
    by (rule reachable_step)
      (rule gate_step.send, simp add: newEventGates_def enter_lookup_def enter_send_def Let_def)
qed

text \<open>
  C9. Mutual exclusion: in every interleaving of arrivals, time-outs and departures, at most one
  goroutine is inside the gate of an event, even though gates are deleted and made anew.
\<close>

theorem gate_mutual_exclusion:
  assumes "gates_reachable s" "gPhase s t = Inside e a" "gPhase s u = Inside e b"
  shows "t = u"
  using gates.reachable_inv[OF assms(1)] assms(2,3) by (rule insiders_unique)

theorem gate_mutual_exclusion_witness:
  "gates_reachable demo_two \<and> {t. \<exists>a. gPhase demo_two t = Inside 5 a} = {0}"
  using gate_mutual_exclusion[OF demo_two_reachable demo_two_phases(1)] demo_two_reachable demo_two_phases(1)
  by blast

text \<open>
  C22. First come, first served: of two goroutines waiting at a gate the later one is never let in
  by a step that leaves the earlier one waiting; and when the owner leaves, the head of the
  queue is inside at once.
\<close>

theorem gate_fifo:
  assumes "gates_reachable s" "gM s e = Some a" "before t u (gSendq (gHeap s a))" "gate_step s s'"
  shows "gPhase s' u \<noteq> Inside e a \<and>
    (before t u (gSendq (gHeap s' a)) \<or> gPhase s' t = Inside e a \<or> gPhase s' t = Releasing e a \<or>
     gPhase s' u = Releasing e a) \<and>
    (\<forall>v w q. gPhase s v = Inside e a \<longrightarrow> gSendq (gHeap s a) = w # q \<longrightarrow>
       gPhase (leave_receive v e a s) w = Inside e a)"
proof -
  have inv: "gates_inv s" using assms(1) by (rule gates.reachable_inv)
  have "gPhase (leave_receive v e a s) w = Inside e a"
    if "gPhase s v = Inside e a" "gSendq (gHeap s a) = w # q" for v w q
  proof -
    have "w \<in> waiters s a" using gates_inv_ok[OF inv assms(2)] that(2) by (auto simp: gate_ok_def)
    then show ?thesis using that by (auto simp: leave_receive_def waiters_def)
  qed
  then show ?thesis using fifo_step[OF inv assms(2) _ assms(4)] assms(3) by (auto simp: ahead_def)
qed

definition demo_three :: eventGates where
  "demo_three = enter_send 2 5 0 (enter_lookup 2 5 demo_two)"

lemma demo_three_reachable: "gates_reachable demo_three"
proof -
  have "gates_reachable (enter_lookup 2 5 demo_two)"
    by (rule reachable_step[OF demo_two_reachable])
      (rule gate_step.lookup, simp add: demo_two_def newEventGates_def enter_lookup_def enter_send_def Let_def)
  then show ?thesis unfolding demo_three_def
    by (rule reachable_step)
      (rule gate_step.send, simp add: demo_two_def newEventGates_def enter_lookup_def enter_send_def Let_def)
qed

lemma demo_three_phases:
  "gM demo_three 5 = Some 0" "gSendq (gHeap demo_three 0) = [1, 2]" "gPhase demo_three 0 = Inside 5 0"
  by (simp_all add: demo_three_def demo_two_def enter_send_def enter_lookup_def newEventGates_def Let_def)

theorem gate_fifo_witness:
  "gPhase (leave_receive 0 5 0 demo_three) 1 = Inside 5 0 \<and> gPhase (leave_receive 0 5 0 demo_three) 2 \<noteq> Inside 5 0"
proof -
  have "before 1 2 (gSendq (gHeap demo_three 0))"
    unfolding demo_three_phases before_def by (intro exI[of _ "[]"]) simp
  moreover have "gate_step demo_three (leave_receive 0 5 0 demo_three)"
    using demo_three_phases(3) by (rule gate_step.receive)
  ultimately show ?thesis
    using gate_fifo[OF demo_three_reachable demo_three_phases(1)] demo_three_phases(2,3) by blast
qed

text \<open>
  C28. Gates do not leak and do not strand anybody: the map holds exactly the events some
  goroutine is using, so it is empty when all are outside; and whoever waits, waits behind a
  goroutine that is inside and can leave.
\<close>

theorem gates_no_leak:
  assumes "gates_reachable s"
  shows "(\<forall>e. e \<in> dom (gM s) \<longleftrightarrow> (\<exists>t a. holds (gPhase s t) = Some (e, a))) \<and>
    ((\<forall>t. gPhase s t = Outside) \<longrightarrow> gates_size s = 0) \<and>
    (\<forall>t e a. gPhase s t = Waiting e a \<longrightarrow>
      (\<exists>u. gPhase s u = Inside e a \<and> gate_step s (leave_receive u e a s)))"
proof -
  have inv: "gates_inv s" using assms by (rule gates.reachable_inv)
  have "\<exists>u. gPhase s u = Inside e a \<and> gate_step s (leave_receive u e a s)" if "gPhase s t = Waiting e a" for t e a
    using waiting_queued(3)[OF inv that] by (blast intro: gate_step.receive)
  then show ?thesis using map_in_use[OF inv] idle_empty[OF inv] by (auto simp: gates_size_def)
qed

theorem gates_no_leak_witness: "\<exists>u. gPhase demo_two u = Inside 5 0 \<and> dom (gM demo_two) \<noteq> {}"
  using gates_no_leak[OF demo_two_reachable] demo_two_phases by blast

end
