(* ===== verification/Booking_Service.thy ===== *)
theory Booking_Service
  imports Scenario Httpx Redis_Lock Gate
begin

text \<open>
  internal/booking/service.go and handler.go: the booking transaction, the two locks around
  it, and the listings. Shown here: an event is never booked beyond its capacity and never
  twice by one user, whatever the locks in front of the transaction do; which requests are
  refused, in which order; that a possible booking is made; and that the lock is given back.
\<close>

section \<open>Errors\<close>

definition booking_ErrEventNotFound :: error where
  "booking_ErrEventNotFound = New ''booking.ErrEventNotFound'' ''event not found''"
definition ErrEventNotOpen :: error where
  "ErrEventNotOpen = New ''booking.ErrEventNotOpen'' ''event is not open for booking''"
definition ErrEventFull :: error where
  "ErrEventFull = New ''booking.ErrEventFull'' ''event is fully booked''"
definition ErrAlreadyBooked :: error where
  "ErrAlreadyBooked = New ''booking.ErrAlreadyBooked'' ''you have already booked this event''"
definition booking_ErrInvalidInput :: error where
  "booking_ErrInvalidInput = New ''booking.ErrInvalidInput'' ''invalid input''"

lemmas booking_errors [go_defs] =
  ErrEventBusy_def booking_ErrEventNotFound_def ErrEventNotOpen_def ErrEventFull_def
  ErrAlreadyBooked_def booking_ErrInvalidInput_def

section \<open>createBooking\<close>

definition insert_booking_error :: "error \<Rightarrow> error" where
  "insert_booking_error err =
     (if IsUnique err then ErrAlreadyBooked
      else if IsForeignKey err then booking_ErrEventNotFound
      else wrap ''inserting booking'' err)"

definition not_open :: "string \<Rightarrow> error" where
  "not_open status = Wrapf '''' ErrEventNotOpen ('' (current status: '' @ status @ '')'')"

definition full :: "int \<Rightarrow> int \<Rightarrow> error" where
  "full booked capacity =
     Wrapf '''' ErrEventFull ('' ('' @ FormatInt booked @ ''/'' @ FormatInt capacity @ '')'')"

definition createBooking_body :: "('m tx_env_scheme) \<Rightarrow> int \<Rightarrow> int \<Rightarrow> unit stmt" where
  "createBooking_body env eventID userID =
     stmt_bind
       (on_error
         (\<lambda>err. if errors_Is err pgx_ErrNoRows then booking_ErrEventNotFound else wrap ''fetching event'' err)
         (query_row (txFault env) (Query 0) (\<lambda>d. select_event d eventID)))
     (\<lambda>e.
     stmt_bind
       (on_error (wrap ''checking existing booking'')
         (stmt_read (\<lambda>d. query (txFault env) (Query 1) (Inr (exists_booking d eventID userID)))))
     (\<lambda>already.
     if already then stmt_fail ErrAlreadyBooked
     else if eStatus e \<noteq> EventStatusOpen then stmt_fail (not_open (eStatus e))
     else
     stmt_bind
       (on_error (wrap ''counting bookings'')
         (stmt_read (\<lambda>d. query (txFault env) (Query 2) (Inr (count_bookings d eventID)))))
     (\<lambda>booked.
     if booked \<ge> eCapacity e then stmt_fail (full booked (eCapacity e))
     else on_error insert_booking_error
       (exec (txFault env) (Exec 0) (insert_booking (txNow env) eventID userID)))))"

definition createBooking :: "('m tx_env_scheme) \<Rightarrow> int \<Rightarrow> int \<Rightarrow> unit stmt" where
  "createBooking env eventID userID =
     with_tx env (wrap ''beginning transaction'') (\<lambda>err. err) (createBooking_body env eventID userID)"

section \<open>BookWithLock\<close>

record booking_service =
  svLockTTL :: duration
  svLockWait :: duration

definition NewService :: "duration \<Rightarrow> duration \<Rightarrow> booking_service" where
  "NewService lockTTL lockWait =
     \<lparr>svLockTTL = (if lockTTL \<le> 0 then 5 * Second else lockTTL),
      svLockWait = (if lockWait \<le> 0 then 10 * Second else lockWait)\<rparr>"

text \<open>
  What a request meets on its way: the instant it starts, when its client gives up, when (if
  ever) the gate lets it in, the random bytes for the token, the rounds of the acquisition
  loop, what other clients do to the lock server while the transaction runs, and the release
  call. The waiting time is over at \<open>done_at\<close>.
\<close>

record 's book_env = tx_env +
  bkStart :: instant
  bkCancelAt :: "instant option"
  bkGateAt :: "instant option"
  bkTokenBytes :: "byte list"
  bkAttempts :: "nat \<Rightarrow> 's attempt"
  bkOthers :: "'s \<Rightarrow> 's"
  bkReleaseAt :: instant
  bkReleaseFault :: bool

definition done_at :: "booking_service \<Rightarrow> ('s, 'm) book_env_scheme \<Rightarrow> instant" where
  "done_at sv env =
     (case bkCancelAt env of
        None \<Rightarrow> bkStart env + svLockWait sv
      | Some c \<Rightarrow> min c (bkStart env + svLockWait sv))"

definition gate_entered :: "booking_service \<Rightarrow> ('s, 'm) book_env_scheme \<Rightarrow> instant option" where
  "gate_entered sv env =
     (case bkGateAt env of
        Some t \<Rightarrow> if t \<le> done_at sv env then Some t else None
      | None \<Rightarrow> None)"

definition BookWithLock ::
  "'s redis_api \<Rightarrow> booking_service \<Rightarrow> ('s, 'm) book_env_scheme \<Rightarrow> nat \<Rightarrow> int \<Rightarrow> int \<Rightarrow> 's \<Rightarrow> db \<Rightarrow>
   ((error + unit) \<times> 's \<times> db) option" where
  "BookWithLock api sv env fuel eventID userID s d =
     (if eventID \<le> 0 \<or> userID \<le> 0 then Some (Inl booking_ErrInvalidInput, s, d)
      else
        case gate_entered sv env of
          None \<Rightarrow> Some (Inl ErrEventBusy, s, d)
        | Some entered \<Rightarrow>
            (case newToken (bkTokenBytes env) of
               Inl err \<Rightarrow> Some (Inl (wrap ''generating lock token'' err), s, d)
             | Inr (token, _) \<Rightarrow>
                 (case acquireRedisLock api (bkAttempts env) (svLockTTL sv) (done_at sv env)
                         (lockKey eventID) token fuel entered s of
                    None \<Rightarrow> None
                  | Some (Inl err, _, s1) \<Rightarrow> Some (Inl err, s1, d)
                  | Some (Inr _, _, s1) \<Rightarrow>
                      let (res, d') = createBooking env eventID userID d;
                          s2 = bkOthers env s1
                      in Some (res,
                           if bkReleaseFault env then s2
                           else snd (luaReleaseLock api s2 (bkReleaseAt env) (lockKey eventID) token),
                           d'))))"

section \<open>Listings\<close>

definition raw_fetch :: "faults \<Rightarrow> string \<Rightarrow> 'a list \<Rightarrow> error + 'a list" where
  "raw_fetch f onQuery rows =
     (case f (Query 0) of
        Some err \<Rightarrow> Inl (wrap onQuery err)
      | None \<Rightarrow>
          (case scan_rows f 0 0 rows of
             Inl err \<Rightarrow> Inl err
           | Inr xs \<Rightarrow> (case f (RowsErr 0) of Some err \<Rightarrow> Inl err | None \<Rightarrow> Inr xs)))"

definition GetByEvent :: "faults \<Rightarrow> (Booking \<Rightarrow> nat) \<Rightarrow> int \<Rightarrow> db \<Rightarrow> error + Booking list" where
  "GetByEvent f tie eventID d =
     raw_fetch f ''querying bookings'' (order_by tie bBookedAt (event_bookings d eventID))"

definition UserBookings :: "faults \<Rightarrow> (Booking \<Rightarrow> nat) \<Rightarrow> int \<Rightarrow> db \<Rightarrow> error + Booking list" where
  "UserBookings f tie userID d =
     raw_fetch f ''querying user bookings''
       (order_by tie (\<lambda>b. - bBookedAt b) (filter (\<lambda>b. bUserID b = userID) (tBookings d)))"

section \<open>Handlers\<close>

definition booking_error_response :: "error \<Rightarrow> string response" where
  "booking_error_response err =
     (if errors_Is err ErrEventBusy then respond_Error 503 ''event_busy'' (Error_text err)
      else if errors_Is err ErrAlreadyBooked then respond_Error 409 ''already_booked'' (Error_text err)
      else if errors_Is err ErrEventNotOpen then respond_Error 409 ''event_not_open'' (Error_text err)
      else if errors_Is err ErrEventFull then respond_Error 409 ''event_full'' (Error_text err)
      else if errors_Is err booking_ErrEventNotFound then respond_Error 404 ''event_not_found'' (Error_text err)
      else if errors_Is err booking_ErrInvalidInput then respond_Error 400 ''invalid_input'' (Error_text err)
      else respond_Error 500 ''internal'' ''could not create booking'')"

text \<open>The confirmation text, and the \<^verbatim>\<open>Retry-After\<close> header of the busy answer.\<close>

definition booking_confirmed :: string where
  "booking_confirmed =
     ''booking confirmed '' @ [CHR 0xE2, CHR 0x80, CHR 0x94] @ '' you are now eligible for the lottery''"

definition Book ::
  "'s redis_api \<Rightarrow> booking_service \<Rightarrow> ('s, 'm) book_env_scheme \<Rightarrow> nat \<Rightarrow> string \<Rightarrow> int option \<Rightarrow> 's \<Rightarrow> db \<Rightarrow>
   (string response \<times> (string \<times> string) list \<times> 's \<times> db) option" where
  "Book api sv env fuel eventIDParam user s d =
     (case parse_event_id eventIDParam of
        None \<Rightarrow> Some (BadRequest ''invalid event id'', [], s, d)
      | Some eventID \<Rightarrow>
          (case user of
             None \<Rightarrow> Some (Unauthorized ''unauthenticated'', [], s, d)
           | Some userID \<Rightarrow>
               (case BookWithLock api sv env fuel eventID userID s d of
                  None \<Rightarrow> None
                | Some (Inl err, s', d') \<Rightarrow>
                    Some (booking_error_response err,
                      if errors_Is err ErrEventBusy then [(''Retry-After'', ''1'')] else [], s', d')
                | Some (Inr _, s', d') \<Rightarrow> Some (Respond 201 True (Some booking_confirmed) '''', [], s', d'))))"

definition MyBookings :: "faults \<Rightarrow> (Booking \<Rightarrow> nat) \<Rightarrow> int option \<Rightarrow> db \<Rightarrow> Booking list response" where
  "MyBookings f tie user d =
     (case user of
        None \<Rightarrow> Unauthorized ''unauthenticated''
      | Some userID \<Rightarrow>
          (case UserBookings f tie userID d of
             Inl err \<Rightarrow> Internal ''failed to fetch bookings''
           | Inr bs \<Rightarrow> Respond 200 True (Some bs) ''''))"

definition ListByEvent :: "faults \<Rightarrow> (Booking \<Rightarrow> nat) \<Rightarrow> string \<Rightarrow> db \<Rightarrow> Booking list response" where
  "ListByEvent f tie eventIDParam d =
     (case parse_event_id eventIDParam of
        None \<Rightarrow> BadRequest ''invalid event id''
      | Some eventID \<Rightarrow>
          (case GetByEvent f tie eventID d of
             Inl err \<Rightarrow> Internal ''failed to fetch bookings''
           | Inr bs \<Rightarrow> Respond 200 True (Some bs) ''''))"

section \<open>What a booking does\<close>

definition booking_outcome :: "instant \<Rightarrow> int \<Rightarrow> int \<Rightarrow> db \<Rightarrow> db \<Rightarrow> bool" where
  "booking_outcome now eid uid d d' \<longleftrightarrow>
     (\<exists>e. select_event d eid = Some e \<and> eStatus e = EventStatusOpen \<and>
        count_bookings d eid < eCapacity e \<and> \<not> exists_booking d eid uid \<and>
        insert_booking now eid uid d = (Inr (), d'))"

lemma createBooking_body_Inr:
  assumes "createBooking_body env eid uid d = (Inr x, d')"
  shows "booking_outcome (txNow env) eid uid d d'"
  using assms
  by (auto simp: createBooking_body_def booking_outcome_def stmt_Inr stmt_read_def stmt_fail_def query_def
      split: if_splits option.splits)

interpretation booking_tx: transaction "createBooking_body env eid uid" for env eid uid
  by unfold_locales (auto simp: createBooking_body_def)

lemma createBooking_wf: "createBooking env eid uid d = (res, d') \<Longrightarrow> db_wf d \<Longrightarrow> db_wf d'"
  unfolding createBooking_def by (rule booking_tx.with_tx_wf)

lemma createBooking_tables:
  assumes "createBooking env eid uid d = (res, d')"
  shows "same_tables d d' \<or> booking_outcome (txNow env) eid uid d d'"
  using with_tx_tables[OF assms[unfolded createBooking_def]] createBooking_body_Inr by blast

lemma createBooking_Inr:
  "createBooking env eid uid d = (Inr x, d') \<Longrightarrow> booking_outcome (txNow env) eid uid d d'"
  by (auto simp: createBooking_def with_tx_Inr dest: createBooking_body_Inr)

lemma createBooking_Inl:
  assumes "createBooking env eid uid d = (Inl err, d')"
  shows "same_tables d d' \<or> (txCommit env = CommitLost err \<and> booking_outcome (txNow env) eid uid d d')"
  using with_tx_Inl[OF assms[unfolded createBooking_def]] createBooking_body_Inr by blast

text \<open>The refusals, in the order of the checks.\<close>

definition booking_refusal :: "int \<Rightarrow> int \<Rightarrow> db \<Rightarrow> error option" where
  "booking_refusal eid uid d =
     (case select_event d eid of
        None \<Rightarrow> Some booking_ErrEventNotFound
      | Some e \<Rightarrow>
          if exists_booking d eid uid then Some ErrAlreadyBooked
          else if eStatus e \<noteq> EventStatusOpen then Some (not_open (eStatus e))
          else if eCapacity e \<le> count_bookings d eid then Some (full (count_bookings d eid) (eCapacity e))
          else if uid \<notin> user_ids d then Some booking_ErrEventNotFound
          else None)"

lemma createBooking_body_no_faults:
  assumes "txFault env = no_faults" "select_event d eid = Some e"
  shows "createBooking_body env eid uid d =
    (if exists_booking d eid uid then (Inl ErrAlreadyBooked, d)
     else if eStatus e \<noteq> EventStatusOpen then (Inl (not_open (eStatus e)), d)
     else if eCapacity e \<le> count_bookings d eid then (Inl (full (count_bookings d eid) (eCapacity e)), d)
     else on_error insert_booking_error (insert_booking (txNow env) eid uid) d)"
  using assms
  by (simp add: createBooking_body_def stmt_bind_def on_error_def query_row_def stmt_read_def stmt_fail_def)

lemma createBooking_refused:
  assumes "txFault env = no_faults" "booking_refusal eid uid d = Some err"
  shows "fst (createBooking env eid uid d) = Inl err \<and> same_tables d (snd (createBooking env eid uid d))"
proof -
  have "\<exists>d'. createBooking_body env eid uid d = (Inl err, d')"
  proof (cases "select_event d eid")
    case None
    then show ?thesis using assms unfolding booking_refusal_def None
      by (simp add: createBooking_body_def stmt_bind_def on_error_def query_row_def stmt_read_def None)
  next
    case (Some e)
    have ev: "eid \<in> event_ids d" using select_event_SomeD[OF Some] by (auto simp: event_ids_def)
    show ?thesis
      using assms(2) ev Some createBooking_body_no_faults[OF assms(1) Some, of uid]
      by (auto simp: booking_refusal_def on_error_def insert_booking_def Let_def insert_booking_error_def
          split: if_splits)
  qed
  then show ?thesis using assms(1) by (auto simp: createBooking_def with_tx_def)
qed

lemma createBooking_succeeds:
  assumes "txFault env = no_faults" "txCommit env = CommitOk" "booking_refusal eid uid d = None"
  shows "\<exists>d'. createBooking env eid uid d = (Inr (), d')"
proof -
  from assms(3) obtain e where e: "select_event d eid = Some e"
    by (cases "select_event d eid") (simp_all add: booking_refusal_def)
  have ev: "eid \<in> event_ids d" using select_event_SomeD[OF e] by (auto simp: event_ids_def)
  have "\<exists>d'. createBooking_body env eid uid d = (Inr (), d')"
    using assms(3) e ev createBooking_body_no_faults[OF assms(1) e, of uid]
    by (auto simp: booking_refusal_def insert_booking_def Let_def split: if_splits)
  then show ?thesis using assms(1,2) by (simp add: createBooking_def with_tx_Inr)
qed

section \<open>No overbooking\<close>

definition capacity_ok :: "db \<Rightarrow> bool" where
  "capacity_ok d \<longleftrightarrow> (\<forall>e \<in> set (tEvents d). count_bookings d (eID e) \<le> eCapacity e)"

lemma booking_outcome_count:
  assumes "booking_outcome now eid uid d d'"
  shows "count_bookings d' i = count_bookings d i + (if i = eid then 1 else 0)"
    and "tEvents d' = tEvents d" "tUsers d' = tUsers d" "tDraws d' = tDraws d" "tSeals d' = tSeals d"
    and "map bUserID (event_bookings d' eid) = map bUserID (event_bookings d eid) @ [uid]"
    and "i \<noteq> eid \<Longrightarrow> event_bookings d' i = event_bookings d i"
  using assms
  by (auto simp: booking_outcome_def count_bookings_def event_bookings_def dest!: insert_booking_done(1))

lemma booking_outcome_capacity:
  assumes "booking_outcome now eid uid d d'" "db_wf d" "capacity_ok d"
  shows "capacity_ok d'"
proof -
  obtain e where e: "select_event d eid = Some e" "count_bookings d eid < eCapacity e"
    using assms(1) by (auto simp: booking_outcome_def)
  have "x = e" if "x \<in> set (tEvents d)" "eID x = eid" for x
    using select_event_row[OF assms(2) that(1)] that(2) e(1) by simp
  then show ?thesis
    using assms(3) e(2) by (auto simp: capacity_ok_def booking_outcome_count[OF assms(1)])
qed

lemma same_tables_reads:
  assumes "same_tables d d'"
  shows "count_bookings d' = count_bookings d" "event_bookings d' = event_bookings d"
    "select_event d' = select_event d" "event_draws d' = event_draws d" "select_seal d' = select_seal d"
    "exists_booking d' = exists_booking d"
  using same_tables_fields[OF assms]
  by (auto simp: count_bookings_def event_bookings_def select_event_def event_draws_def select_seal_def
      exists_booking_def fun_eq_iff)

lemma same_tables_capacity: "same_tables d d' \<Longrightarrow> capacity_ok d' = capacity_ok d"
  by (simp add: capacity_ok_def same_tables_reads same_tables_fields)

lemma createBooking_capacity:
  "createBooking env eid uid d = (res, d') \<Longrightarrow> db_wf d \<Longrightarrow> capacity_ok d \<Longrightarrow> capacity_ok d'"
  using createBooking_tables[of env eid uid d res d'] booking_outcome_capacity same_tables_capacity by blast

section \<open>The locks around it\<close>

lemma BookWithLock_db:
  assumes "BookWithLock api sv env fuel eid uid s d = Some (res, s', d')"
  shows "d' = d \<and> (\<exists>err. res = Inl err) \<or> createBooking env eid uid d = (res, d')"
  using assms
  by (auto simp: BookWithLock_def Let_def split: if_splits option.splits sum.splits prod.splits)

lemma BookWithLock_returns:
  assumes "env_ok (bkAttempts env)"
    and "done_at sv env - bkStart env < int fuel * Millisecond" "0 < fuel"
    and "\<And>t. bkGateAt env = Some t \<Longrightarrow> bkStart env \<le> t"
  shows "\<exists>res s' d'. BookWithLock api sv env fuel eid uid s d = Some (res, s', d')"
proof -
  have "\<exists>r. acquireRedisLock api (bkAttempts env) (svLockTTL sv) (done_at sv env) key token fuel t s = Some r"
    if "gate_entered sv env = Some t" for key token t
  proof -
    have "bkStart env \<le> t" using that assms(4) by (auto simp: gate_entered_def split: option.splits if_splits)
    moreover have "2 * Millisecond \<in> backoffs" by (simp add: backoffs_unfold)
    ultimately show ?thesis
      unfolding acquireRedisLock_def using assms(1-3) by (intro acquire_loop_terminates) auto
  qed
  then show ?thesis
    unfolding BookWithLock_def Let_def
    by (auto split: option.splits sum.splits prod.splits) (metis option.distinct(1))
qed

text \<open>
  Owner-safe release: after a request that got the lock and whose release call went through,
  the key does not hold its token, and a key that meanwhile belongs to another client is left
  alone.
\<close>

lemma newToken_length: "newToken r = Inr (token, r') \<Longrightarrow> length token = 32"
  by (auto simp: newToken_def hex_EncodeToString_def length_concat o_def sum_list_triv split: if_splits)

lemma newToken_inj:
  "newToken r = Inr (token, a) \<Longrightarrow> newToken q = Inr (token, b) \<Longrightarrow> take 16 r = take 16 q"
  by (auto simp: newToken_def hex_inj split: if_splits)

lemma BookWithLock_released:
  assumes api: "redis_server api"
    and run: "BookWithLock api sv env fuel eid uid s d = Some (Inr x, s', d')"
    and rel: "\<not> bkReleaseFault env"
    and entered: "gate_entered sv env = Some t0"
    and token: "newToken (bkTokenBytes env) = Inr (token, rest)"
    and acq: "acquireRedisLock api (bkAttempts env) (svLockTTL sv) (done_at sv env) (lockKey eid) token fuel t0 s
      = Some (Inr y, t1, s1)"
  shows "(\<forall>t \<ge> bkReleaseAt env. rdGet api s' t (lockKey eid) \<noteq> Some token) \<and>
    (\<forall>w. w \<noteq> token \<longrightarrow> rdGet api (bkOthers env s1) (bkReleaseAt env) (lockKey eid) = Some w \<longrightarrow>
       s' = bkOthers env s1) \<and>
    (\<forall>k t. k \<noteq> lockKey eid \<longrightarrow> bkReleaseAt env \<le> t \<longrightarrow> rdGet api s' t k = rdGet api (bkOthers env s1) t k)"
proof -
  have s': "s' = snd (luaReleaseLock api (bkOthers env s1) (bkReleaseAt env) (lockKey eid) token)"
    using run rel entered token acq
    by (auto simp: BookWithLock_def Let_def split: if_splits prod.splits)
  show ?thesis
    using redis_server.del_get[OF api] redis_server.get_earlier[OF api]
    unfolding s' luaReleaseLock_def by auto
qed

section \<open>Properties\<close>

text \<open>
  C7. No overbooking, no double booking: from a database that respects its constraints and its
  capacities, a booking request leaves one that does, with or without an error, a lost commit
  or a failure of any call, and whatever the two locks in front of the transaction did.
\<close>

theorem booking_keeps_capacity:
  assumes "BookWithLock api sv env fuel eid uid s d = Some (res, s', d')" "db_wf d" "capacity_ok d"
  shows "db_wf d' \<and> capacity_ok d' \<and>
    distinct (map (\<lambda>b. (bEventID b, bUserID b)) (tBookings d'))"
proof -
  have "d' = d \<or> createBooking env eid uid d = (res, d')"
    using BookWithLock_db[OF assms(1)] by blast
  then have "db_wf d'" "capacity_ok d'"
    using assms(2,3) createBooking_wf createBooking_capacity by blast+
  then show ?thesis by (simp add: db_wf_def bookings_wf_def)
qed

definition demo_book :: "kv_store book_env" where
  "demo_book = \<lparr>txFault = no_faults, txCommit = CommitOk, txNow = 2000, bkStart = 0, bkCancelAt = None,
     bkGateAt = Some 0, bkTokenBytes = replicate 16 7, bkAttempts = calm, bkOthers = id,
     bkReleaseAt = Second, bkReleaseFault = False\<rparr>"

definition demo_sv :: booking_service where
  "demo_sv = NewService 0 0"

lemma demo_book_simps [simp]:
  "txFault demo_book = no_faults" "txCommit demo_book = CommitOk" "bkAttempts demo_book = calm"
  "gate_entered demo_sv demo_book = Some 0" "done_at demo_sv demo_book = 10 * Second"
  "svLockTTL demo_sv = 5 * Second" "bkReleaseAt demo_book = Second" "\<not> bkReleaseFault demo_book"
  "bkStart demo_book = 0" "bkGateAt demo_book = Some 0"
  by (simp_all add: demo_book_def demo_sv_def NewService_def gate_entered_def done_at_def Second_def)

lemma demo_token: "\<exists>token. newToken (bkTokenBytes demo_book) = Inr (token, [])"
  by (simp add: newToken_def demo_book_def)

lemma demo_creates: "\<exists>d'. createBooking demo_book 1 2 demo_db = (Inr (), d')"
  by (rule createBooking_succeeds) (simp_all add: booking_refusal_def count_bookings_def)

lemma demo_acquires:
  "\<exists>t s'. acquireRedisLock kv_api calm (5 * Second) (10 * Second) key token 1 0 Map.empty = Some (Inr (), t, s')"
  by (simp add: acquireRedisLock_def calm_def kv_api_def kv_get_def eval_nat_numeral)

lemma demo_books:
  "\<exists>s' d'. BookWithLock kv_api demo_sv demo_book 1 1 2 Map.empty demo_db = Some (Inr (), s', d')"
proof -
  obtain token where token: "newToken (bkTokenBytes demo_book) = Inr (token, [])" using demo_token by blast
  obtain d' where cb: "createBooking demo_book 1 2 demo_db = (Inr (), d')" using demo_creates by blast
  obtain t s1 where "acquireRedisLock kv_api calm (5 * Second) (10 * Second) (lockKey 1) token 1 0 Map.empty
      = Some (Inr (), t, s1)" using demo_acquires by blast
  with token cb show ?thesis by (simp add: BookWithLock_def)
qed

theorem booking_keeps_capacity_witness:
  "\<exists>s' d'. BookWithLock kv_api demo_sv demo_book 1 1 2 Map.empty demo_db = Some (Inr (), s', d') \<and> capacity_ok d'"
proof -
  obtain s' d' where run: "BookWithLock kv_api demo_sv demo_book 1 1 2 Map.empty demo_db = Some (Inr (), s', d')"
    using demo_books by blast
  have "capacity_ok demo_db"
    by (simp add: capacity_ok_def count_bookings_def event_bookings_def demo_defs)
  with booking_keeps_capacity[OF run] run show ?thesis by auto
qed

text \<open>
  C20. A confirmed booking exists: when a request succeeds, the event was open with a free place,
  the user had no booking, and exactly one booking of this user for this event has been added.
  When it fails nothing was added, except that a commit whose reply was lost may have added it.
\<close>

theorem booking_effect:
  shows "(\<forall>x d'. createBooking env eid uid d = (Inr x, d') \<longrightarrow>
      (\<exists>e b. select_event d eid = Some e \<and> eStatus e = EventStatusOpen \<and>
         count_bookings d eid < eCapacity e \<and> \<not> exists_booking d eid uid \<and>
         tBookings d' = tBookings d @ [b] \<and> bEventID b = eid \<and> bUserID b = uid \<and>
         count_bookings d' eid = count_bookings d eid + 1 \<and> tEvents d' = tEvents d)) \<and>
    (\<forall>err d'. createBooking env eid uid d = (Inl err, d') \<longrightarrow>
      same_tables d d' \<or> (txCommit env = CommitLost err \<and> (\<exists>b. tBookings d' = tBookings d @ [b] \<and> bEventID b = eid \<and> bUserID b = uid)))"
proof (intro conjI allI impI)
  fix x d' assume "createBooking env eid uid d = (Inr x, d')"
  then have out: "booking_outcome (txNow env) eid uid d d'" by (rule createBooking_Inr)
  note c = booking_outcome_count(1)[OF out, of eid] booking_outcome_count(2)[OF out]
  from out show "\<exists>e b. select_event d eid = Some e \<and> eStatus e = EventStatusOpen \<and>
         count_bookings d eid < eCapacity e \<and> \<not> exists_booking d eid uid \<and>
         tBookings d' = tBookings d @ [b] \<and> bEventID b = eid \<and> bUserID b = uid \<and>
         count_bookings d' eid = count_bookings d eid + 1 \<and> tEvents d' = tEvents d"
    using c by (auto simp: booking_outcome_def dest!: insert_booking_done(1))
next
  fix err d' assume "createBooking env eid uid d = (Inl err, d')"
  from createBooking_Inl[OF this]
  show "same_tables d d' \<or> (txCommit env = CommitLost err \<and> (\<exists>b. tBookings d' = tBookings d @ [b] \<and> bEventID b = eid \<and> bUserID b = uid))"
    by (auto simp: booking_outcome_def dest!: insert_booking_done(1))
qed

theorem booking_effect_witness:
  "\<exists>d'. createBooking demo_book 1 2 demo_db = (Inr (), d') \<and> count_bookings d' 1 = 1"
proof -
  obtain d' where run: "createBooking demo_book 1 2 demo_db = (Inr (), d')" using demo_creates by blast
  with booking_effect[of demo_book 1 2 demo_db] show ?thesis by (auto simp: count_bookings_def)
qed

text \<open>
  C26. With a working database a booking request is decided by the first failing check (missing
  event, duplicate, not open, full, unknown user), and one that passes them all is made.
\<close>

theorem booking_decided:
  assumes "txFault env = no_faults" "txCommit env = CommitOk"
  shows "case booking_refusal eid uid d of
      Some err \<Rightarrow> fst (createBooking env eid uid d) = Inl err \<and> same_tables d (snd (createBooking env eid uid d))
    | None \<Rightarrow> \<exists>d'. createBooking env eid uid d = (Inr (), d')"
  using createBooking_refused[OF assms(1)] createBooking_succeeds[OF assms] by (auto split: option.splits)

theorem booking_decided_witness:
  "fst (createBooking demo_book 2 2 demo_db) = Inl ErrAlreadyBooked"
proof -
  have "booking_refusal 2 2 demo_db = Some ErrAlreadyBooked"
    by (simp add: booking_refusal_def)
  with booking_decided[of demo_book 2 2 demo_db] show ?thesis by simp
qed

text \<open>
  C27. A booking request returns: with one unit of fuel per millisecond of the waiting budget the
  whole of \<^verbatim>\<open>BookWithLock\<close> ends with an answer.
\<close>

theorem booking_returns:
  assumes "env_ok (bkAttempts env)" "done_at sv env - bkStart env < int fuel * Millisecond" "0 < fuel"
    and "\<And>t. bkGateAt env = Some t \<Longrightarrow> bkStart env \<le> t"
  shows "\<exists>res s' d'. BookWithLock api sv env fuel eid uid s d = Some (res, s', d')"
  using assms by (rule BookWithLock_returns)

theorem booking_returns_witness:
  "\<exists>res s' d'. BookWithLock kv_api demo_sv demo_book 10001 1 2 [lockKey 1 \<mapsto> (''x'', 60 * Second)] demo_db
     = Some (res, s', d')"
  by (rule booking_returns) (simp_all add: calm_ok Second_def Millisecond_def)

text \<open>
  C21. The lock is given back and only by its owner: after a successful request whose release
  call went through, the key no longer holds this request's token; if another client's token
  was there by then, the release left it alone; other keys are not affected.
\<close>

theorem booking_releases_lock:
  assumes "redis_server api" "BookWithLock api sv env fuel eid uid s d = Some (Inr (), s', d')"
    and "\<not> bkReleaseFault env" "gate_entered sv env = Some t0" "newToken (bkTokenBytes env) = Inr (token, rest)"
    and "acquireRedisLock api (bkAttempts env) (svLockTTL sv) (done_at sv env) (lockKey eid) token fuel t0 s
      = Some (Inr (), t1, s1)"
  shows "(\<forall>t \<ge> bkReleaseAt env. rdGet api s' t (lockKey eid) \<noteq> Some token) \<and>
    (\<forall>w. w \<noteq> token \<longrightarrow> rdGet api (bkOthers env s1) (bkReleaseAt env) (lockKey eid) = Some w \<longrightarrow>
       s' = bkOthers env s1) \<and>
    (\<forall>k t. k \<noteq> lockKey eid \<longrightarrow> bkReleaseAt env \<le> t \<longrightarrow> rdGet api s' t k = rdGet api (bkOthers env s1) t k)"
  using assms by (rule BookWithLock_released)

theorem booking_releases_lock_witness:
  "\<exists>s' d' token. BookWithLock kv_api demo_sv demo_book 1 1 2 Map.empty demo_db = Some (Inr (), s', d') \<and>
     newToken (bkTokenBytes demo_book) = Inr (token, []) \<and> rdGet kv_api s' Second (lockKey 1) \<noteq> Some token"
proof -
  obtain token where token: "newToken (bkTokenBytes demo_book) = Inr (token, [])" using demo_token by blast
  obtain s' d' where run: "BookWithLock kv_api demo_sv demo_book 1 1 2 Map.empty demo_db = Some (Inr (), s', d')"
    using demo_books by blast
  obtain t s1 where acq: "acquireRedisLock kv_api (bkAttempts demo_book) (svLockTTL demo_sv)
      (done_at demo_sv demo_book) (lockKey 1) token 1 0 Map.empty = Some (Inr (), t, s1)"
    using demo_acquires[of "lockKey 1" token] by auto
  have "rdGet kv_api s' Second (lockKey 1) \<noteq> Some token"
    using booking_releases_lock[OF kv.redis_server_axioms run _ _ token acq] by simp
  with run token show ?thesis by blast
qed

end
