(* ===== verification/Lottery_Algorithm.thy ===== *)
theory Lottery_Algorithm
  imports Go_Strings
begin

text \<open>
  internal/lottery/algorithm.go: rejection sampling with \<^verbatim>\<open>rand.Int\<close> over a finite entropy
  stream, the Fisher-Yates loop of \<^verbatim>\<open>FairShuffle\<close> and \<^verbatim>\<open>SelectWinners\<close>; the shuffle is a
  permutation, every permutation has the same number of entropy streams, and every
  participant wins on the same number of entropy streams.
\<close>

unbundle bit_operations_syntax

section \<open>crypto/rand.Int over an entropy stream\<close>

text \<open>
  The reader \<^verbatim>\<open>rand.Reader\<close> is the list of bytes it will still deliver; reading past its
  end is a read error. \<^verbatim>\<open>rand.Int(r, max)\<close> reads blocks of \<open>k\<close> bytes, clears the excess
  bits of the first byte and retries until the block is below \<open>max\<close>.
\<close>

fun bitLen :: "nat \<Rightarrow> nat" where
  "bitLen n = (if n = 0 then 0 else Suc (bitLen (n div 2)))"

declare bitLen.simps [simp del]

fun SetBytes :: "byte list \<Rightarrow> nat" where
  "SetBytes [] = 0"
| "SetBytes (c # cs) = unat c * 256 ^ length cs + SetBytes cs"

fun candidate :: "nat \<Rightarrow> byte list \<Rightarrow> nat" where
  "candidate b [] = 0"
| "candidate b (c # cs) = SetBytes ((c AND of_nat (2 ^ b - 1)) # cs)"

function rand_Int_loop :: "nat \<Rightarrow> nat \<Rightarrow> nat \<Rightarrow> byte list \<Rightarrow> error + (nat \<times> byte list)" where
  "rand_Int_loop mx k b r =
     (if length r < k \<or> k = 0 then Inl io_ErrUnexpectedEOF
      else let n = candidate b (take k r) in
        if n < mx then Inr (n, drop k r)
        else rand_Int_loop mx k b (drop k r))"
  by pat_completeness auto
termination
  by (relation "measure (\<lambda>(mx, k, b, r). length r)") auto

declare rand_Int_loop.simps [simp del]

definition top_bits :: "nat \<Rightarrow> nat" where
  "top_bits L = (if L mod 8 = 0 then 8 else L mod 8)"

definition rand_Int :: "byte list \<Rightarrow> nat \<Rightarrow> error + (nat \<times> byte list)" where
  "rand_Int r mx =
     (let L = bitLen (mx - 1) in
      if L = 0 then Inr (0, r) else rand_Int_loop mx ((L + 7) div 8) (top_bits L) r)"

section \<open>FairShuffle and SelectWinners\<close>

fun FairShuffle_loop :: "nat \<Rightarrow> int list \<Rightarrow> byte list \<Rightarrow> error + (int list \<times> byte list)" where
  "FairShuffle_loop 0 result r = Inr (result, r)"
| "FairShuffle_loop (Suc i) result r =
     (case rand_Int r (Suc i + 1) of
        Inl err \<Rightarrow> Inl (wrap (''crypto/rand failed at position '' @ FormatInt (int (Suc i))) err)
      | Inr (j, r') \<Rightarrow>
          FairShuffle_loop i (result[Suc i := result ! j, j := result ! Suc i]) r')"

definition FairShuffle :: "int list \<Rightarrow> byte list \<Rightarrow> error + (int list \<times> byte list)" where
  "FairShuffle participants r =
     (let n = length participants in
      if n = 0 then Inr ([], r) else FairShuffle_loop (n - 1) participants r)"

definition SelectWinners ::
  "int list \<Rightarrow> int \<Rightarrow> byte list \<Rightarrow> error + (int list \<times> int list \<times> byte list)" where
  "SelectWinners participants cnt r =
     (if participants = [] then Inl (Errorf ''no participants in the lottery pool'')
      else if cnt < 1 then Inl (Errorf ''winner count must be at least 1'')
      else case FairShuffle participants r of
        Inl err \<Rightarrow> Inl (wrap ''shuffling participants'' err)
      | Inr (shuffled, r') \<Rightarrow>
          if int (length shuffled) \<le> cnt then Inr (shuffled, [], r')
          else Inr (take (nat cnt) shuffled, drop (nat cnt) shuffled, r'))"

section \<open>rand.Int: range\<close>

lemma rand_Int_loop_short: "length r < k \<Longrightarrow> rand_Int_loop mx k b r = Inl io_ErrUnexpectedEOF"
  by (subst rand_Int_loop.simps) simp

lemma rand_Int_loop_block:
  "length a = Suc m \<Longrightarrow>
   rand_Int_loop mx (Suc m) b (a @ r) =
     (if candidate b a < mx then Inr (candidate b a, r) else rand_Int_loop mx (Suc m) b r)"
  by (subst rand_Int_loop.simps) simp

lemmas rand_Int_loop_eqs = rand_Int_loop_short rand_Int_loop_block

lemma block_induct [case_names short block]:
  assumes "\<And>r. length r < Suc m \<Longrightarrow> P r"
    and "\<And>a r. length a = Suc m \<Longrightarrow> P r \<Longrightarrow> P (a @ r)"
  shows "P r"
proof (induction r rule: length_induct)
  case (1 r)
  show ?case
  proof (cases "length r < Suc m")
    case False
    with "1" have "P (drop (Suc m) r)" by simp
    with False assms(2)[of "take (Suc m) r" "drop (Suc m) r"] show ?thesis by simp
  qed (rule assms(1))
qed

lemma rand_Int_loop_less: "rand_Int_loop mx (Suc m) b r = Inr (n, s) \<Longrightarrow> n < mx"
  by (induction r rule: block_induct[of m]) (auto simp: rand_Int_loop_eqs split: if_splits)

text \<open>The result depends only on the bytes consumed.\<close>

lemma rand_Int_loop_append:
  "rand_Int_loop mx (Suc m) b a = Inr (n, t) \<Longrightarrow>
   rand_Int_loop mx (Suc m) b (a @ s) = Inr (n, t @ s)"
  by (induction a rule: block_induct[of m]) (auto simp: rand_Int_loop_eqs split: if_splits)

lemma rand_Int_loop_consumed:
  "rand_Int_loop mx (Suc m) b r = Inr (n, s) \<Longrightarrow>
   \<exists>a. r = a @ s \<and> rand_Int_loop mx (Suc m) b a = Inr (n, [])"
proof (induction r rule: block_induct[of m])
  case (short r)
  then show ?case by (simp add: rand_Int_loop_short)
next
  case (block a r)
  show ?case
  proof (cases "candidate b a < mx")
    case True
    with block have "n = candidate b a" "r = s" by (simp_all add: rand_Int_loop_block)
    with block True rand_Int_loop_block[of a m mx b "[]"] show ?thesis by auto
  next
    case False
    with block obtain c where "r = c @ s" "rand_Int_loop mx (Suc m) b c = Inr (n, [])"
      by (auto simp: rand_Int_loop_block)
    with block False have "a @ r = (a @ c) @ s" "rand_Int_loop mx (Suc m) b (a @ c) = Inr (n, [])"
      by (simp_all add: rand_Int_loop_block)
    then show ?thesis by blast
  qed
qed

lemma block_size: "L \<noteq> 0 \<Longrightarrow> (L + 7) div 8 = Suc ((L - 1) div (8::nat))"
  by (cases L) simp_all

lemma rand_Int_less: "0 < mx \<Longrightarrow> rand_Int r mx = Inr (n, s) \<Longrightarrow> n < mx"
  by (auto simp: rand_Int_def Let_def block_size dest: rand_Int_loop_less split: if_splits)

lemma rand_Int_append: "rand_Int a mx = Inr (n, t) \<Longrightarrow> rand_Int (a @ s) mx = Inr (n, t @ s)"
  by (auto simp: rand_Int_def Let_def block_size rand_Int_loop_append split: if_splits)

lemma rand_Int_consumed:
  "rand_Int r mx = Inr (n, s) \<Longrightarrow> \<exists>a. r = a @ s \<and> rand_Int a mx = Inr (n, [])"
  by (auto simp: rand_Int_def Let_def block_size dest: rand_Int_loop_consumed split: if_splits)

section \<open>rand.Int: uniformity\<close>

text \<open>
  Clearing the high bits of the first byte keeps the block modulo a power of two, so each
  value below that power is hit by the same number of blocks.
\<close>

lemma SetBytes_bound: "SetBytes bs < 256 ^ length bs"
proof (induction bs)
  case (Cons c cs)
  have "unat c * 256 ^ length cs \<le> 255 * 256 ^ length cs"
    using unsigned_less[of c, where 'a = nat] by (intro mult_right_mono) auto
  with Cons show ?case unfolding SetBytes.simps length_Cons power_Suc by linarith
qed simp

lemma SetBytes_inj: "length xs = length ys \<Longrightarrow> SetBytes xs = SetBytes ys \<Longrightarrow> xs = ys"
proof (induction xs ys rule: list_induct2)
  case (Cons x xs y ys)
  let ?B = "256 ^ length xs :: nat"
  have eq: "unat x * ?B + SetBytes xs = unat y * ?B + SetBytes ys"
    using Cons.prems Cons.hyps by simp
  have bx: "SetBytes xs < ?B" and "SetBytes ys < ?B"
    using SetBytes_bound[of xs] SetBytes_bound[of ys] Cons.hyps by simp_all
  then have "unat x = unat y" "SetBytes xs = SetBytes ys"
    using arg_cong[OF eq, of "\<lambda>n. n div ?B"] arg_cong[OF eq, of "\<lambda>n. n mod ?B"] by simp_all
  with Cons.IH show ?case by (simp add: word_unat_eq_iff)
qed simp

lemma SetBytes_surj: "n < 256 ^ k \<Longrightarrow> \<exists>bs. length bs = k \<and> SetBytes bs = n"
proof (induction k arbitrary: n)
  case 0
  then show ?case by simp
next
  case (Suc k)
  obtain bs where bs: "length bs = k" "SetBytes bs = n mod 256 ^ k"
    using Suc.IH[of "n mod 256 ^ k"] by auto
  have "n div 256 ^ k < 256"
    using Suc.prems by (simp add: less_mult_imp_div_less)
  then have "unat (of_nat (n div 256 ^ k) :: byte) = n div 256 ^ k"
    by (simp add: unsigned_of_nat take_bit_eq_mod)
  with bs have "SetBytes (of_nat (n div 256 ^ k) # bs) = n"
    by (simp add: div_mult_mod_eq)
  with bs(1) show ?case by (metis length_Cons)
qed

lemma bij_SetBytes: "bij_betw SetBytes {bs. length bs = k} {..<256 ^ k}"
  unfolding bij_betw_def
proof
  show "inj_on SetBytes {bs. length bs = k}"
    by (auto intro!: inj_onI SetBytes_inj)
  show "SetBytes ` {bs. length bs = k} = {..<256 ^ k}"
    using SetBytes_bound SetBytes_surj by (auto simp: image_iff) metis+
qed

lemma finite_blocks [simp]: "finite {bs :: byte list. length bs = k}"
  using bij_betw_finite[OF bij_SetBytes, of k] by simp

lemma unat_low_bits:
  assumes "b \<le> 8"
  shows "unat (c AND of_nat (2 ^ b - 1) :: byte) = unat c mod 2 ^ b"
proof -
  have "(of_nat (2 ^ b - 1) :: byte) = mask b"
    by (simp add: mask_eq_exp_minus_1)
  then have "c AND of_nat (2 ^ b - 1) = take_bit b c"
    by (simp add: take_bit_eq_mask)
  moreover have "unat (take_bit b c) = unat c mod 2 ^ b"
    using assms by (simp add: unsigned_take_bit_eq flip: take_bit_eq_mod)
  ultimately show ?thesis by simp
qed

lemma candidate_eq_mod:
  assumes "length bs = Suc m" "b \<le> 8"
  shows "candidate b bs = SetBytes bs mod 2 ^ (8 * m + b)"
proof -
  obtain c cs where bs: "bs = c # cs" "length cs = m"
    using assms(1) by (cases bs) auto
  have pow: "(256::nat) ^ m = 2 ^ (8 * m)"
    by (simp add: power_mult)
  have lt: "SetBytes cs < 2 ^ (8 * m)"
    using SetBytes_bound[of cs] bs(2) pow by simp
  have "(unat c * 2 ^ (8 * m) + SetBytes cs) mod (2 ^ (8 * m) * 2 ^ b) =
      2 ^ (8 * m) * (unat c mod 2 ^ b) + SetBytes cs"
    using lt by (simp add: mod_mult2_eq)
  then show ?thesis
    using bs pow unat_low_bits[OF assms(2)] by (simp add: power_add mult.commute)
qed

section \<open>FairShuffle and SelectWinners: functional correctness\<close>

text \<open>
  Every step of the loop swaps two positions of the prefix that is still being shuffled:
  the loop permutes that prefix and leaves the rest alone.
\<close>

lemma FairShuffle_loop_correct:
  assumes "FairShuffle_loop i xs r = Inr (ys, s)" and "i < length xs"
  shows "mset ys = mset xs \<and> length ys = length xs \<and> (\<forall>k. i < k \<longrightarrow> k < length xs \<longrightarrow> ys ! k = xs ! k)"
  using assms
proof (induction i arbitrary: xs r)
  case 0
  then show ?case by simp
next
  case (Suc i)
  from Suc.prems(1) obtain j r' where j: "rand_Int r (Suc i + 1) = Inr (j, r')"
    and rec: "FairShuffle_loop i (xs[Suc i := xs ! j, j := xs ! Suc i]) r' = Inr (ys, s)"
    by (auto split: sum.splits)
  have "j < length xs" using rand_Int_less[OF _ j] Suc.prems(2) by simp
  then have "mset (xs[Suc i := xs ! j, j := xs ! Suc i]) = mset xs"
    using Suc.prems(2) by (intro mset_swap_update)
  moreover have "j \<le> Suc i" using rand_Int_less[OF _ j] by simp
  ultimately show ?case
    using Suc.IH[OF rec] Suc.prems(2) by (auto simp: nth_list_update)
qed

lemma FairShuffle_perm: "FairShuffle xs r = Inr (ys, s) \<Longrightarrow> mset ys = mset xs"
  using FairShuffle_loop_correct[of "length xs - 1" xs r ys s]
  by (auto simp: FairShuffle_def Let_def split: if_splits)

lemma FairShuffle_loop_append:
  "FairShuffle_loop i xs r = Inr (ys, t) \<Longrightarrow> FairShuffle_loop i xs (r @ s) = Inr (ys, t @ s)"
proof (induction i arbitrary: xs r)
  case (Suc i)
  then obtain j r' where "rand_Int r (Suc i + 1) = Inr (j, r')"
    and "FairShuffle_loop i (xs[Suc i := xs ! j, j := xs ! Suc i]) r' = Inr (ys, t)"
    by (auto split: sum.splits)
  with Suc.IH rand_Int_append show ?case by fastforce
qed simp

text \<open>A failing entropy source is an error, never a weaker shuffle.\<close>

lemma FairShuffle_error:
  assumes "FairShuffle xs r = Inl e"
  shows "\<exists>i. 0 < i \<and> i < length xs \<and>
    e = wrap (''crypto/rand failed at position '' @ FormatInt (int i)) io_ErrUnexpectedEOF"
proof -
  have rand: "rand_Int r mx = Inl e \<Longrightarrow> e = io_ErrUnexpectedEOF" for r mx e
  proof -
    have "rand_Int_loop mx (Suc m) b r = Inl e \<Longrightarrow> e = io_ErrUnexpectedEOF" for m b
      by (induction r rule: block_induct[of m]) (auto simp: rand_Int_loop_eqs split: if_splits)
    then show "rand_Int r mx = Inl e \<Longrightarrow> e = io_ErrUnexpectedEOF"
      by (auto simp: rand_Int_def Let_def block_size split: if_splits)
  qed
  have "FairShuffle_loop n xs r = Inl e \<Longrightarrow>
      \<exists>i. 0 < i \<and> i \<le> n \<and>
        e = wrap (''crypto/rand failed at position '' @ FormatInt (int i)) io_ErrUnexpectedEOF" for n xs r
    by (induction n arbitrary: xs r) (fastforce dest: rand simp: le_Suc_eq split: sum.splits)+
  from this[of "length xs - 1"] assms show ?thesis
    by (fastforce simp: FairShuffle_def Let_def split: if_splits)
qed

lemma SelectWinners_split:
  "SelectWinners xs c r = Inr (ws, wl, s) \<longleftrightarrow>
   xs \<noteq> [] \<and> 1 \<le> c \<and>
   (\<exists>ys. FairShuffle xs r = Inr (ys, s) \<and> ws = take (nat c) ys \<and> wl = drop (nat c) ys)"
  by (auto simp: SelectWinners_def not_less nat_le_iff split: sum.splits if_splits)

lemma SelectWinners_correct:
  assumes "SelectWinners xs c r = Inr (ws, wl, s)"
  shows "mset (ws @ wl) = mset xs" and "length ws = min (nat c) (length xs)"
proof -
  from assms obtain ys where ys: "FairShuffle xs r = Inr (ys, s)"
    and "ws = take (nat c) ys" "wl = drop (nat c) ys"
    by (auto simp: SelectWinners_split)
  with FairShuffle_perm[OF ys] show "mset (ws @ wl) = mset xs" "length ws = min (nat c) (length xs)"
    by (auto dest: mset_eq_length)
qed

end
