(* ===== verification/Lottery_Fairness.thy ===== *)
theory Lottery_Fairness
  imports Lottery_Algorithm
begin

text \<open>
  Fairness of the draw, as exact counting over entropy streams: \<^verbatim>\<open>rand.Int\<close> hits each value
  equally often, \<^verbatim>\<open>FairShuffle\<close> produces each permutation equally often, and
  \<^verbatim>\<open>SelectWinners\<close> lets each participant win equally often, rejection sampling included.
\<close>

section \<open>rand.Int\<close>

lemma bitLen_bound: "n < 2 ^ bitLen n"
proof (induction n rule: bitLen.induct)
  case (1 n)
  show ?case
  proof (cases "n = 0")
    case True
    then show ?thesis by (subst bitLen.simps) simp
  next
    case False
    with "1" have "n div 2 < 2 ^ bitLen (n div 2)" by simp
    with False show ?thesis by (subst bitLen.simps) simp
  qed
qed

lemma top_bits_le: "top_bits L \<le> 8"
  by (simp add: top_bits_def)

lemma top_bits_size: "L \<noteq> 0 \<Longrightarrow> 8 * ((L - 1) div 8) + top_bits L = L"
proof -
  assume "L \<noteq> 0"
  then obtain n where n: "L = Suc n" by (cases L) auto
  have eq: "8 * (n div 8) + n mod 8 = n" by (rule mult_div_mod_eq)
  show ?thesis
  proof (cases "n mod 8 = 7")
    case True
    with eq have "8 * (n div 8) + 8 = Suc n" by linarith
    with True show ?thesis by (simp add: top_bits_def n mod_Suc)
  next
    case False
    then show ?thesis by (simp add: top_bits_def n mod_Suc)
  qed
qed

lemma card_mod_class:
  assumes "L \<le> K" and "v < 2 ^ L"
  shows "card {x::nat. x < 2 ^ K \<and> x mod 2 ^ L = v} = 2 ^ (K - L)"
proof -
  have pow: "(2::nat) ^ K = 2 ^ (K - L) * 2 ^ L"
    using assms(1) by (simp flip: power_add)
  have "{x::nat. x < 2 ^ K \<and> x mod 2 ^ L = v} = (\<lambda>y. y * 2 ^ L + v) ` {..<2 ^ (K - L)}"
  proof (intro set_eqI iffI)
    fix x assume x: "x \<in> {x::nat. x < 2 ^ K \<and> x mod 2 ^ L = v}"
    then have "x div 2 ^ L < 2 ^ (K - L)" by (simp add: pow less_mult_imp_div_less)
    moreover have "x = x div 2 ^ L * 2 ^ L + v" using x by (metis (mono_tags) div_mult_mod_eq mem_Collect_eq)
    ultimately show "x \<in> (\<lambda>y. y * 2 ^ L + v) ` {..<2 ^ (K - L)}" by blast
  next
    fix x assume "x \<in> (\<lambda>y. y * 2 ^ L + v) ` {..<2 ^ (K - L)}"
    then obtain y where y: "y < 2 ^ (K - L)" "x = y * 2 ^ L + v" by auto
    have "x < (y + 1) * 2 ^ L" using y assms(2) by simp
    also have "\<dots> \<le> 2 ^ (K - L) * 2 ^ L" using y(1) by (intro mult_right_mono) auto
    finally show "x \<in> {x::nat. x < 2 ^ K \<and> x mod 2 ^ L = v}" using y assms(2) pow by simp
  qed
  moreover have "inj_on (\<lambda>y. y * 2 ^ L + v) {..<(2::nat) ^ (K - L)}"
    by (auto intro: inj_onI)
  ultimately show ?thesis by (simp add: card_image)
qed

text \<open>Every value below the power of two is the candidate of the same number of blocks.\<close>

lemma card_blocks:
  assumes "b \<le> 8" and "v < 2 ^ (8 * m + b)"
  shows "card {a. length a = Suc m \<and> candidate b a = v} = 2 ^ (8 - b)"
proof -
  let ?K = "8 * Suc m" and ?L = "8 * m + b"
  have pow: "(256::nat) ^ Suc m = 2 ^ ?K" unfolding power_mult by simp
  have "bij_betw SetBytes {a. length a = Suc m \<and> candidate b a = v} {x. x < 2 ^ ?K \<and> x mod 2 ^ ?L = v}"
  proof (rule bij_betw_imageI)
    show "inj_on SetBytes {a. length a = Suc m \<and> candidate b a = v}"
      by (rule inj_on_subset[OF bij_betw_imp_inj_on[OF bij_SetBytes[of "Suc m"]]]) auto
    show "SetBytes ` {a. length a = Suc m \<and> candidate b a = v} = {x. x < 2 ^ ?K \<and> x mod 2 ^ ?L = v}"
    proof (intro set_eqI iffI)
      fix x assume "x \<in> {x. x < 2 ^ ?K \<and> x mod 2 ^ ?L = v}"
      moreover from this obtain a where "length a = Suc m" "SetBytes a = x"
        using SetBytes_surj[of x "Suc m"] pow by auto
      ultimately show "x \<in> SetBytes ` {a. length a = Suc m \<and> candidate b a = v}"
        using candidate_eq_mod[OF _ assms(1)] by auto
    next
      fix x assume "x \<in> SetBytes ` {a. length a = Suc m \<and> candidate b a = v}"
      then obtain a where a: "length a = Suc m" "candidate b a = v" "x = SetBytes a" by auto
      then show "x \<in> {x. x < 2 ^ ?K \<and> x mod 2 ^ ?L = v}"
        using SetBytes_bound[of a] candidate_eq_mod[OF a(1) assms(1)] pow by simp
    qed
  qed
  then have "card {a. length a = Suc m \<and> candidate b a = v} = card {x::nat. x < 2 ^ ?K \<and> x mod 2 ^ ?L = v}"
    by (rule bij_betw_same_card)
  also have "\<dots> = 2 ^ (?K - ?L)"
    using assms by (intro card_mod_class) auto
  finally show ?thesis by simp
qed

text \<open>The streams of length \<open>N\<close> that \<^verbatim>\<open>rand.Int\<close> consumes entirely while returning \<open>v\<close>.\<close>

definition loop_streams :: "nat \<Rightarrow> nat \<Rightarrow> nat \<Rightarrow> nat \<Rightarrow> nat \<Rightarrow> byte list set" where
  "loop_streams mx k b v N = {r. length r = N \<and> rand_Int_loop mx k b r = Inr (v, [])}"

definition int_streams :: "nat \<Rightarrow> nat \<Rightarrow> nat \<Rightarrow> byte list set" where
  "int_streams mx v N = {r. length r = N \<and> rand_Int r mx = Inr (v, [])}"

lemma finite_streams [simp]:
  "finite (loop_streams mx k b v N)" "finite (int_streams mx v N)"
  by (auto simp: loop_streams_def int_streams_def intro: finite_subset[OF _ finite_blocks[of N]])

lemma loop_streams_short: "N < k \<Longrightarrow> loop_streams mx k b v N = {}"
  by (auto simp: loop_streams_def rand_Int_loop_short)

lemma loop_streams_step:
  assumes "v < mx"
  shows "loop_streams mx (Suc m) b v (Suc m + N) =
     (if N = 0 then {a. length a = Suc m \<and> candidate b a = v} else {}) \<union>
     (\<lambda>(a, r). a @ r) ` ({a. length a = Suc m \<and> mx \<le> candidate b a} \<times> loop_streams mx (Suc m) b v N)"
    (is "?S = ?A \<union> ?R")
proof (intro set_eqI iffI)
  fix s assume "s \<in> ?S"
  then have s: "length s = Suc m + N" "rand_Int_loop mx (Suc m) b s = Inr (v, [])"
    by (simp_all add: loop_streams_def)
  define a r where "a = take (Suc m) s" and "r = drop (Suc m) s"
  have ar: "s = a @ r" "length a = Suc m" "length r = N" using s(1) by (simp_all add: a_def r_def)
  with s(2) have res: "(if candidate b a < mx then Inr (candidate b a, r) else rand_Int_loop mx (Suc m) b r) = Inr (v, [])"
    by (simp add: rand_Int_loop_block)
  show "s \<in> ?A \<union> ?R"
  proof (cases "candidate b a < mx")
    case True
    with res ar show ?thesis by auto
  next
    case False
    with res ar have "(a, r) \<in> {a. length a = Suc m \<and> mx \<le> candidate b a} \<times> loop_streams mx (Suc m) b v N"
      by (simp add: loop_streams_def)
    with ar(1) show ?thesis by (intro UnI2 image_eqI[of _ _ "(a, r)"]) auto
  qed
next
  fix s assume "s \<in> ?A \<union> ?R"
  then show "s \<in> ?S"
  proof
    assume "s \<in> ?A"
    then have "N = 0" "length s = Suc m" "candidate b s = v" by (auto split: if_splits)
    with assms rand_Int_loop_block[of s m mx b "[]"] show ?thesis by (simp add: loop_streams_def)
  next
    assume "s \<in> ?R"
    then show ?thesis by (auto simp: loop_streams_def rand_Int_loop_block)
  qed
qed

lemma inj_append_fixed:
  "inj_on (\<lambda>(a, r). a @ r) ({a. length a = k \<and> P a} \<times> R)"
proof (rule inj_onI)
  fix x y
  assume "x \<in> {a. length a = k \<and> P a} \<times> R" "y \<in> {a. length a = k \<and> P a} \<times> R"
    and "(case x of (a, r) \<Rightarrow> a @ r) = (case y of (a, r) \<Rightarrow> a @ r)"
  then have "fst x @ snd x = fst y @ snd y" "length (fst x) = length (fst y)"
    by (simp_all add: case_prod_beta mem_Times_iff)
  then have "fst x = fst y \<and> snd x = snd y"
    using append_eq_append_conv by blast
  then show "x = y" by (simp add: prod_eq_iff)
qed

lemma card_loop_streams_step:
  assumes "v < mx"
  shows "card (loop_streams mx (Suc m) b v (Suc m + N)) =
     (if N = 0 then card {a. length a = Suc m \<and> candidate b a = v} else 0) +
     card {a. length a = Suc m \<and> mx \<le> candidate b a} * card (loop_streams mx (Suc m) b v N)"
proof -
  let ?rej = "{a. length a = Suc m \<and> mx \<le> candidate b a}"
  let ?blk = "if N = 0 then {a. length a = Suc m \<and> candidate b a = v} else {}"
  let ?img = "(\<lambda>(a, r). a @ r) ` (?rej \<times> loop_streams mx (Suc m) b v N)"
  have fin: "finite ?rej" "finite ?blk"
    by (auto intro: finite_subset[OF _ finite_blocks[of "Suc m"]])
  have "?blk \<inter> ?img = {}"
    by (cases "N = 0") (auto simp: loop_streams_def rand_Int_loop_short)
  with fin have "card (?blk \<union> ?img) = card ?blk + card ?img"
    by (intro card_Un_disjoint) simp_all
  moreover have "card ?img = card ?rej * card (loop_streams mx (Suc m) b v N)"
    by (simp add: card_image[OF inj_append_fixed] card_cartesian_product)
  ultimately show ?thesis
    unfolding loop_streams_step[OF assms] by simp
qed

lemma card_loop_streams:
  assumes "v < mx" "w < mx" "mx \<le> 2 ^ (8 * m + b)" "b \<le> 8"
  shows "card (loop_streams mx (Suc m) b v N) = card (loop_streams mx (Suc m) b w N)"
proof (induction N rule: less_induct)
  case (less N)
  show ?case
  proof (cases "N < Suc m")
    case True
    then show ?thesis by (simp add: loop_streams_short)
  next
    case False
    then obtain M where N: "N = Suc m + M" using le_iff_add not_less by metis
    have "card (loop_streams mx (Suc m) b v M) = card (loop_streams mx (Suc m) b w M)"
      using N by (intro less.IH) simp
    moreover have "v < 2 ^ (8 * m + b)" "w < 2 ^ (8 * m + b)" using assms by simp_all
    ultimately show ?thesis
      unfolding N card_loop_streams_step[OF assms(1)] card_loop_streams_step[OF assms(2)]
      using card_blocks[OF assms(4)] by simp
  qed
qed

lemma card_int_streams:
  assumes "v < mx" "w < mx"
  shows "card (int_streams mx v N) = card (int_streams mx w N)"
proof -
  define L where "L = bitLen (mx - 1)"
  have bound: "mx \<le> 2 ^ L" using bitLen_bound[of "mx - 1"] assms by (simp add: L_def)
  show ?thesis
  proof (cases "L = 0")
    case True
    with bound assms have "v = w" by simp
    then show ?thesis by simp
  next
    case False
    have "mx \<le> 2 ^ (8 * ((L - 1) div 8) + top_bits L)"
      unfolding top_bits_size[OF False] by (rule bound)
    then have "card (loop_streams mx (Suc ((L - 1) div 8)) (top_bits L) v N) =
        card (loop_streams mx (Suc ((L - 1) div 8)) (top_bits L) w N)"
      using assms by (intro card_loop_streams) (simp_all add: top_bits_le)
    moreover have "rand_Int r mx = rand_Int_loop mx (Suc ((L - 1) div 8)) (top_bits L) r" for r
      using False unfolding rand_Int_def L_def[symmetric] Let_def by (simp only: block_size[OF False] if_False)
    ultimately show ?thesis
      by (simp add: int_streams_def loop_streams_def)
  qed
qed

section \<open>FairShuffle\<close>

definition loop_shuffles :: "nat \<Rightarrow> int list \<Rightarrow> int list \<Rightarrow> nat \<Rightarrow> byte list set" where
  "loop_shuffles i xs ys N = {r. length r = N \<and> FairShuffle_loop i xs r = Inr (ys, [])}"

lemma finite_loop_shuffles [simp]: "finite (loop_shuffles i xs ys N)"
  by (auto simp: loop_shuffles_def intro: finite_subset[OF _ finite_blocks[of N]])

text \<open>How many streams of length \<open>N\<close> drive the loop to one given outcome.\<close>

fun shuffle_hits :: "nat \<Rightarrow> nat \<Rightarrow> nat" where
  "shuffle_hits 0 N = (if N = 0 then 1 else 0)"
| "shuffle_hits (Suc i) N = (\<Sum>n\<le>N. card (int_streams (i + 2) 0 n) * shuffle_hits i (N - n))"

lemma FairShuffle_loop_stream:
  "FairShuffle_loop (Suc i) xs r = Inr (ys, []) \<longleftrightarrow>
   (\<exists>j a b. r = a @ b \<and> rand_Int a (i + 2) = Inr (j, []) \<and>
      FairShuffle_loop i (xs[Suc i := xs ! j, j := xs ! Suc i]) b = Inr (ys, []))"
proof
  assume "FairShuffle_loop (Suc i) xs r = Inr (ys, [])"
  then obtain j b where "rand_Int r (i + 2) = Inr (j, b)"
    and "FairShuffle_loop i (xs[Suc i := xs ! j, j := xs ! Suc i]) b = Inr (ys, [])"
    by (auto split: sum.splits)
  with rand_Int_consumed show "\<exists>j a b. r = a @ b \<and> rand_Int a (i + 2) = Inr (j, []) \<and>
      FairShuffle_loop i (xs[Suc i := xs ! j, j := xs ! Suc i]) b = Inr (ys, [])" by blast
next
  assume "\<exists>j a b. r = a @ b \<and> rand_Int a (i + 2) = Inr (j, []) \<and>
      FairShuffle_loop i (xs[Suc i := xs ! j, j := xs ! Suc i]) b = Inr (ys, [])"
  then obtain j a b where "r = a @ b" "rand_Int a (i + 2) = Inr (j, [])"
    "FairShuffle_loop i (xs[Suc i := xs ! j, j := xs ! Suc i]) b = Inr (ys, [])" by blast
  with rand_Int_append[of a "i + 2" j "[]" b] show "FairShuffle_loop (Suc i) xs r = Inr (ys, [])"
    by simp
qed

text \<open>
  The outcome fixes the index drawn in each step, since the element moved to position
  \<open>Suc i\<close> is never touched again.
\<close>

lemma loop_shuffles_step:
  assumes "distinct xs" "Suc i < length xs" "j \<le> Suc i" "xs ! j = ys ! Suc i"
  shows "loop_shuffles (Suc i) xs ys N =
    (\<Union>n\<le>N. (\<lambda>(a, b). a @ b) `
       (int_streams (i + 2) j n \<times> loop_shuffles i (xs[Suc i := xs ! j, j := xs ! Suc i]) ys (N - n)))"
    (is "?S = ?U")
proof (intro set_eqI iffI)
  fix r assume "r \<in> ?S"
  then obtain j' a b where r: "length r = N" "r = a @ b" and a: "rand_Int a (i + 2) = Inr (j', [])"
    and b: "FairShuffle_loop i (xs[Suc i := xs ! j', j' := xs ! Suc i]) b = Inr (ys, [])"
    unfolding loop_shuffles_def mem_Collect_eq FairShuffle_loop_stream by blast
  have j': "j' < length xs" "j' \<le> Suc i" using rand_Int_less[OF _ a] assms(2) by simp_all
  have "ys ! Suc i = xs[Suc i := xs ! j', j' := xs ! Suc i] ! Suc i"
    using FairShuffle_loop_correct[OF b] assms(2) by simp
  also have "\<dots> = xs ! j'" using j' assms(2) by (auto simp: nth_list_update)
  finally have "j' = j" using assms j' by (simp add: nth_eq_iff_index_eq)
  with r a b have "(a, b) \<in> int_streams (i + 2) j (length a) \<times>
      loop_shuffles i (xs[Suc i := xs ! j, j := xs ! Suc i]) ys (N - length a)"
    by (auto simp: int_streams_def loop_shuffles_def)
  with r show "r \<in> ?U" by (intro UN_I[of "length a"] image_eqI[of _ _ "(a, b)"]) auto
next
  fix r assume "r \<in> ?U"
  then show "r \<in> ?S"
    unfolding loop_shuffles_def int_streams_def
    by (auto simp: FairShuffle_loop_stream simp del: FairShuffle_loop.simps)
qed

lemma card_stream_concat:
  assumes fin: "\<And>n. finite (A n)" "\<And>n. finite (B n)" and len: "\<And>n a. a \<in> A n \<Longrightarrow> length a = n"
    and det: "\<And>n m a b a' b'. a \<in> A n \<Longrightarrow> a' \<in> A m \<Longrightarrow> a @ b = a' @ b' \<Longrightarrow> n = m"
  shows "card (\<Union>n\<le>N. (\<lambda>(a, b). a @ b) ` (A n \<times> B (N - n))) = (\<Sum>n\<le>N. card (A n) * card (B (N - n)))"
proof -
  have each: "card ((\<lambda>(a, b). a @ b) ` (A n \<times> B (N - n))) = card (A n) * card (B (N - n))" for n
  proof -
    have "inj_on (\<lambda>(a, b). a @ b) (A n \<times> B (N - n))"
      by (rule inj_on_subset[OF inj_append_fixed[of n "\<lambda>_. True" "B (N - n)"]]) (auto simp: len)
    then show ?thesis by (simp add: card_image card_cartesian_product)
  qed
  have "card (\<Union>n\<le>N. (\<lambda>(a, b). a @ b) ` (A n \<times> B (N - n))) =
      (\<Sum>n\<le>N. card ((\<lambda>(a, b). a @ b) ` (A n \<times> B (N - n))))"
    by (rule card_UN_disjoint) (auto simp: fin dest: det)
  then show ?thesis by (simp only: each)
qed

lemma int_streams_det:
  assumes "a \<in> int_streams mx v n" "a' \<in> int_streams mx w m" "a @ b = a' @ b'"
  shows "n = m"
proof -
  have "rand_Int (a @ b) mx = Inr (v, b)" "rand_Int (a' @ b') mx = Inr (w, b')"
    using assms(1,2) rand_Int_append[of a mx v "[]" b] rand_Int_append[of a' mx w "[]" b']
    by (simp_all add: int_streams_def)
  with assms(3) have "b = b'" by simp
  with assms show ?thesis by (auto simp: int_streams_def)
qed

lemma card_loop_shuffles_step:
  assumes "distinct xs" "Suc i < length xs" "j \<le> Suc i" "xs ! j = ys ! Suc i"
  shows "card (loop_shuffles (Suc i) xs ys N) =
    (\<Sum>n\<le>N. card (int_streams (i + 2) 0 n) *
       card (loop_shuffles i (xs[Suc i := xs ! j, j := xs ! Suc i]) ys (N - n)))"
proof -
  have len: "a \<in> int_streams (i + 2) j n \<Longrightarrow> length a = n" for a n
    by (simp add: int_streams_def)
  have eq: "card (int_streams (i + 2) j n) = card (int_streams (i + 2) 0 n)" for n
    using assms(3) by (intro card_int_streams) simp_all
  have "card (loop_shuffles (Suc i) xs ys N) =
    (\<Sum>n\<le>N. card (int_streams (i + 2) j n) *
       card (loop_shuffles i (xs[Suc i := xs ! j, j := xs ! Suc i]) ys (N - n)))"
    unfolding loop_shuffles_step[OF assms]
    by (rule card_stream_concat) (auto simp: len intro: int_streams_det)
  then show ?thesis by (simp only: eq)
qed

lemma take_drop_length:
  assumes "mset (take n ys) = mset (take n xs)" and "drop n ys = drop n xs"
  shows "length ys = length xs"
proof -
  have "length (take n ys @ drop n ys) = length (take n xs @ drop n xs)"
    using mset_eq_length[OF assms(1)] assms(2) by simp
  then show ?thesis by simp
qed

lemma target_index:
  assumes "distinct xs" "Suc i < length xs" "mset (take (Suc (Suc i)) ys) = mset (take (Suc (Suc i)) xs)"
    and "drop (Suc (Suc i)) ys = drop (Suc (Suc i)) xs"
  obtains j where "j \<le> Suc i" "xs ! j = ys ! Suc i"
    and "distinct (xs[Suc i := xs ! j, j := xs ! Suc i])"
    and "mset (take (Suc i) ys) = mset (take (Suc i) (xs[Suc i := xs ! j, j := xs ! Suc i]))"
    and "drop (Suc i) ys = drop (Suc i) (xs[Suc i := xs ! j, j := xs ! Suc i])"
proof -
  have len: "length ys = length xs" by (rule take_drop_length[OF assms(3,4)])
  have "ys ! Suc i \<in> set (take (Suc (Suc i)) ys)"
    using assms(2) len by (auto simp: in_set_conv_nth intro!: exI[of _ "Suc i"])
  then have "ys ! Suc i \<in> set (take (Suc (Suc i)) xs)"
    using mset_eq_setD[OF assms(3)] by simp
  then obtain j where j: "j \<le> Suc i" "xs ! j = ys ! Suc i"
    by (auto simp: in_set_conv_nth less_Suc_eq_le)
  let ?zs = "xs[Suc i := xs ! j, j := xs ! Suc i]"
  have jl: "j < length xs" using j(1) assms(2) by simp
  have "distinct ?zs" using assms(1,2) jl by (simp add: distinct_swap)
  moreover have "?zs ! Suc i = ys ! Suc i" using assms(2) jl j by (auto simp: nth_list_update)
  ultimately have zs: "distinct ?zs" "?zs ! Suc i = ys ! Suc i" by blast+
  have drop2: "drop (Suc (Suc i)) ?zs = drop (Suc (Suc i)) xs"
    using j(1) by (simp add: drop_update_cancel)
  have "mset ?zs = mset xs" using assms(2) jl by (rule mset_swap_update)
  then have "mset (take (Suc (Suc i)) ys) = mset (take (Suc (Suc i)) ?zs)"
    unfolding assms(3) using drop2 by (metis add_right_cancel append_take_drop_id mset_append)
  then have "mset (take (Suc i) ys) = mset (take (Suc i) ?zs)"
    using zs assms(2) len by (simp add: take_Suc_conv_app_nth[of "Suc i"])
  moreover have "drop (Suc i) ys = drop (Suc i) ?zs"
    using zs drop2 assms(2,4) len Cons_nth_drop_Suc[of "Suc i" ys] Cons_nth_drop_Suc[of "Suc i" ?zs]
    by simp
  ultimately show ?thesis using that j zs(1) by blast
qed

text \<open>Every arrangement of the shuffled prefix is reached by the same number of streams.\<close>

lemma card_loop_shuffles:
  assumes "distinct xs" "i < length xs" "mset (take (Suc i) ys) = mset (take (Suc i) xs)"
    and "drop (Suc i) ys = drop (Suc i) xs"
  shows "card (loop_shuffles i xs ys N) = shuffle_hits i N"
  using assms
proof (induction i arbitrary: xs N)
  case 0
  have "length ys = length xs" by (rule take_drop_length[OF "0.prems"(3,4)])
  then have "take (Suc 0) ys = take (Suc 0) xs"
    using "0.prems"(2,3) by (cases xs; cases ys) simp_all
  with "0.prems"(4) have "ys = xs" by (metis append_take_drop_id)
  then have "loop_shuffles 0 xs ys N = (if N = 0 then {[]} else {})"
    by (auto simp: loop_shuffles_def)
  then show ?case by simp
next
  case (Suc i)
  obtain j where j: "j \<le> Suc i" "xs ! j = ys ! Suc i"
    and zs: "distinct (xs[Suc i := xs ! j, j := xs ! Suc i])"
      "mset (take (Suc i) ys) = mset (take (Suc i) (xs[Suc i := xs ! j, j := xs ! Suc i]))"
      "drop (Suc i) ys = drop (Suc i) (xs[Suc i := xs ! j, j := xs ! Suc i])"
    by (rule target_index[OF Suc.prems])
  have "card (loop_shuffles i (xs[Suc i := xs ! j, j := xs ! Suc i]) ys M) = shuffle_hits i M" for M
    using zs Suc.prems(2) by (intro Suc.IH) simp_all
  then show ?case
    using card_loop_shuffles_step[OF Suc.prems(1,2) j] by simp
qed

text \<open>The streams of length \<open>N\<close> that \<^verbatim>\<open>FairShuffle\<close> consumes entirely while returning \<open>ys\<close>.\<close>

definition shuffle_streams :: "int list \<Rightarrow> int list \<Rightarrow> nat \<Rightarrow> byte list set" where
  "shuffle_streams xs ys N = {r. length r = N \<and> FairShuffle xs r = Inr (ys, [])}"

lemma finite_shuffle_streams [simp]: "finite (shuffle_streams xs ys N)"
  by (auto simp: shuffle_streams_def intro: finite_subset[OF _ finite_blocks[of N]])

lemma card_shuffle_streams:
  assumes "distinct xs" "mset ys = mset xs"
  shows "card (shuffle_streams xs ys N) = shuffle_hits (length xs - 1) N"
proof (cases "xs = []")
  case True
  with assms have "shuffle_streams xs ys N = (if N = 0 then {[]} else {})"
    by (auto simp: shuffle_streams_def FairShuffle_def)
  with True show ?thesis by simp
next
  case False
  have "length ys = length xs" using assms(2) by (rule mset_eq_length)
  with False assms have "card (loop_shuffles (length xs - 1) xs ys N) = shuffle_hits (length xs - 1) N"
    by (intro card_loop_shuffles) simp_all
  with False show ?thesis
    by (simp add: shuffle_streams_def loop_shuffles_def FairShuffle_def)
qed

section \<open>SelectWinners\<close>

text \<open>The streams of length \<open>N\<close> on which participant \<open>u\<close> is among the \<open>c\<close> winners.\<close>

definition winning_streams :: "int list \<Rightarrow> int \<Rightarrow> int \<Rightarrow> nat \<Rightarrow> byte list set" where
  "winning_streams xs c u N =
     {r. length r = N \<and> (\<exists>ws wl. SelectWinners xs c r = Inr (ws, wl, []) \<and> u \<in> set ws)}"

definition winning_orders :: "int list \<Rightarrow> int \<Rightarrow> int \<Rightarrow> int list set" where
  "winning_orders xs c u = {ys. mset ys = mset xs \<and> u \<in> set (take (nat c) ys)}"

lemma finite_winning_orders [simp]: "finite (winning_orders xs c u)"
proof -
  have "winning_orders xs c u \<subseteq> {ys. set ys \<subseteq> set xs \<and> length ys = length xs}"
    by (auto simp: winning_orders_def dest: mset_eq_setD mset_eq_length)
  then show ?thesis by (rule finite_subset) (simp add: finite_lists_length_eq)
qed

definition exchange :: "'a \<Rightarrow> 'a \<Rightarrow> 'a \<Rightarrow> 'a" where
  "exchange u v x = (if x = u then v else if x = v then u else x)"

lemma exchange_invol [simp]: "exchange u v (exchange u v x) = x"
  by (simp add: exchange_def)

lemma exchange_perm:
  assumes "distinct xs" "u \<in> set xs" "v \<in> set xs" "mset ys = mset xs"
  shows "mset (map (exchange u v) ys) = mset xs"
proof -
  have "exchange u v ` set xs = set xs"
    using assms(2,3) by (auto simp: exchange_def image_iff)
  moreover have "inj (exchange u v)"
    by (rule inj_on_inverseI[of _ "exchange u v"]) simp
  ultimately have "distinct (map (exchange u v) ys)" "set (map (exchange u v) ys) = set xs"
    using assms(1) mset_eq_setD[OF assms(4)] mset_eq_imp_distinct_iff[OF assms(4)]
    by (auto simp: distinct_map intro: inj_on_subset)
  with assms(1) show ?thesis by (metis set_eq_iff_mset_eq_distinct)
qed

lemma card_winning_orders:
  assumes "distinct xs" "u \<in> set xs" "v \<in> set xs"
  shows "card (winning_orders xs c u) = card (winning_orders xs c v)"
proof -
  have "bij_betw (map (exchange u v)) (winning_orders xs c u) (winning_orders xs c v)"
  proof (rule bij_betw_byWitness[where f' = "map (exchange u v)"])
    show "map (exchange u v) ` winning_orders xs c u \<subseteq> winning_orders xs c v"
      using exchange_perm[OF assms] by (force simp: winning_orders_def exchange_def take_map)
    show "map (exchange u v) ` winning_orders xs c v \<subseteq> winning_orders xs c u"
      using exchange_perm[OF assms] by (force simp: winning_orders_def exchange_def take_map)
  qed (simp_all add: comp_def)
  then show ?thesis by (rule bij_betw_same_card)
qed

lemma winning_streams_UN:
  assumes "xs \<noteq> []" "1 \<le> c"
  shows "winning_streams xs c u N = (\<Union>ys\<in>winning_orders xs c u. shuffle_streams xs ys N)"
  using assms FairShuffle_perm
  by (fastforce simp: winning_streams_def winning_orders_def shuffle_streams_def SelectWinners_split)

lemma card_winning_streams:
  assumes "distinct xs" "xs \<noteq> []" "1 \<le> c"
  shows "card (winning_streams xs c u N) = card (winning_orders xs c u) * shuffle_hits (length xs - 1) N"
proof -
  have "card (\<Union>ys\<in>winning_orders xs c u. shuffle_streams xs ys N) =
      (\<Sum>ys\<in>winning_orders xs c u. card (shuffle_streams xs ys N))"
    by (rule card_UN_disjoint) (auto simp: shuffle_streams_def)
  also have "\<dots> = (\<Sum>ys\<in>winning_orders xs c u. shuffle_hits (length xs - 1) N)"
    using assms(1) by (intro sum.cong) (auto simp: winning_orders_def card_shuffle_streams)
  finally show ?thesis by (simp add: winning_streams_UN[OF assms(2,3)])
qed

section \<open>Every order is reached\<close>

lemma SetBytes_zeros: "SetBytes (replicate k 0) = 0"
  by (induction k) simp_all

lemma rand_Int_zeros: "0 < mx \<Longrightarrow> \<exists>r. rand_Int r mx = Inr (0, [])"
proof -
  assume mx: "0 < mx"
  let ?L = "bitLen (mx - 1)" and ?k = "(bitLen (mx - 1) + 7) div 8"
  show ?thesis
  proof (cases "?L = 0")
    case True
    then have "rand_Int [] mx = Inr (0, [])" by (simp add: rand_Int_def)
    then show ?thesis by blast
  next
    case False
    then obtain m where m: "?k = Suc m" by (simp add: block_size)
    have "candidate (top_bits ?L) (replicate (Suc m) 0) = 0"
      using SetBytes_zeros[of "Suc m"] by simp
    then have "rand_Int_loop mx (Suc m) (top_bits ?L) (replicate (Suc m) 0) = Inr (0, [])"
      using mx by (subst rand_Int_loop.simps) simp
    then have "rand_Int (replicate (Suc m) 0) mx = Inr (0, [])"
      using False unfolding rand_Int_def Let_def m by simp
    then show ?thesis by blast
  qed
qed

lemma FairShuffle_loop_reached: "\<exists>r ys. FairShuffle_loop i xs r = Inr (ys, [])"
proof (induction i arbitrary: xs)
  case (Suc i)
  obtain r where r: "rand_Int r (Suc i + 1) = Inr (0, [])" using rand_Int_zeros[of "Suc i + 1"] by auto
  obtain r' ys where "FairShuffle_loop i (xs[Suc i := xs ! 0, 0 := xs ! Suc i]) r' = Inr (ys, [])"
    using Suc.IH by blast
  moreover have "rand_Int (r @ r') (Suc i + 1) = Inr (0, r')"
    using rand_Int_append[OF r, of r'] by simp
  ultimately have "FairShuffle_loop (Suc i) xs (r @ r') = Inr (ys, [])" by simp
  then show ?case by blast
qed simp

lemma shuffle_streams_reached:
  assumes "distinct xs" "mset ys = mset xs"
  shows "\<exists>N. 0 < card (shuffle_streams xs ys N)"
proof -
  obtain r zs where r: "FairShuffle xs r = Inr (zs, [])"
  proof (cases "xs = []")
    case True
    then have "FairShuffle xs [] = Inr ([], [])" by (simp add: FairShuffle_def)
    then show thesis by (rule that)
  next
    case False
    obtain r ys where "FairShuffle_loop (length xs - 1) xs r = Inr (ys, [])"
      using FairShuffle_loop_reached by blast
    then have "FairShuffle xs r = Inr (ys, [])" using False by (simp add: FairShuffle_def)
    then show thesis by (rule that)
  qed
  then have "r \<in> shuffle_streams xs zs (length r)" by (simp add: shuffle_streams_def)
  then have "0 < card (shuffle_streams xs zs (length r))" by (auto simp: card_gt_0_iff)
  moreover have "mset zs = mset xs" using r by (rule FairShuffle_perm)
  ultimately show ?thesis
    using card_shuffle_streams[OF assms] card_shuffle_streams[OF assms(1)] by auto
qed

section \<open>Properties\<close>

text \<open>
  C1. The shuffle is uniform: any two orders of the participants are produced by the same
  number of entropy streams of every length, and some length produces them.
\<close>

theorem FairShuffle_uniform:
  assumes "distinct participants"
    and "mset order1 = mset participants" "mset order2 = mset participants"
  shows "card {r. length r = N \<and> FairShuffle participants r = Inr (order1, [])}
       = card {r. length r = N \<and> FairShuffle participants r = Inr (order2, [])}
    \<and> (\<exists>M. 0 < card {r. length r = M \<and> FairShuffle participants r = Inr (order1, [])})"
  using assms card_shuffle_streams[of participants order1 N] card_shuffle_streams[of participants order2 N]
    shuffle_streams_reached[of participants order1]
  by (simp add: shuffle_streams_def)

theorem FairShuffle_uniform_witness:
  "card {r. length r = 1 \<and> FairShuffle [1, 2] r = Inr ([1, 2], [])}
     = card {r. length r = 1 \<and> FairShuffle [1, 2] r = Inr ([2, 1], [])}"
  using FairShuffle_uniform[of "[1, 2]" "[1, 2]" "[2, 1]" 1] by simp

text \<open>
  C2. The draw is fair to each participant: any two of them are among the winners on the same
  number of entropy streams of every length.
\<close>

theorem SelectWinners_fair:
  assumes "distinct participants" "u \<in> set participants" "v \<in> set participants" "1 \<le> winners"
  shows "card {r. length r = N \<and> (\<exists>ws wl. SelectWinners participants winners r = Inr (ws, wl, []) \<and> u \<in> set ws)}
       = card {r. length r = N \<and> (\<exists>ws wl. SelectWinners participants winners r = Inr (ws, wl, []) \<and> v \<in> set ws)}"
proof -
  have "participants \<noteq> []" using assms(2) by auto
  then show ?thesis
    using card_winning_streams[of participants winners _ N] card_winning_orders[OF assms(1-3), of winners] assms
    by (simp add: winning_streams_def)
qed

theorem SelectWinners_fair_witness:
  "card {r. length r = 2 \<and> (\<exists>ws wl. SelectWinners [7, 8, 9] 1 r = Inr (ws, wl, []) \<and> 7 \<in> set ws)}
     = card {r. length r = 2 \<and> (\<exists>ws wl. SelectWinners [7, 8, 9] 1 r = Inr (ws, wl, []) \<and> 9 \<in> set ws)}"
  by (rule SelectWinners_fair) simp_all

end
