(* ===== verification/Seal.thy ===== *)
theory Seal
  imports Models Sha256
begin

text \<open>
  internal/lottery/seal.go: the text that seals a draw and its SHA-256 digest. The text
  determines the outcome it was computed from, so two different outcomes with the same
  digest are a collision of SHA-256.
\<close>

definition sealAlgorithm :: string where "sealAlgorithm = ''sha256-v1''"

definition entropySource :: string where "entropySource = ''crypto/rand+fisher-yates''"

definition IntegrityVerified :: string where "IntegrityVerified = ''verified''"
definition IntegrityMismatch :: string where "IntegrityMismatch = ''mismatch''"
definition IntegrityUnsealed :: string where "IntegrityUnsealed = ''unsealed''"

lemmas integrity_defs [go_defs] = IntegrityVerified_def IntegrityMismatch_def IntegrityUnsealed_def

lemma integrity_distinct [simp]:
  "IntegrityMismatch \<noteq> IntegrityVerified" "IntegrityUnsealed \<noteq> IntegrityVerified"
  "IntegrityMismatch \<noteq> IntegrityUnsealed"
  by (simp_all add: integrity_defs)

abbreviation nl :: char where "nl \<equiv> CHR 0x0A"

definition seal_header :: "int \<Rightarrow> int \<Rightarrow> instant \<Rightarrow> nat \<Rightarrow> string" where
  "seal_header eventID winnerCount drawnAt n =
     sealAlgorithm @ [nl] @ ''event:'' @ FormatInt eventID @ [nl]
     @ ''winner_count:'' @ FormatInt winnerCount @ [nl]
     @ ''drawn_at:'' @ Format_RFC3339Nano drawnAt @ [nl]
     @ ''entrants:'' @ FormatInt (int n) @ [nl]"

definition seal_row :: "LotteryDraw \<Rightarrow> string" where
  "seal_row r =
     FormatInt (dDrawRank r) @ '':'' @ FormatInt (dWinnerUserID r) @ '':'' @ dEntropySource r
     @ '':'' @ FormatInt (dTotalEntrants r) @ [nl]"

definition seal_text :: "int \<Rightarrow> int \<Rightarrow> instant \<Rightarrow> LotteryDraw list \<Rightarrow> string" where
  "seal_text eventID winnerCount drawnAt rows =
     seal_header eventID winnerCount drawnAt (length rows) @ concat (map seal_row rows)"

definition drawDigest :: "int \<Rightarrow> int \<Rightarrow> instant \<Rightarrow> LotteryDraw list \<Rightarrow> string" where
  "drawDigest eventID winnerCount drawnAt rows =
     hex_EncodeToString (Sum256 (bytes_of (seal_text eventID winnerCount drawnAt rows)))"

section \<open>The sealed text determines the outcome\<close>

text \<open>What a row contributes to the outcome: rank, user, entropy source and pool size.\<close>

definition row_outcome :: "LotteryDraw \<Rightarrow> int \<times> int \<times> string \<times> int" where
  "row_outcome r = (dDrawRank r, dWinnerUserID r, dEntropySource r, dTotalEntrants r)"

definition clean_row :: "LotteryDraw \<Rightarrow> bool" where
  "clean_row r \<longleftrightarrow> nl \<notin> set (dEntropySource r)"

lemma entropySource_clean: "dEntropySource r = entropySource \<Longrightarrow> clean_row r"
  by (simp add: clean_row_def entropySource_def)

lemma colon_nl_not_dec:
  "CHR '':'' \<notin> set (FormatInt i)" "nl \<notin> set (FormatInt i)"
  using FormatInt_chars[of "CHR '':''" i] FormatInt_chars[of nl i] by (auto simp: is_digit_def)

lemma dec_split:
  assumes "FormatInt i @ c # us = FormatInt j @ c # vs" "c \<in> {CHR '':'', nl}"
  shows "i = j \<and> us = vs"
  using dec_enc.field_split[OF assms(1)] assms(2) by (auto simp: is_digit_def)

lemma seal_header_split:
  assumes "seal_header e w t n @ us = seal_header e' w' t' n' @ vs"
  shows "e = e' \<and> w = w' \<and> t = t' \<and> n = n' \<and> us = vs"
proof -
  let ?r4 = "\<lambda>n us. FormatInt (int n) @ nl # us"
  let ?r3 = "\<lambda>t n us. Format_RFC3339Nano t @ nl # ''entrants:'' @ ?r4 n us"
  let ?r2 = "\<lambda>w t n us. FormatInt w @ nl # ''drawn_at:'' @ ?r3 t n us"
  have "FormatInt e @ nl # ''winner_count:'' @ ?r2 w t n us =
      FormatInt e' @ nl # ''winner_count:'' @ ?r2 w' t' n' vs"
    using assms by (simp add: seal_header_def)
  from dec_split[OF this] have e: "e = e'" and "?r2 w t n us = ?r2 w' t' n' vs" by simp_all
  from dec_split[OF this(2)] have w: "w = w'" and "?r3 t n us = ?r3 t' n' vs" by simp_all
  from time_enc.field_split[OF this(2)] have t: "t = t'" and "?r4 n us = ?r4 n' vs" by simp_all
  from dec_split[OF this(2)] have "int n = int n'" "us = vs" by simp_all
  with e w t show ?thesis by simp
qed

text \<open>
  The newlines of the text delimit the rows that were sealed: sealed rows have one newline
  each, and any other list of as many rows with the same text must have one each as well.
\<close>

lemma count_nl_row: "count_list (seal_row r) nl = Suc (count_list (dEntropySource r) nl)"
  by (simp add: seal_row_def count_list_append colon_nl_not_dec count_notin)

lemma count_nl_rows: "length rs \<le> count_list (concat (map seal_row rs)) nl"
  by (induction rs) (simp_all add: count_list_append count_nl_row)

lemma count_nl_clean_rows:
  "list_all clean_row rs \<Longrightarrow> count_list (concat (map seal_row rs)) nl = length rs"
  by (induction rs) (auto simp: count_list_append count_nl_row clean_row_def count_notin)

definition row_body :: "LotteryDraw \<Rightarrow> string" where
  "row_body r = FormatInt (dDrawRank r) @ CHR '':'' # FormatInt (dWinnerUserID r) @ CHR '':'' #
     dEntropySource r @ CHR '':'' # FormatInt (dTotalEntrants r)"

lemma seal_row_body: "seal_row r = row_body r @ [nl]"
  by (simp add: seal_row_def row_body_def)

lemma row_body_inj:
  assumes "row_body r = row_body q"
  shows "row_outcome r = row_outcome q"
proof -
  from assms dec_split have rank: "dDrawRank r = dDrawRank q"
    and "FormatInt (dWinnerUserID r) @ CHR '':'' # dEntropySource r @ CHR '':'' # FormatInt (dTotalEntrants r) =
      FormatInt (dWinnerUserID q) @ CHR '':'' # dEntropySource q @ CHR '':'' # FormatInt (dTotalEntrants q)"
    unfolding row_body_def by blast+
  from dec_split[OF this(2)] have user: "dWinnerUserID r = dWinnerUserID q"
    and "dEntropySource r @ CHR '':'' # FormatInt (dTotalEntrants r) =
      dEntropySource q @ CHR '':'' # FormatInt (dTotalEntrants q)" by simp_all
  from last_delimiter_split[OF this(2)] colon_nl_not_dec
  have "dEntropySource r = dEntropySource q" "FormatInt (dTotalEntrants r) = FormatInt (dTotalEntrants q)"
    by simp_all
  with rank user show ?thesis by (simp add: row_outcome_def FormatInt_inj)
qed

lemma seal_rows_inj:
  assumes "length rs = length qs" "list_all clean_row rs"
    and "concat (map seal_row rs) = concat (map seal_row qs)"
  shows "map row_outcome rs = map row_outcome qs"
  using assms
proof (induction rs qs rule: list_induct2)
  case (Cons r rs q qs)
  let ?X = "concat (map seal_row rs)" and ?Y = "concat (map seal_row qs)"
  have eq: "row_body r @ nl # ?X = row_body q @ nl # ?Y"
    using Cons.prems(2) by (simp add: seal_row_body[of r] seal_row_body[of q])
  have "count_list (concat (map seal_row (q # qs))) nl = length (r # rs)"
    using count_nl_clean_rows[OF Cons.prems(1)] unfolding Cons.prems(2) .
  then have "count_list (seal_row q) nl + count_list ?Y nl = Suc (length qs)"
    using Cons.hyps by (simp add: count_list_append)
  then have "count_list (dEntropySource q) nl = 0"
    using count_nl_rows[of qs] by (simp add: count_nl_row)
  then have "nl \<notin> set (row_body q)"
    by (simp add: row_body_def colon_nl_not_dec count_list_0_iff)
  moreover have "nl \<notin> set (row_body r)"
    using Cons.prems(1) by (simp add: row_body_def colon_nl_not_dec clean_row_def)
  ultimately have "row_body r = row_body q \<and> nl = nl \<and> ?X = ?Y"
    using delimiter_split[OF eq] by blast
  then have "row_outcome r = row_outcome q" "map row_outcome rs = map row_outcome qs"
    using Cons.IH Cons.prems(1) by (auto intro: row_body_inj)
  then show ?case by simp
qed simp

lemma seal_text_inj:
  assumes "seal_text e w t rs = seal_text e' w' t' qs" and "list_all clean_row rs"
  shows "e = e' \<and> w = w' \<and> t = t' \<and> map row_outcome rs = map row_outcome qs"
  using seal_header_split[OF assms(1)[unfolded seal_text_def]] seal_rows_inj[of rs qs] assms(2) by blast

text \<open>
  Two outcomes with one digest, one of them written by the program, agree or exhibit two
  different byte strings with the same SHA-256 hash.
\<close>

definition sha256_collision :: "byte list \<Rightarrow> byte list \<Rightarrow> bool" where
  "sha256_collision a b \<longleftrightarrow> a \<noteq> b \<and> Sum256 a = Sum256 b"

lemma drawDigest_binding:
  assumes "drawDigest e w t rs = drawDigest e' w' t' qs" and "list_all clean_row rs"
    and "\<not> sha256_collision (bytes_of (seal_text e w t rs)) (bytes_of (seal_text e' w' t' qs))"
  shows "e = e' \<and> w = w' \<and> t = t' \<and> map row_outcome rs = map row_outcome qs"
proof -
  have "Sum256 (bytes_of (seal_text e w t rs)) = Sum256 (bytes_of (seal_text e' w' t' qs))"
    using assms(1) unfolding drawDigest_def by (rule hex_inj)
  with assms(3) have "seal_text e w t rs = seal_text e' w' t' qs"
    unfolding sha256_collision_def by (blast intro: bytes_of_inj)
  then show ?thesis using assms(2) by (rule seal_text_inj)
qed

end
