(* ===== verification/Lottery_Service.thy ===== *)
theory Lottery_Service
  imports Scenario Lottery_Fairness Seal Httpx
begin

text \<open>
  internal/lottery/service.go and handler.go: running a draw inside one transaction and
  reading it back. The draw is proved to be all-or-nothing, to store a permutation of the
  booked users with ranks 1 to n under a seal, and to be what the results page reports.
\<close>

section \<open>Errors\<close>

definition ErrEventNotFound :: error where
  "ErrEventNotFound = New ''lottery.ErrEventNotFound'' ''event not found''"
definition ErrEventNotClosed :: error where
  "ErrEventNotClosed = New ''lottery.ErrEventNotClosed'' ''event must be closed before drawing''"
definition ErrEventAlreadyDrawn :: error where
  "ErrEventAlreadyDrawn = New ''lottery.ErrEventAlreadyDrawn'' ''event has already been drawn''"
definition ErrEventCancelled :: error where
  "ErrEventCancelled = New ''lottery.ErrEventCancelled'' ''event has been cancelled''"
definition ErrNoParticipants :: error where
  "ErrNoParticipants = New ''lottery.ErrNoParticipants'' ''no participants in the lottery pool''"
definition ErrDrawNotDue :: error where
  "ErrDrawNotDue = New ''lottery.ErrDrawNotDue'' ''the event's draw time has not been reached''"
definition ErrResultsUnavailable :: error where
  "ErrResultsUnavailable = New ''lottery.ErrResultsUnavailable'' ''no draw results available for this event''"

lemmas lottery_errors [go_defs] =
  ErrEventNotFound_def ErrEventNotClosed_def ErrEventAlreadyDrawn_def ErrEventCancelled_def
  ErrNoParticipants_def ErrDrawNotDue_def ErrResultsUnavailable_def

section \<open>RunDraw\<close>

text \<open>
  What a draw takes from outside: the faults and the clock of the database, the wall clock
  (\<^verbatim>\<open>time.Now\<close>), the bytes \<^verbatim>\<open>crypto/rand\<close> delivers, and the server's order among bookings made
  at the same instant.
\<close>

record draw_env = tx_env +
  deWallClock :: instant
  deEntropy :: "byte list"
  deTie :: "Booking \<Rightarrow> nat"

definition draw_status_check :: "event_row \<Rightarrow> error option" where
  "draw_status_check e =
     (if eStatus e = EventStatusClosed then None
      else if eStatus e = EventStatusDrawn then Some ErrEventAlreadyDrawn
      else if eStatus e = EventStatusCancelled then Some ErrEventCancelled
      else Some (Wrapf '''' ErrEventNotClosed ('' (current status: '' @ eStatus e @ '')'')))"

definition participants_of :: "(Booking \<Rightarrow> nat) \<Rightarrow> int \<Rightarrow> db \<Rightarrow> int list" where
  "participants_of tie eventID d = map bUserID (order_by tie bBookedAt (event_bookings d eventID))"

text \<open>
  The closure \<^verbatim>\<open>insert\<close> and the two loops around it: \<open>i\<close> is the number of rows inserted so far.
\<close>

fun insert_ranked ::
  "faults \<Rightarrow> string \<Rightarrow> int \<Rightarrow> int \<Rightarrow> instant \<Rightarrow> nat \<Rightarrow> int list \<Rightarrow> LotteryDraw list stmt" where
  "insert_ranked f what eventID totalEntrants drawnAt i [] = stmt_return []"
| "insert_ranked f what eventID totalEntrants drawnAt i (uid # uids) =
     stmt_bind
       (on_error (wrap (''inserting '' @ what @ '' rank '' @ FormatInt (int i + 1)))
         (exec f (Exec i)
           (insert_draw eventID uid (int i + 1) totalEntrants entropySource drawnAt)))
       (\<lambda>r. stmt_bind (insert_ranked f what eventID totalEntrants drawnAt (Suc i) uids)
         (\<lambda>rs. stmt_return (r # rs)))"

definition persist_draw ::
  "faults \<Rightarrow> instant \<Rightarrow> instant \<Rightarrow> int \<Rightarrow> string \<Rightarrow> int \<Rightarrow> int \<Rightarrow> int list \<Rightarrow> int list \<Rightarrow> DrawResult stmt" where
  "persist_draw f now drawnAt eventID title winnerCount totalEntrants winners waitlist =
     (let n = length winners + length waitlist in
      stmt_bind (insert_ranked f ''winner'' eventID totalEntrants drawnAt 0 winners)
      (\<lambda>winnerRecords.
      stmt_bind (insert_ranked f ''waitlist'' eventID totalEntrants drawnAt (length winners) waitlist)
      (\<lambda>waitlistRecords.
      let digest = drawDigest eventID winnerCount drawnAt (winnerRecords @ waitlistRecords) in
      stmt_bind (on_error (wrap ''sealing draw'')
        (exec f (Exec n) (insert_seal eventID digest sealAlgorithm drawnAt)))
      (\<lambda>_.
      stmt_bind (on_error (wrap ''marking event as drawn'')
        (exec f (Exec (Suc n)) (update_event_status now eventID EventStatusDrawn)))
      (\<lambda>_.
      stmt_return
        \<lparr>rEventID = eventID, rEventTitle = title, rTotalEntrants = totalEntrants,
         rWinners = winnerRecords, rWaitlist = waitlistRecords, rDrawnAt = drawnAt,
         rDigest = digest, rIntegrity = IntegrityVerified\<rparr>)))))"

definition select_and_persist :: "draw_env \<Rightarrow> int \<Rightarrow> event_row \<Rightarrow> int list \<Rightarrow> DrawResult stmt" where
  "select_and_persist env eventID e participants =
     (if participants = [] then stmt_fail ErrNoParticipants
      else
      case SelectWinners participants (eWinnerCount e) (deEntropy env) of
        Inl err \<Rightarrow> stmt_fail (wrap ''lottery selection'' err)
      | Inr (winners, waitlist, _) \<Rightarrow>
          persist_draw (txFault env) (txNow env) (Truncate_us (deWallClock env)) eventID (eTitle e)
            (eWinnerCount e) (int (length participants)) winners waitlist)"

definition RunDraw_body :: "draw_env \<Rightarrow> int \<Rightarrow> DrawResult stmt" where
  "RunDraw_body env eventID =
     stmt_bind
       (on_error
         (\<lambda>err. if errors_Is err pgx_ErrNoRows then ErrEventNotFound else wrap ''locking event'' err)
         (query_row (txFault env) (Query 0) (\<lambda>d. select_event d eventID)))
     (\<lambda>e.
     case draw_status_check e of
       Some err \<Rightarrow> stmt_fail err
     | None \<Rightarrow>
         if \<not> eDrawAt e \<le> txNow env then stmt_fail ErrDrawNotDue
         else
           stmt_bind
             (stmt_read (\<lambda>d. fetch (txFault env) 1 ''fetching participants'' ''scanning participant''
                ''iterating participants'' (participants_of (deTie env) eventID d)))
             (select_and_persist env eventID e))"

definition RunDraw :: "draw_env \<Rightarrow> int \<Rightarrow> DrawResult stmt" where
  "RunDraw env eventID =
     with_tx env (wrap ''begin draw tx'') (wrap ''commit draw tx'') (RunDraw_body env eventID)"

section \<open>GetResults\<close>

fun GetResults_loop ::
  "faults \<Rightarrow> nat \<Rightarrow> int \<Rightarrow> DrawResult \<Rightarrow> LotteryDraw list \<Rightarrow> error + DrawResult" where
  "GetResults_loop f j winnerCount result [] = Inr result"
| "GetResults_loop f j winnerCount result (r # rows) =
     (case f (Scan 1 j) of
        Some err \<Rightarrow> Inl (wrap ''scanning draw row'' err)
      | None \<Rightarrow>
          let result1 =
                (if IsZero (rDrawnAt result)
                 then result\<lparr>rDrawnAt := dDrawnAt r, rTotalEntrants := dTotalEntrants r\<rparr> else result);
              result2 =
                (if dDrawRank r \<le> winnerCount then result1\<lparr>rWinners := rWinners result1 @ [r]\<rparr>
                 else result1\<lparr>rWaitlist := rWaitlist result1 @ [r]\<rparr>)
          in GetResults_loop f (Suc j) winnerCount result2 rows)"

definition check_seal :: "faults \<Rightarrow> db \<Rightarrow> int \<Rightarrow> int \<Rightarrow> DrawResult \<Rightarrow> error + DrawResult" where
  "check_seal f d eventID winnerCount result =
     (case query f (Query 2)
             (case select_seal d eventID of None \<Rightarrow> Inl pgx_ErrNoRows | Some s \<Rightarrow> Inr (sDigest s)) of
        Inl err \<Rightarrow>
          if errors_Is err pgx_ErrNoRows then Inr (result\<lparr>rIntegrity := IntegrityUnsealed\<rparr>)
          else Inl (wrap ''fetching draw seal'' err)
      | Inr sealed \<Rightarrow>
          if drawDigest eventID winnerCount (rDrawnAt result) (rWinners result @ rWaitlist result) = sealed
          then Inr (result\<lparr>rDigest := sealed, rIntegrity := IntegrityVerified\<rparr>)
          else Inr (result\<lparr>rDigest := sealed, rIntegrity := IntegrityMismatch\<rparr>))"

definition GetResults :: "faults \<Rightarrow> (LotteryDraw \<Rightarrow> nat) \<Rightarrow> int \<Rightarrow> db \<Rightarrow> error + DrawResult" where
  "GetResults f tie eventID d =
     (case query f (Query 0)
             (case select_event d eventID of
                Some e \<Rightarrow> if eStatus e = EventStatusDrawn then Inr e else Inl pgx_ErrNoRows
              | None \<Rightarrow> Inl pgx_ErrNoRows) of
        Inl err \<Rightarrow>
          if errors_Is err pgx_ErrNoRows then Inl ErrResultsUnavailable
          else Inl (wrap ''fetching event'' err)
      | Inr e \<Rightarrow>
          (case f (Query 1) of
             Some err \<Rightarrow> Inl (wrap ''fetching draw results'' err)
           | None \<Rightarrow>
               (case GetResults_loop f 0 (eWinnerCount e)
                       \<lparr>rEventID = eventID, rEventTitle = eTitle e, rTotalEntrants = 0,
                        rWinners = [], rWaitlist = [], rDrawnAt = zero_time,
                        rDigest = '''', rIntegrity = ''''\<rparr>
                       (order_by tie dDrawRank (event_draws d eventID)) of
                  Inl err \<Rightarrow> Inl err
                | Inr result \<Rightarrow>
                    (case f (RowsErr 1) of
                       Some err \<Rightarrow> Inl (wrap ''iterating draw rows'' err)
                     | None \<Rightarrow> check_seal f d eventID (eWinnerCount e) result))))"

section \<open>Handlers\<close>

definition draw_error_response :: "error \<Rightarrow> 'a response" where
  "draw_error_response err =
     (if errors_Is err ErrEventNotFound then respond_Error 404 ''event_not_found'' (Error_text err)
      else if errors_Is err ErrEventAlreadyDrawn then respond_Error 409 ''already_drawn'' (Error_text err)
      else if errors_Is err ErrEventCancelled then respond_Error 409 ''event_cancelled'' (Error_text err)
      else if errors_Is err ErrEventNotClosed then respond_Error 409 ''event_not_closed'' (Error_text err)
      else if errors_Is err ErrDrawNotDue then respond_Error 409 ''draw_not_due'' (Error_text err)
      else if errors_Is err ErrNoParticipants then respond_Error 409 ''no_participants'' (Error_text err)
      else respond_Error 500 ''internal'' ''could not run draw'')"

definition Draw :: "draw_env \<Rightarrow> string \<Rightarrow> db \<Rightarrow> DrawResult response \<times> db" where
  "Draw env eventIDParam d =
     (case parse_event_id eventIDParam of
        None \<Rightarrow> (BadRequest ''invalid event id'', d)
      | Some eventID \<Rightarrow>
          (case RunDraw env eventID d of
             (Inl err, d') \<Rightarrow> (draw_error_response err, d')
           | (Inr result, d') \<Rightarrow> (Respond 200 True (Some result) '''', d')))"

definition Results :: "faults \<Rightarrow> (LotteryDraw \<Rightarrow> nat) \<Rightarrow> string \<Rightarrow> db \<Rightarrow> DrawResult response" where
  "Results f tie eventIDParam d =
     (case parse_event_id eventIDParam of
        None \<Rightarrow> BadRequest ''invalid event id''
      | Some eventID \<Rightarrow>
          (case GetResults f tie eventID d of
             Inl err \<Rightarrow>
               if errors_Is err ErrResultsUnavailable then NotFound (Error_text err)
               else Internal ''could not fetch results''
           | Inr result \<Rightarrow> Respond 200 True (Some result) ''''))"

section \<open>What a successful draw has done\<close>

text \<open>
  The rows of a draw: the ranks count up from \<open>i + 1\<close> along the users, and every row carries
  the event, the pool size, the entropy source and the instant of the draw.
\<close>

definition row_contents :: "LotteryDraw \<Rightarrow> int \<times> int \<times> int \<times> string \<times> int \<times> instant" where
  "row_contents r =
     (dEventID r, dWinnerUserID r, dDrawRank r, dEntropySource r, dTotalEntrants r, dDrawnAt r)"

definition ranked_rows :: "int \<Rightarrow> int \<Rightarrow> instant \<Rightarrow> nat \<Rightarrow> int list \<Rightarrow> LotteryDraw list \<Rightarrow> bool" where
  "ranked_rows eid n at i uids rs \<longleftrightarrow>
     map row_contents rs = map (\<lambda>(k, u). (eid, u, int k + 1, entropySource, n, at)) (enumerate i uids)"

lemma ranked_rows_Nil [simp]: "ranked_rows eid n at i [] rs \<longleftrightarrow> rs = []"
  by (simp add: ranked_rows_def)

lemma ranked_rows_Cons:
  "ranked_rows eid n at i (u # us) (r # rs) \<longleftrightarrow>
   row_contents r = (eid, u, int i + 1, entropySource, n, at) \<and> ranked_rows eid n at (Suc i) us rs"
  by (simp add: ranked_rows_def)

lemma ranked_rows_append:
  "ranked_rows eid n at i us rs \<Longrightarrow> ranked_rows eid n at (i + length us) vs qs \<Longrightarrow>
   ranked_rows eid n at i (us @ vs) (rs @ qs)"
  by (simp add: ranked_rows_def enumerate_append_eq)

lemma ranked_rows_length: "ranked_rows eid n at i uids rs \<Longrightarrow> length rs = length uids"
  unfolding ranked_rows_def by (drule arg_cong[of _ _ length]) simp

lemma ranked_rows_nth:
  assumes "ranked_rows eid n at i uids rs" and "k < length uids"
  shows "row_contents (rs ! k) = (eid, uids ! k, int (i + k) + 1, entropySource, n, at)"
proof -
  have len: "k < length rs" using assms ranked_rows_length by fastforce
  have "map row_contents rs ! k =
      map (\<lambda>(k, u). (eid, u, int k + 1, entropySource, n, at)) (enumerate i uids) ! k"
    using assms(1) unfolding ranked_rows_def by simp
  then show ?thesis using assms(2) len by (simp add: nth_enumerate_eq)
qed

lemma ranked_rows_set:
  "ranked_rows eid n at i uids rs \<Longrightarrow> r \<in> set rs \<Longrightarrow>
   dEventID r = eid \<and> dEntropySource r = entropySource \<and> dTotalEntrants r = n \<and> dDrawnAt r = at"
  by (auto simp: in_set_conv_nth row_contents_def ranked_rows_length dest: ranked_rows_nth)

lemma ranked_rows_users: "ranked_rows eid n at i uids rs \<Longrightarrow> map dWinnerUserID rs = uids"
  by (rule nth_equalityI) (auto simp: row_contents_def ranked_rows_length dest: ranked_rows_nth)

lemma ranked_rows_ranks:
  "ranked_rows eid n at i uids rs \<Longrightarrow> map dDrawRank rs = map (\<lambda>k. int (i + k) + 1) [0..<length uids]"
  by (rule nth_equalityI) (auto simp: row_contents_def ranked_rows_length dest: ranked_rows_nth)

lemma insert_ranked_Inr:
  assumes "insert_ranked f what eid n at i uids d = (Inr rs, d')"
  shows "ranked_rows eid n (Truncate_us at) i uids rs \<and>
    (\<exists>q. d' = d\<lparr>tSeqs := q, tDraws := tDraws d @ rs\<rparr>)"
  using assms
proof (induction uids arbitrary: i d rs)
  case Nil
  then have "rs = []" "d' = d\<lparr>tSeqs := tSeqs d, tDraws := tDraws d @ rs\<rparr>"
    by (simp_all add: stmt_return_def)
  then show ?case by (metis ranked_rows_Nil)
next
  case (Cons u us)
  then obtain r d1 rs' where rs: "rs = r # rs'"
    and ins: "insert_draw eid u (int i + 1) n entropySource at d = (Inr r, d1)"
    and rec: "insert_ranked f what eid n at (Suc i) us d1 = (Inr rs', d')"
    by (auto simp: stmt_Inr stmt_return_def)
  note row = insert_draw_done(1,2)[OF ins]
  from Cons.IH[OF rec] row(1) show ?case
    by (auto simp: rs row(2) ranked_rows_Cons row_contents_def)
qed

text \<open>
  The abstract outcome: from a closed event whose draw time has come, the participants in
  the order of the shuffle become the rows of the draw, split at the winner count, sealed,
  and the event is marked as drawn. Nothing else changes.
\<close>

definition draw_outcome :: "draw_env \<Rightarrow> int \<Rightarrow> db \<Rightarrow> DrawResult \<Rightarrow> db \<Rightarrow> bool" where
  "draw_outcome env eid d res d' \<longleftrightarrow>
     (\<exists>e ws wl s q.
        let ps = participants_of (deTie env) eid d;
            rs = rWinners res @ rWaitlist res
        in select_event d eid = Some e \<and> eStatus e = EventStatusClosed \<and> eDrawAt e \<le> txNow env \<and>
           SelectWinners ps (eWinnerCount e) (deEntropy env) = Inr (ws, wl, s) \<and>
           ranked_rows eid (int (length ps)) (rDrawnAt res) 0 (ws @ wl) rs \<and> length (rWinners res) = length ws \<and>
           rEventID res = eid \<and> rEventTitle res = eTitle e \<and> rTotalEntrants res = int (length ps) \<and>
           rDrawnAt res = Truncate_us (deWallClock env) \<and>
           rDigest res = drawDigest eid (eWinnerCount e) (rDrawnAt res) rs \<and>
           rIntegrity res = IntegrityVerified \<and>
           eid \<notin> sEventID ` set (tSeals d) \<and>
           d' = d\<lparr>tSeqs := q, tDraws := tDraws d @ rs,
             tSeals := tSeals d @ [\<lparr>sEventID = eid, sDigest = rDigest res, sAlgorithm = sealAlgorithm,
               sSealedAt = rDrawnAt res\<rparr>],
             tEvents := map (set_status (txNow env) eid EventStatusDrawn) (tEvents d)\<rparr>)"

lemma persist_draw_Inr:
  assumes "persist_draw f now at eid title wc n ws wl d = (Inr res, d')" and "Truncate_us at = at"
  shows "\<exists>q. ranked_rows eid n (rDrawnAt res) 0 (ws @ wl) (rWinners res @ rWaitlist res) \<and>
    length (rWinners res) = length ws \<and> eid \<notin> sEventID ` set (tSeals d) \<and>
    rEventID res = eid \<and> rEventTitle res = title \<and> rTotalEntrants res = n \<and> rDrawnAt res = at \<and>
    rDigest res = drawDigest eid wc (rDrawnAt res) (rWinners res @ rWaitlist res) \<and> rIntegrity res = IntegrityVerified \<and>
    d' = d\<lparr>tSeqs := q, tDraws := tDraws d @ rWinners res @ rWaitlist res,
      tSeals := tSeals d @ [\<lparr>sEventID = eid, sDigest = rDigest res, sAlgorithm = sealAlgorithm, sSealedAt = rDrawnAt res\<rparr>],
      tEvents := map (set_status now eid EventStatusDrawn) (tEvents d)\<rparr>"
proof -
  from assms(1) obtain rs1 d1 rs2 d2 d3 where
    w: "insert_ranked f ''winner'' eid n at 0 ws d = (Inr rs1, d1)" and
    l: "insert_ranked f ''waitlist'' eid n at (length ws) wl d1 = (Inr rs2, d2)" and
    sl: "insert_seal eid (drawDigest eid wc at (rs1 @ rs2)) sealAlgorithm at d2 = (Inr (), d3)" and
    up: "update_event_status now eid EventStatusDrawn d3 = (Inr (), d')" and
    res: "res = \<lparr>rEventID = eid, rEventTitle = title, rTotalEntrants = n, rWinners = rs1,
      rWaitlist = rs2, rDrawnAt = at, rDigest = drawDigest eid wc at (rs1 @ rs2),
      rIntegrity = IntegrityVerified\<rparr>"
    by (auto simp: persist_draw_def Let_def stmt_Inr stmt_return_def)
  from insert_ranked_Inr[OF w] obtain q1 where
    r1: "ranked_rows eid n at 0 ws rs1" and d1: "d1 = d\<lparr>tSeqs := q1, tDraws := tDraws d @ rs1\<rparr>"
    by (auto simp: assms(2))
  from insert_ranked_Inr[OF l] obtain q2 where
    r2: "ranked_rows eid n at (length ws) wl rs2" and d2: "d2 = d1\<lparr>tSeqs := q2, tDraws := tDraws d1 @ rs2\<rparr>"
    by (auto simp: assms(2))
  note d3 = insert_seal_done(1,2)[OF sl] and d' = update_event_status_done(1)[OF up]
  show ?thesis
    using ranked_rows_append[OF r1, of wl rs2] r2 ranked_rows_length[OF r1]
    by (intro exI[of _ q2]) (use d3(2) in \<open>simp add: res d' d3(1) d2 d1 assms(2)\<close>)
qed

lemma select_and_persist_Inr:
  "select_and_persist env eid e ps d = (Inr res, d') \<longleftrightarrow>
   (\<exists>ws wl s. ps \<noteq> [] \<and> SelectWinners ps (eWinnerCount e) (deEntropy env) = Inr (ws, wl, s) \<and>
     persist_draw (txFault env) (txNow env) (Truncate_us (deWallClock env)) eid (eTitle e)
       (eWinnerCount e) (int (length ps)) ws wl d = (Inr res, d'))"
  by (auto simp: select_and_persist_def stmt_fail_def split: sum.splits)

lemma RunDraw_body_Inr:
  assumes "RunDraw_body env eid d = (Inr res, d')"
  shows "draw_outcome env eid d res d'"
proof -
  from assms obtain e where e: "select_event d eid = Some e" "draw_status_check e = None"
    "eDrawAt e \<le> txNow env"
    and "select_and_persist env eid e (participants_of (deTie env) eid d) d = (Inr res, d')"
    by (auto simp: RunDraw_body_def stmt_Inr stmt_read_def stmt_fail_def
        split: option.splits if_splits dest!: fetch_Inr)
  then obtain ws wl s where
    sel: "SelectWinners (participants_of (deTie env) eid d) (eWinnerCount e) (deEntropy env) = Inr (ws, wl, s)"
    and per: "persist_draw (txFault env) (txNow env) (Truncate_us (deWallClock env)) eid (eTitle e)
      (eWinnerCount e) (int (length (participants_of (deTie env) eid d))) ws wl d = (Inr res, d')"
    by (auto simp: select_and_persist_Inr)
  have "eStatus e = EventStatusClosed"
    using e(2) by (simp add: draw_status_check_def split: if_splits)
  with persist_draw_Inr[OF per Truncate_us_idem] e sel show ?thesis
    unfolding draw_outcome_def Let_def by blast
qed

lemma RunDraw_Inr: "RunDraw env eid d = (Inr res, d') \<Longrightarrow> draw_outcome env eid d res d'"
  by (simp add: RunDraw_def with_tx_Inr RunDraw_body_Inr)

section \<open>A draw is all or nothing\<close>

lemma stmt_ok_insert_ranked [intro, simp]: "stmt_ok (insert_ranked f what eid n at i uids)"
  by (induction uids arbitrary: i) auto

lemma stmt_ok_persist_draw [intro, simp]: "stmt_ok (persist_draw f now at eid title wc n ws wl)"
  by (auto simp: persist_draw_def Let_def)

lemma stmt_ok_select_and_persist [intro, simp]: "stmt_ok (select_and_persist env eid e ps)"
  by (auto simp: select_and_persist_def split: sum.splits)

interpretation draw_tx: transaction "RunDraw_body env eid" for env eid
  by unfold_locales (auto simp: RunDraw_body_def split: option.splits)

lemma RunDraw_wf: "RunDraw env eid d = (res, d') \<Longrightarrow> db_wf d \<Longrightarrow> db_wf d'"
  unfolding RunDraw_def by (rule draw_tx.with_tx_wf)

lemma RunDraw_Inl:
  assumes "RunDraw env eid d = (Inl err, d')"
  shows "same_tables d d' \<or>
    (\<exists>res e. txCommit env = CommitLost e \<and> err = wrap ''commit draw tx'' e \<and> draw_outcome env eid d res d')"
  using with_tx_Inl[OF assms[unfolded RunDraw_def]] RunDraw_body_Inr by blast

lemma event_bookings_order: "mset (participants_of tie eid d) = mset (map bUserID (event_bookings d eid))"
  by (simp add: participants_of_def mset_map)

text \<open>The preconditions, in the order in which they are checked.\<close>

definition draw_refusal :: "draw_env \<Rightarrow> int \<Rightarrow> db \<Rightarrow> error option" where
  "draw_refusal env eid d =
     (case select_event d eid of
        None \<Rightarrow> Some ErrEventNotFound
      | Some e \<Rightarrow>
          if eStatus e = EventStatusDrawn then Some ErrEventAlreadyDrawn
          else if eStatus e = EventStatusCancelled then Some ErrEventCancelled
          else if eStatus e \<noteq> EventStatusClosed
          then Some (Wrapf '''' ErrEventNotClosed ('' (current status: '' @ eStatus e @ '')''))
          else if txNow env < eDrawAt e then Some ErrDrawNotDue
          else if event_bookings d eid = [] then Some ErrNoParticipants
          else None)"

lemma RunDraw_refused:
  assumes "txFault env = no_faults" and "draw_refusal env eid d = Some err"
  shows "RunDraw env eid d = (Inl err, d)"
proof -
  have ps: "participants_of (deTie env) eid d = [] \<longleftrightarrow> event_bookings d eid = []"
    using event_bookings_order[of "deTie env" eid d] by auto
  have "RunDraw_body env eid d = (Inl err, d)"
  proof (cases "select_event d eid")
    case None
    then have "err = ErrEventNotFound" using assms(2) unfolding draw_refusal_def None by simp
    moreover have "query_row no_faults (Query 0) (\<lambda>d. select_event d eid) d = (Inl pgx_ErrNoRows, d)"
      unfolding query_row_def stmt_read_def None by simp
    ultimately show ?thesis by (simp add: RunDraw_body_def stmt_bind_def on_error_def assms(1))
  next
    case (Some e)
    have "query_row no_faults (Query 0) (\<lambda>d. select_event d eid) d = (Inr e, d)"
      unfolding query_row_def stmt_read_def Some by simp
    with assms Some show ?thesis
      by (auto simp: RunDraw_body_def draw_refusal_def draw_status_check_def select_and_persist_def
          stmt_bind_def on_error_def stmt_fail_def stmt_read_def ps split: if_splits)
  qed
  then show ?thesis using assms(1)
    by (simp add: RunDraw_def with_tx_def rollback_def)
qed

section \<open>Reading the results back\<close>

lemma GetResults_loop_split:
  assumes "GetResults_loop f j wc res rows = Inr res'"
  shows "rWinners res' = rWinners res @ filter (\<lambda>r. dDrawRank r \<le> wc) rows"
    and "rWaitlist res' = rWaitlist res @ filter (\<lambda>r. \<not> dDrawRank r \<le> wc) rows"
    and "rEventID res' = rEventID res" "rEventTitle res' = rEventTitle res"
  using assms
  by (induction rows arbitrary: j res) (auto simp: Let_def split: option.splits if_splits)

lemma GetResults_loop_stamp:
  assumes "GetResults_loop f j wc res rows = Inr res'"
    and "\<forall>r \<in> set rows. dDrawnAt r = at \<and> dTotalEntrants r = n"
    and "rDrawnAt res = zero_time \<or> rDrawnAt res = at \<and> rTotalEntrants res = n"
  shows "rows = [] \<or> rDrawnAt res' = at \<and> rTotalEntrants res' = n"
proof -
  have keep: "rDrawnAt res' = at \<and> rTotalEntrants res' = n"
    if "GetResults_loop f j wc res rows = Inr res'" "rDrawnAt res = at" "rTotalEntrants res = n"
      "\<forall>r \<in> set rows. dDrawnAt r = at \<and> dTotalEntrants r = n" for j res rows
    using that
  proof (induction rows arbitrary: j res)
    case (Cons r rows)
    from Cons.prems(1) obtain res2 where "GetResults_loop f (Suc j) wc res2 rows = Inr res'"
      "rDrawnAt res2 = at" "rTotalEntrants res2 = n"
      using Cons.prems(2-4) by (auto simp: Let_def split: option.splits if_splits)
    with Cons.IH Cons.prems(4) show ?case by simp
  qed simp
  show ?thesis
  proof (cases rows)
    case (Cons r rest)
    from assms(1) obtain res2 where "GetResults_loop f (Suc j) wc res2 rest = Inr res'"
      "rDrawnAt res2 = at" "rTotalEntrants res2 = n"
      using assms(2,3) Cons by (auto simp: Let_def IsZero_def split: option.splits if_splits)
    with keep assms(2) Cons show ?thesis by simp
  qed simp
qed

lemma GetResults_loop_no_faults:
  "\<exists>res'. GetResults_loop no_faults j wc res rows = Inr res'"
  by (induction rows arbitrary: j res) (simp_all add: Let_def)

lemma check_seal_fields:
  assumes "check_seal f d eid wc res = Inr res'"
  shows "rWinners res' = rWinners res" "rWaitlist res' = rWaitlist res" "rDrawnAt res' = rDrawnAt res"
    "rTotalEntrants res' = rTotalEntrants res" "rEventID res' = rEventID res" "rEventTitle res' = rEventTitle res"
  using assms by (auto simp: check_seal_def split: sum.splits if_splits)

lemma check_seal_verified:
  assumes "check_seal f d eid wc res = Inr res'" and "rIntegrity res' = IntegrityVerified"
  shows "\<exists>s. select_seal d eid = Some s \<and>
    drawDigest eid wc (rDrawnAt res') (rWinners res' @ rWaitlist res') = sDigest s"
proof -
  let ?q = "query f (Query 2)
    (case select_seal d eid of None \<Rightarrow> Inl pgx_ErrNoRows | Some s \<Rightarrow> Inr (sDigest s))"
  obtain sealed where q: "?q = Inr sealed"
    using assms by (cases ?q) (auto simp: check_seal_def split: if_splits)
  then have "\<exists>s. select_seal d eid = Some s \<and> sDigest s = sealed"
    by (cases "select_seal d eid") (auto simp: query_def split: option.splits)
  moreover have "drawDigest eid wc (rDrawnAt res') (rWinners res' @ rWaitlist res') = sealed"
    using assms q by (auto simp: check_seal_def split: if_splits)
  ultimately show ?thesis by blast
qed

lemma GetResults_Inr:
  assumes "GetResults f tie eid d = Inr res"
  obtains e res0 where "select_event d eid = Some e" "eStatus e = EventStatusDrawn"
    "GetResults_loop f 0 (eWinnerCount e)
       \<lparr>rEventID = eid, rEventTitle = eTitle e, rTotalEntrants = 0, rWinners = [], rWaitlist = [],
        rDrawnAt = zero_time, rDigest = '''', rIntegrity = ''''\<rparr>
       (order_by tie dDrawRank (event_draws d eid)) = Inr res0"
    "check_seal f d eid (eWinnerCount e) res0 = Inr res"
  using assms
  by (auto simp: GetResults_def query_def split: option.splits sum.splits if_splits)

lemma GetResults_partition:
  assumes "GetResults f tie eid d = Inr res" and "select_event d eid = Some e"
  shows "rWinners res = filter (\<lambda>r. dDrawRank r \<le> eWinnerCount e) (order_by tie dDrawRank (event_draws d eid))"
    and "rWaitlist res = filter (\<lambda>r. \<not> dDrawRank r \<le> eWinnerCount e) (order_by tie dDrawRank (event_draws d eid))"
  using assms by (auto elim!: GetResults_Inr simp: GetResults_loop_split check_seal_fields)

section \<open>From the draw to the results\<close>

lemma draw_outcomeE:
  assumes "draw_outcome env eid d res d'"
  obtains e ws wl s q where
    "select_event d eid = Some e" "eStatus e = EventStatusClosed" "eDrawAt e \<le> txNow env"
    "SelectWinners (participants_of (deTie env) eid d) (eWinnerCount e) (deEntropy env) = Inr (ws, wl, s)"
    "ranked_rows eid (int (length (participants_of (deTie env) eid d))) (rDrawnAt res) 0 (ws @ wl)
       (rWinners res @ rWaitlist res)"
    "length (rWinners res) = length ws"
    "rEventID res = eid" "rEventTitle res = eTitle e"
    "rTotalEntrants res = int (length (participants_of (deTie env) eid d))"
    "rDrawnAt res = Truncate_us (deWallClock env)"
    "rDigest res = drawDigest eid (eWinnerCount e) (rDrawnAt res) (rWinners res @ rWaitlist res)"
    "rIntegrity res = IntegrityVerified"
    "eid \<notin> sEventID ` set (tSeals d)"
    "d' = d\<lparr>tSeqs := q, tDraws := tDraws d @ rWinners res @ rWaitlist res,
       tSeals := tSeals d @ [\<lparr>sEventID = eid, sDigest = rDigest res, sAlgorithm = sealAlgorithm,
         sSealedAt = rDrawnAt res\<rparr>],
       tEvents := map (set_status (txNow env) eid EventStatusDrawn) (tEvents d)\<rparr>"
proof -
  from assms show thesis
    unfolding draw_outcome_def Let_def by (elim exE conjE) (rule that)
qed

text \<open>Ranks split at the winner count.\<close>

lemma draw_outcome_split:
  assumes "draw_outcome env eid d res d'" and "select_event d eid = Some e"
  shows "r \<in> set (rWinners res) \<Longrightarrow> dDrawRank r \<le> eWinnerCount e"
    and "r \<in> set (rWaitlist res) \<Longrightarrow> \<not> dDrawRank r \<le> eWinnerCount e"
  using assms(1)
proof (atomize (full), elim draw_outcomeE, goal_cases)
  case (1 e' ws wl s q)
  then have e': "e' = e" using assms(2) by simp
  let ?rs = "rWinners res @ rWaitlist res"
  have rank: "dDrawRank (?rs ! k) = int k + 1" if "k < length ?rs" for k
    using ranked_rows_nth[OF "1"(5)] ranked_rows_length[OF "1"(5)] that by (simp add: row_contents_def)
  have wc: "1 \<le> eWinnerCount e" using "1"(4) by (simp add: e' SelectWinners_split)
  have lens: "length ws = min (nat (eWinnerCount e)) (length (ws @ wl))"
    unfolding mset_eq_length[OF SelectWinners_correct(1)[OF "1"(4)]]
    using SelectWinners_correct(2)[OF "1"(4)] unfolding e' .
  have "dDrawRank (rWinners res ! k) \<le> eWinnerCount e" if "k < length (rWinners res)" for k
  proof -
    have "int (length ws) \<le> eWinnerCount e" using lens wc by linarith
    then show ?thesis using rank[of k] that "1"(6) by (simp add: nth_append)
  qed
  moreover have "eWinnerCount e < dDrawRank (rWaitlist res ! k)" if "k < length (rWaitlist res)" for k
  proof -
    have "length wl = length (rWaitlist res)" using ranked_rows_length[OF "1"(5)] "1"(6) by simp
    then have "length ws = nat (eWinnerCount e)" using lens that by (auto simp: min_def split: if_splits)
    with rank[of "length ws + k"] that "1"(6) wc show ?thesis by (simp add: nth_append)
  qed
  ultimately show ?case by (auto simp: in_set_conv_nth not_le)
qed

lemma order_by_ranked:
  assumes "ranked_rows eid n at i uids rs"
  shows "order_by tie dDrawRank rs = rs"
proof (rule map_sorted_distinct_set_unique[of dDrawRank])
  have ranks: "map dDrawRank rs = map (\<lambda>k. int (i + k) + 1) [0..<length uids]"
    using assms by (rule ranked_rows_ranks)
  show "distinct (map dDrawRank rs)" unfolding ranks by (simp add: distinct_map inj_on_def)
  then show "inj_on dDrawRank (set (order_by tie dDrawRank rs) \<union> set rs)"
    by (simp add: distinct_map)
  show "sorted (map dDrawRank rs)" unfolding ranks by (simp add: sorted_iff_nth_mono)
  show "distinct (map dDrawRank (order_by tie dDrawRank rs))"
    using \<open>distinct (map dDrawRank rs)\<close> by (metis mset_eq_imp_distinct_iff mset_map mset_order_by)
qed simp_all

lemma filter_split_append:
  assumes "\<And>x. x \<in> set xs \<Longrightarrow> P x" and "\<And>y. y \<in> set ys \<Longrightarrow> \<not> P y"
  shows "filter P (xs @ ys) = xs" and "filter (\<lambda>x. \<not> P x) (xs @ ys) = ys"
  using assms by (simp_all add: filter_empty_conv)

lemma GetResults_roundtrip:
  assumes out: "draw_outcome env eid d res d'" and none: "event_draws d eid = []"
  shows "GetResults no_faults tie eid d' = Inr res"
proof -
  obtain e ws wl s q where o: "select_event d eid = Some e"
    "SelectWinners (participants_of (deTie env) eid d) (eWinnerCount e) (deEntropy env) = Inr (ws, wl, s)"
    "ranked_rows eid (int (length (participants_of (deTie env) eid d))) (rDrawnAt res) 0 (ws @ wl)
       (rWinners res @ rWaitlist res)"
    and res: "rEventID res = eid" "rEventTitle res = eTitle e"
      "rTotalEntrants res = int (length (participants_of (deTie env) eid d))"
      "rDigest res = drawDigest eid (eWinnerCount e) (rDrawnAt res) (rWinners res @ rWaitlist res)"
      "rIntegrity res = IntegrityVerified"
    and sl: "eid \<notin> sEventID ` set (tSeals d)"
    and d': "d' = d\<lparr>tSeqs := q, tDraws := tDraws d @ rWinners res @ rWaitlist res,
       tSeals := tSeals d @ [\<lparr>sEventID = eid, sDigest = rDigest res, sAlgorithm = sealAlgorithm,
         sSealedAt = rDrawnAt res\<rparr>],
       tEvents := map (set_status (txNow env) eid EventStatusDrawn) (tEvents d)\<rparr>"
    using out by (elim draw_outcomeE) blast
  let ?rs = "rWinners res @ rWaitlist res"
  let ?init = "\<lparr>rEventID = eid, rEventTitle = eTitle e, rTotalEntrants = 0, rWinners = [], rWaitlist = [],
        rDrawnAt = zero_time, rDigest = '''', rIntegrity = ''''\<rparr>"
  have stamp: "\<forall>r \<in> set ?rs. dDrawnAt r = rDrawnAt res \<and>
      dTotalEntrants r = int (length (participants_of (deTie env) eid d)) \<and> dEventID r = eid"
    using ranked_rows_set[OF o(3)] by blast
  have ne: "?rs \<noteq> []"
    using o(2) ranked_rows_length[OF o(3)] SelectWinners_correct(1)[OF o(2)]
    by (auto simp: SelectWinners_split)
  have draws: "order_by tie dDrawRank (event_draws d' eid) = ?rs"
    using none stamp order_by_ranked[OF o(3)] by (simp add: event_draws_def d')
  have ev: "select_event d' eid = Some (set_status (txNow env) eid EventStatusDrawn e)"
    using o(1) by (simp add: d' select_event_def find_map_key)
  have sealed: "select_seal d' eid = Some \<lparr>sEventID = eid, sDigest = rDigest res,
      sAlgorithm = sealAlgorithm, sSealedAt = rDrawnAt res\<rparr>"
    using sl by (auto simp: d' select_seal_def find_append find_None_set split: option.splits dest!: find_Some_set)
  obtain res0 where loop: "GetResults_loop no_faults 0 (eWinnerCount e) ?init ?rs = Inr res0"
    using GetResults_loop_no_faults by blast
  have "rWinners res0 = rWinners res" "rWaitlist res0 = rWaitlist res"
    using GetResults_loop_split(1,2)[OF loop] filter_split_append[OF draw_outcome_split[OF out o(1)]]
    by simp_all
  moreover have "rEventID res0 = eid" "rEventTitle res0 = eTitle e"
    using GetResults_loop_split(3,4)[OF loop] by simp_all
  moreover have "rDrawnAt res0 = rDrawnAt res"
    "rTotalEntrants res0 = int (length (participants_of (deTie env) eid d))"
    using GetResults_loop_stamp[OF loop] stamp ne by auto
  ultimately have "check_seal no_faults d' eid (eWinnerCount e) res0 = Inr res"
    unfolding check_seal_def sealed using res by (cases res) simp
  then show ?thesis
    using select_event_SomeD[OF o(1)] by (simp add: GetResults_def ev draws loop)
qed

section \<open>Tampering with the audit log\<close>

text \<open>
  Whatever happens to the tables after a draw, as long as its seal is kept: a result page
  that says \<^verbatim>\<open>verified\<close> shows the winners and the waitlist that were drawn, in the same order,
  or exhibits two different texts with one SHA-256 hash.
\<close>

lemma draw_outcome_seal:
  assumes "draw_outcome env eid d res d'"
  shows "select_seal d' eid = Some \<lparr>sEventID = eid, sDigest = rDigest res,
    sAlgorithm = sealAlgorithm, sSealedAt = rDrawnAt res\<rparr>"
  using assms
proof (elim draw_outcomeE, goal_cases)
  case (1 e ws wl s q)
  from "1"(13) have "find (\<lambda>s. sEventID s = eid) (tSeals d) = None" by (force simp: find_None_set)
  then show ?case by (simp add: "1"(14) select_seal_def find_append)
qed

lemma verified_binds:
  assumes out: "draw_outcome env eid d res d'" and ev: "select_event d eid = Some e"
    and seal: "select_seal d2 eid = select_seal d' eid"
    and get: "GetResults f tie eid d2 = Inr res2" and ver: "rIntegrity res2 = IntegrityVerified"
    and ev2: "select_event d2 eid = Some e2"
    and nc: "\<not> sha256_collision
      (bytes_of (seal_text eid (eWinnerCount e) (rDrawnAt res) (rWinners res @ rWaitlist res)))
      (bytes_of (seal_text eid (eWinnerCount e2) (rDrawnAt res2) (rWinners res2 @ rWaitlist res2)))"
  shows "eWinnerCount e2 = eWinnerCount e \<and> rDrawnAt res2 = rDrawnAt res \<and>
    map row_outcome (rWinners res2) = map row_outcome (rWinners res) \<and>
    map row_outcome (rWaitlist res2) = map row_outcome (rWaitlist res)"
proof -
  have digest: "rDigest res = drawDigest eid (eWinnerCount e) (rDrawnAt res) (rWinners res @ rWaitlist res)"
    and clean: "list_all clean_row (rWinners res @ rWaitlist res)"
    using out ev by (auto elim!: draw_outcomeE simp: list_all_iff
        dest: ranked_rows_set intro!: entropySource_clean)
  have "drawDigest eid (eWinnerCount e2) (rDrawnAt res2) (rWinners res2 @ rWaitlist res2) = rDigest res"
    using get ver ev2 seal draw_outcome_seal[OF out]
    by (auto elim!: GetResults_Inr dest: check_seal_verified)
  from drawDigest_binding[OF this[symmetric, unfolded digest] clean nc]
  have wc: "eWinnerCount e2 = eWinnerCount e" "rDrawnAt res2 = rDrawnAt res"
    and rows: "map row_outcome (rWinners res @ rWaitlist res) = map row_outcome (rWinners res2 @ rWaitlist res2)"
    by simp_all
  let ?P = "\<lambda>r. dDrawRank r \<le> eWinnerCount e" and ?Q = "\<lambda>(k, _, _, _). k \<le> eWinnerCount e"
  have fm: "filter ?Q (map row_outcome zs) = map row_outcome (filter ?P zs)"
    "filter (\<lambda>x. \<not> ?Q x) (map row_outcome zs) = map row_outcome (filter (\<lambda>r. \<not> ?P r) zs)" for zs
    by (simp_all add: filter_map o_def row_outcome_def)
  have split: "filter ?Q (map row_outcome (xs @ ys)) = map row_outcome xs \<and>
      filter (\<lambda>x. \<not> ?Q x) (map row_outcome (xs @ ys)) = map row_outcome ys"
    if "\<And>x. x \<in> set xs \<Longrightarrow> ?P x" "\<And>y. y \<in> set ys \<Longrightarrow> \<not> ?P y" for xs ys
  proof -
    have "filter ?P (xs @ ys) = xs" "filter (\<lambda>r. \<not> ?P r) (xs @ ys) = ys"
      by (rule filter_split_append[OF that]; assumption)+
    then show ?thesis unfolding fm by simp
  qed
  have "filter ?Q (map row_outcome (rWinners res2 @ rWaitlist res2)) = map row_outcome (rWinners res2) \<and>
      filter (\<lambda>x. \<not> ?Q x) (map row_outcome (rWinners res2 @ rWaitlist res2)) = map row_outcome (rWaitlist res2)"
    using GetResults_partition[OF get ev2] by (intro split) (auto simp: wc)
  moreover have "filter ?Q (map row_outcome (rWinners res @ rWaitlist res)) = map row_outcome (rWinners res) \<and>
      filter (\<lambda>x. \<not> ?Q x) (map row_outcome (rWinners res @ rWaitlist res)) = map row_outcome (rWaitlist res)"
    by (rule split) (erule draw_outcome_split[OF out ev])+
  ultimately show ?thesis using wc unfolding rows by simp
qed

section \<open>A draw that is possible happens\<close>

lemma utf8_ascii: "\<forall>b \<in> set bs. b < 0x80 \<Longrightarrow> utf8_bytes bs"
  by (induction bs) auto

lemma text_ok_ascii: "\<forall>c \<in> set s. 0 < (of_char c :: nat) \<and> (of_char c :: nat) < 0x80 \<Longrightarrow> text_ok s"
  by (auto simp: text_ok_def intro!: utf8_ascii)

lemma length_hex_digits: "length ''0123456789abcdef'' = 16"
  by simp

lemma set_hex: "set (hex_EncodeToString bs) \<subseteq> set ''0123456789abcdef''"
proof
  fix c assume "c \<in> set (hex_EncodeToString bs)"
  then obtain b :: byte where "c = hex_digit (unat b div 16) \<or> c = hex_digit (unat b mod 16)"
    by (auto simp: hex_EncodeToString_def)
  moreover have "unat b div 16 < 16" "unat b mod 16 < 16"
    using unsigned_less[of b, where 'a = nat] by simp_all
  ultimately obtain k where "k < 16" "c = hex_digit k" by blast
  then show "c \<in> set ''0123456789abcdef''"
    unfolding hex_digit_def by (metis nth_mem length_hex_digits)
qed

lemma text_ok_digest [simp]: "text_ok (drawDigest e w t rs)"
proof (rule text_ok_ascii)
  have "\<forall>c \<in> set ''0123456789abcdef''. 0 < (of_char c :: nat) \<and> (of_char c :: nat) < 0x80" by simp
  then show "\<forall>c \<in> set (drawDigest e w t rs). 0 < (of_char c :: nat) \<and> (of_char c :: nat) < 0x80"
    unfolding drawDigest_def using set_hex by blast
qed

lemma text_ok_constants [simp]: "text_ok entropySource" "text_ok sealAlgorithm"
  by (rule text_ok_ascii; simp add: entropySource_def sealAlgorithm_def)+

lemma insert_ranked_succeeds:
  assumes "eid \<in> event_ids d" "set uids \<subseteq> user_ids d" "is_int32 n" "int i + int (length uids) \<le> max_int32"
    and "\<forall>r \<in> set (event_draws d eid). dDrawRank r \<le> int i"
  shows "\<exists>rs d'. insert_ranked no_faults what eid n at i uids d = (Inr rs, d')"
  using assms
proof (induction uids arbitrary: i d)
  case Nil
  then show ?case by (simp add: stmt_return_def)
next
  case (Cons u us)
  have "is_int32 (int i + 1)" using Cons.prems(4) by (simp add: is_int32_def)
  moreover have "\<not> list_ex (\<lambda>r. dEventID r = eid \<and> dDrawRank r = int i + 1) (tDraws d)"
    using Cons.prems(5) by (force simp: list_ex_iff event_draws_def)
  ultimately obtain r d1 where ins: "insert_draw eid u (int i + 1) n entropySource at d = (Inr r, d1)"
    using Cons.prems(1-3) by (simp add: insert_draw_def Let_def)
  note row = insert_draw_done(1,2)[OF ins]
  have "\<exists>rs d'. insert_ranked no_faults what eid n at (Suc i) us d1 = (Inr rs, d')"
    using Cons.prems by (intro Cons.IH) (fastforce simp: row event_ids_def user_ids_def event_draws_def)+
  then show ?case using ins by (auto simp: stmt_bind_def stmt_return_def on_error_def)
qed

lemma persist_draw_succeeds:
  assumes "eid \<in> event_ids d" "set (ws @ wl) \<subseteq> user_ids d" "is_int32 n"
    and "int (length (ws @ wl)) \<le> max_int32"
    and "event_draws d eid = []" "eid \<notin> sEventID ` set (tSeals d)"
    and "\<And>e. select_event d eid = Some e \<Longrightarrow> eStatus e \<noteq> EventStatusDrawn"
  shows "\<exists>res d'. persist_draw no_faults now at eid title wc n ws wl d = (Inr res, d')"
proof -
  obtain rs1 d1 where w: "insert_ranked no_faults ''winner'' eid n at 0 ws d = (Inr rs1, d1)"
    using assms insert_ranked_succeeds[of eid d ws n 0 "''winner''" at] by auto
  from insert_ranked_Inr[OF w] obtain q1 where
    r1: "ranked_rows eid n (Truncate_us at) 0 ws rs1" and d1: "d1 = d\<lparr>tSeqs := q1, tDraws := tDraws d @ rs1\<rparr>"
    by auto
  have "\<forall>r \<in> set (event_draws d1 eid). dDrawRank r \<le> int (length ws)"
  proof -
    have "dDrawRank r \<in> set (map dDrawRank rs1)" if "r \<in> set (event_draws d1 eid)" for r
      using that assms(5) by (auto simp: event_draws_def d1 filter_empty_conv)
    then show ?thesis unfolding ranked_rows_ranks[OF r1] by fastforce
  qed
  then obtain rs2 d2 where l: "insert_ranked no_faults ''waitlist'' eid n at (length ws) wl d1 = (Inr rs2, d2)"
    using assms insert_ranked_succeeds[of eid d1 wl n "length ws" "''waitlist''" at]
    by (auto simp: d1 event_ids_def user_ids_def)
  from insert_ranked_Inr[OF l] obtain q2 where d2: "d2 = d1\<lparr>tSeqs := q2, tDraws := tDraws d1 @ rs2\<rparr>"
    by auto
  have "select_seal d2 eid = None" using assms(6) by (simp add: d2 d1)
  moreover have "eid \<in> event_ids d2" using assms(1) by (simp add: d2 d1 event_ids_def)
  ultimately obtain d3 where sl: "insert_seal eid (drawDigest eid wc at (rs1 @ rs2)) sealAlgorithm at d2 = (Inr (), d3)"
    by (simp add: insert_seal_def)
  have ev: "select_event d3 eid = select_event d eid"
    by (simp add: insert_seal_done(1)[OF sl] d2 d1 select_event_def)
  obtain d4 where "update_event_status now eid EventStatusDrawn d3 = (Inr (), d4)"
    using assms(7)
    by (cases "select_event d eid")
      (auto simp: update_event_status_def ev forbid_drawn_event_change_def statuses_def)
  with w l sl show ?thesis
    by (simp add: persist_draw_def Let_def stmt_bind_def on_error_def stmt_return_def)
qed

lemma RunDraw_succeeds:
  assumes wf: "db_wf d" and env: "txFault env = no_faults" "txCommit env = CommitOk"
    and ok: "draw_refusal env eid d = None"
    and fresh: "event_draws d eid = []" "eid \<notin> sEventID ` set (tSeals d)"
    and small: "count_bookings d eid \<le> max_int32"
    and entropy: "\<And>e. select_event d eid = Some e \<Longrightarrow>
      \<exists>x. SelectWinners (participants_of (deTie env) eid d) (eWinnerCount e) (deEntropy env) = Inr x"
  shows "\<exists>res d'. RunDraw env eid d = (Inr res, d')"
proof -
  obtain e where e: "select_event d eid = Some e" "eStatus e = EventStatusClosed" "eDrawAt e \<le> txNow env"
    and ps: "event_bookings d eid \<noteq> []"
    using ok by (auto simp: draw_refusal_def split: option.splits if_splits)
  let ?ps = "participants_of (deTie env) eid d"
  obtain ws wl s where sel: "SelectWinners ?ps (eWinnerCount e) (deEntropy env) = Inr (ws, wl, s)"
    using entropy[OF e(1)] by auto
  have mset: "mset (ws @ wl) = mset ?ps" using SelectWinners_correct(1)[OF sel] .
  have "length (ws @ wl) = length ?ps" "set (ws @ wl) = set ?ps"
    using mset_eq_length[OF mset] mset_eq_setD[OF mset] by auto
  moreover have "int (length ?ps) \<le> max_int32"
    using small by (simp add: count_bookings_def participants_of_def)
  moreover have "set ?ps \<subseteq> user_ids d"
    using wf by (auto simp: participants_of_def event_bookings_def db_wf_def bookings_wf_def)
  ultimately have "\<exists>res d'. persist_draw no_faults (txNow env) (Truncate_us (deWallClock env)) eid (eTitle e)
      (eWinnerCount e) (int (length ?ps)) ws wl d = (Inr res, d')"
    using e fresh select_event_SomeD[OF e(1)]
    by (intro persist_draw_succeeds) (auto simp: event_ids_def is_int32_def)
  moreover have "?ps \<noteq> []" using ps event_bookings_order[of "deTie env" eid d] by auto
  moreover have "query_row no_faults (Query 0) (\<lambda>d. select_event d eid) d = (Inr e, d)"
    using e(1) by (simp add: query_row_def stmt_read_def)
  ultimately have "\<exists>res d'. RunDraw_body env eid d = (Inr res, d')"
    using e sel env(1)
    by (simp add: RunDraw_body_def stmt_bind_def on_error_def draw_status_check_def stmt_read_def
        select_and_persist_def)
  then show ?thesis using env by (simp add: RunDraw_def with_tx_Inr)
qed

text \<open>When the random source fails, nothing is stored.\<close>

lemma RunDraw_no_entropy:
  assumes "txFault env = no_faults" "draw_refusal env eid d = None" "select_event d eid = Some e"
    and "SelectWinners (participants_of (deTie env) eid d) (eWinnerCount e) (deEntropy env) = Inl err"
  shows "RunDraw env eid d = (Inl (wrap ''lottery selection'' err), d)"
proof -
  have e: "eStatus e = EventStatusClosed" "eDrawAt e \<le> txNow env" "event_bookings d eid \<noteq> []"
    using assms(2,3) by (auto simp: draw_refusal_def split: if_splits)
  have "participants_of (deTie env) eid d \<noteq> []" using e(3) event_bookings_order[of "deTie env" eid d] by auto
  moreover have "query_row no_faults (Query 0) (\<lambda>d. select_event d eid) d = (Inr e, d)"
    using assms(3) by (simp add: query_row_def stmt_read_def)
  ultimately have "RunDraw_body env eid d = (Inl (wrap ''lottery selection'' err), d)"
    using assms(1,4) e
    by (simp add: RunDraw_body_def stmt_bind_def on_error_def draw_status_check_def stmt_read_def select_and_persist_def stmt_fail_def)
  then show ?thesis using assms(1) by (simp add: RunDraw_def with_tx_def rollback_def)
qed

lemma RunDraw_body_commit: "RunDraw_body (env\<lparr>txCommit := c\<rparr>) eid = RunDraw_body env eid"
proof -
  have "select_and_persist (env\<lparr>txCommit := c\<rparr>) = select_and_persist env"
    by (simp add: fun_eq_iff select_and_persist_def cong: sum.case_cong)
  then show ?thesis by (simp add: RunDraw_body_def cong: option.case_cong if_cong)
qed

section \<open>An example draw\<close>

definition demo_draw :: draw_env where
  "demo_draw = \<lparr>txFault = no_faults, txCommit = CommitOk, txNow = 2000, deWallClock = 3000, deEntropy = [1],
     deTie = (\<lambda>b. 0)\<rparr>"

lemma demo_draw_simps [simp]:
  "txFault demo_draw = no_faults" "txCommit demo_draw = CommitOk" "txNow demo_draw = 2000"
  "deEntropy demo_draw = [1]"
  by (simp_all add: demo_draw_def)

lemma demo_participants: "participants_of (deTie demo_draw) 2 demo_db = [2, 3]"
  by (simp add: participants_of_def order_by_def demo_draw_def demo_booking_def)

lemma demo_select: "SelectWinners [2, 3] 1 [1] = Inr ([2], [3], [])"
  by code_simp

lemma demo_runs: "\<exists>res d'. RunDraw demo_draw 2 demo_db = (Inr res, d')"
  by (rule RunDraw_succeeds)
    (simp_all add: draw_refusal_def count_bookings_def demo_participants demo_select)

section \<open>Properties\<close>

text \<open>
  C3. A successful draw is complete and correct: the event was closed and due; the winners and
  the waitlist together are exactly the users who booked, ranked 1 to n, the first
  \<^verbatim>\<open>winner_count\<close> of them winning; the rows are stored under a seal with their digest and the
  event is marked as drawn. No other event, booking or user changes.
\<close>

theorem RunDraw_correct:
  assumes "RunDraw env eid d = (Inr res, d')"
  shows "\<exists>e. select_event d eid = Some e \<and> eStatus e = EventStatusClosed \<and> eDrawAt e \<le> txNow env
    \<and> mset (map dWinnerUserID (rWinners res @ rWaitlist res)) = mset (map bUserID (event_bookings d eid))
    \<and> map dDrawRank (rWinners res @ rWaitlist res) = map (\<lambda>k. int k + 1) [0..<length (event_bookings d eid)]
    \<and> length (rWinners res) = min (nat (eWinnerCount e)) (length (event_bookings d eid))
    \<and> tDraws d' = tDraws d @ rWinners res @ rWaitlist res
    \<and> select_seal d' eid = Some \<lparr>sEventID = eid, sDigest = rDigest res, sAlgorithm = sealAlgorithm, sSealedAt = rDrawnAt res\<rparr>
    \<and> rDigest res = drawDigest eid (eWinnerCount e) (rDrawnAt res) (rWinners res @ rWaitlist res)
    \<and> tEvents d' = map (set_status (txNow env) eid EventStatusDrawn) (tEvents d)
    \<and> tUsers d' = tUsers d \<and> tBookings d' = tBookings d"
proof -
  have out: "draw_outcome env eid d res d'" using assms by (rule RunDraw_Inr)
  let ?n = "length (event_bookings d eid)"
  have len: "length (participants_of (deTie env) eid d) = ?n" by (simp add: participants_of_def)
  from out show ?thesis
  proof (cases rule: draw_outcomeE)
    case (1 e ws wl s q)
    have perm: "mset (ws @ wl) = mset (map bUserID (event_bookings d eid))"
      using SelectWinners_correct(1)[OF "1"(4)] event_bookings_order by simp
    then have n: "length (ws @ wl) = ?n" by (metis length_map mset_eq_length)
    have "length (rWinners res) = min (nat (eWinnerCount e)) ?n"
      using SelectWinners_correct(2)[OF "1"(4)] "1"(6) len by simp
    then show ?thesis
      using "1"(1-3,11,14) perm ranked_rows_users[OF "1"(5)] ranked_rows_ranks[OF "1"(5)] n draw_outcome_seal[OF out]
      by (intro exI[of _ e]) simp
  qed
qed

theorem RunDraw_correct_witness:
  "\<exists>res d'. RunDraw demo_draw 2 demo_db = (Inr res, d') \<and>
     mset (map dWinnerUserID (rWinners res @ rWaitlist res)) = {#2, 3#} \<and> length (rWinners res) = 1"
proof -
  obtain res d' where run: "RunDraw demo_draw 2 demo_db = (Inr res, d')" using demo_runs by blast
  from RunDraw_correct[OF run] run show ?thesis by (auto simp: demo_booking_def)
qed

text \<open>
  A draw is all or nothing: when it reports an error no table has changed, except that a
  commit whose reply was lost may have taken effect, and then it is a complete draw.
\<close>

theorem RunDraw_atomic:
  assumes "RunDraw env eid d = (Inl err, d')"
  shows "same_tables d d' \<or>
    (\<exists>res e. txCommit env = CommitLost e \<and> err = wrap ''commit draw tx'' e \<and>
       RunDraw (env\<lparr>txCommit := CommitOk\<rparr>) eid d = (Inr res, d'))"
proof -
  have body: "RunDraw_body (env\<lparr>txCommit := CommitOk\<rparr>) eid = RunDraw_body env eid"
    by (rule RunDraw_body_commit)
  from with_tx_Inl[OF assms[unfolded RunDraw_def]] show ?thesis
  proof
    assume "\<exists>x e. txCommit env = CommitLost e \<and> err = wrap ''commit draw tx'' e \<and>
        RunDraw_body env eid d = (Inr x, d')"
    then obtain res e where "txCommit env = CommitLost e" "err = wrap ''commit draw tx'' e"
      "RunDraw_body env eid d = (Inr res, d')" by blast
    moreover have "txFault env Begin = None"
      using assms calculation(2,3) by (auto simp: RunDraw_def with_tx_def wrap_def split: option.splits)
    ultimately have "RunDraw (env\<lparr>txCommit := CommitOk\<rparr>) eid d = (Inr res, d')"
      unfolding RunDraw_def with_tx_Inr body by simp
    with \<open>txCommit env = CommitLost e\<close> \<open>err = _\<close> show ?thesis by blast
  qed simp
qed

theorem RunDraw_atomic_witness:
  "same_tables demo_db (snd (RunDraw demo_draw 1 demo_db))"
proof -
  have run: "RunDraw demo_draw 1 demo_db =
      (Inl (Wrapf '''' ErrEventNotClosed ('' (current status: '' @ EventStatusOpen @ '')'')), demo_db)"
    by (rule RunDraw_refused) (simp_all add: draw_refusal_def)
  from RunDraw_atomic[OF run] run show ?thesis by simp
qed

text \<open>
  C5. What the results page shows after a draw is what the draw returned, and the seal verifies:
  the rows are split at the winner count again, the digest is recomputed from the stored rows.
\<close>

theorem GetResults_RunDraw:
  assumes "RunDraw env eid d = (Inr res, d')" and "event_draws d eid = []"
  shows "GetResults no_faults tie eid d' = Inr res \<and> rIntegrity res = IntegrityVerified"
proof -
  have out: "draw_outcome env eid d res d'" using assms(1) by (rule RunDraw_Inr)
  then have "rIntegrity res = IntegrityVerified" by (rule draw_outcomeE)
  with GetResults_roundtrip[OF out assms(2)] show ?thesis by blast
qed

theorem GetResults_RunDraw_witness:
  "\<exists>res d'. RunDraw demo_draw 2 demo_db = (Inr res, d') \<and> GetResults no_faults (\<lambda>_. 0) 2 d' = Inr res"
proof -
  obtain res d' where run: "RunDraw demo_draw 2 demo_db = (Inr res, d')" using demo_runs by blast
  from GetResults_RunDraw[OF run, of "\<lambda>_. 0"] run show ?thesis by auto
qed

text \<open>
  C6. Tampering is detected: whatever is done to the tables after a draw, as long as its seal
  row is kept, a results page that says \<^verbatim>\<open>verified\<close> shows the drawn winners and waitlist, rank
  by rank, and the instant of the draw, unless the sealed text and the text recomputed from
  the tables collide under SHA-256.
\<close>

theorem verified_results_are_drawn:
  assumes "RunDraw env eid d = (Inr res, d')" "select_event d eid = Some e"
    and "select_seal d2 eid = select_seal d' eid" "select_event d2 eid = Some e2"
    and "GetResults f tie eid d2 = Inr res2" "rIntegrity res2 = IntegrityVerified"
    and "\<not> sha256_collision
      (bytes_of (seal_text eid (eWinnerCount e) (rDrawnAt res) (rWinners res @ rWaitlist res)))
      (bytes_of (seal_text eid (eWinnerCount e2) (rDrawnAt res2) (rWinners res2 @ rWaitlist res2)))"
  shows "map row_outcome (rWinners res2) = map row_outcome (rWinners res) \<and>
    map row_outcome (rWaitlist res2) = map row_outcome (rWaitlist res) \<and>
    rDrawnAt res2 = rDrawnAt res \<and> eWinnerCount e2 = eWinnerCount e"
  using verified_binds[OF RunDraw_Inr[OF assms(1)] assms(2,3,5,6,4,7)] by blast

theorem verified_results_are_drawn_witness:
  "\<exists>res d' res2. RunDraw demo_draw 2 demo_db = (Inr res, d') \<and>
     GetResults no_faults (\<lambda>_. 0) 2 d' = Inr res2 \<and> rIntegrity res2 = IntegrityVerified \<and>
     map row_outcome (rWinners res2) = map row_outcome (rWinners res)"
proof -
  obtain res d' where run: "RunDraw demo_draw 2 demo_db = (Inr res, d')" using demo_runs by blast
  have out: "draw_outcome demo_draw 2 demo_db res d'" using run by (rule RunDraw_Inr)
  have get: "GetResults no_faults (\<lambda>_. 0) 2 d' = Inr res"
    using GetResults_roundtrip[OF out] by simp
  have ver: "rIntegrity res = IntegrityVerified" using out by (rule draw_outcomeE)
  obtain e2 where e2: "select_event d' 2 = Some e2" "eWinnerCount e2 = 1"
    using out by (elim draw_outcomeE) (simp add: select_event_def find_map_key demo_db_def demo_event_def)
  have "\<not> sha256_collision
      (bytes_of (seal_text 2 (eWinnerCount (demo_event 2 3 EventStatusClosed)) (rDrawnAt res) (rWinners res @ rWaitlist res)))
      (bytes_of (seal_text 2 (eWinnerCount e2) (rDrawnAt res) (rWinners res @ rWaitlist res)))"
    by (simp add: e2 sha256_collision_def)
  from verified_results_are_drawn[OF run _ refl e2(1) get ver this] run get ver show ?thesis by auto
qed

lemma draw_errors_Is [simp]:
  "errors_Is ErrEventNotFound ErrEventNotFound" "\<not> errors_Is ErrEventAlreadyDrawn ErrEventNotFound"
  "\<not> errors_Is ErrEventCancelled ErrEventNotFound" "\<not> errors_Is ErrEventCancelled ErrEventAlreadyDrawn"
  "\<not> errors_Is ErrDrawNotDue ErrEventNotFound" "\<not> errors_Is ErrDrawNotDue ErrEventAlreadyDrawn"
  "\<not> errors_Is ErrDrawNotDue ErrEventCancelled" "\<not> errors_Is ErrDrawNotDue ErrEventNotClosed"
  "\<not> errors_Is ErrNoParticipants ErrEventNotFound" "\<not> errors_Is ErrNoParticipants ErrEventAlreadyDrawn"
  "\<not> errors_Is ErrNoParticipants ErrEventCancelled" "\<not> errors_Is ErrNoParticipants ErrEventNotClosed"
  "\<not> errors_Is ErrNoParticipants ErrDrawNotDue"
  "errors_Is (Wrapf '''' ErrEventNotClosed m) ErrEventNotClosed"
  "\<not> errors_Is (Wrapf '''' ErrEventNotClosed m) ErrEventNotFound"
  "\<not> errors_Is (Wrapf '''' ErrEventNotClosed m) ErrEventAlreadyDrawn"
  "\<not> errors_Is (Wrapf '''' ErrEventNotClosed m) ErrEventCancelled"
  by (simp_all add: lottery_errors)

text \<open>The status and code of each refusal.\<close>

definition draw_refusal_code :: "draw_env \<Rightarrow> int \<Rightarrow> db \<Rightarrow> int \<times> string" where
  "draw_refusal_code env eid d =
     (case select_event d eid of
        None \<Rightarrow> (404, ''event_not_found'')
      | Some e \<Rightarrow>
          if eStatus e = EventStatusDrawn then (409, ''already_drawn'')
          else if eStatus e = EventStatusCancelled then (409, ''event_cancelled'')
          else if eStatus e \<noteq> EventStatusClosed then (409, ''event_not_closed'')
          else if txNow env < eDrawAt e then (409, ''draw_not_due'')
          else (409, ''no_participants''))"

lemma draw_refusal_response:
  assumes "draw_refusal env eid d = Some err"
  shows "draw_error_response err =
    respond_Error (fst (draw_refusal_code env eid d)) (snd (draw_refusal_code env eid d)) (Error_text err)"
proof (cases "select_event d eid")
  case None
  then have "err = ErrEventNotFound" using assms unfolding draw_refusal_def None by simp
  then show ?thesis unfolding draw_refusal_code_def None by (simp add: draw_error_response_def)
next
  case (Some e)
  consider "eStatus e = EventStatusDrawn" "err = ErrEventAlreadyDrawn"
    | "eStatus e = EventStatusCancelled" "err = ErrEventCancelled"
    | m where "eStatus e \<notin> {EventStatusDrawn, EventStatusCancelled, EventStatusClosed}"
      "err = Wrapf '''' ErrEventNotClosed m"
    | "eStatus e = EventStatusClosed" "txNow env < eDrawAt e" "err = ErrDrawNotDue"
    | "eStatus e = EventStatusClosed" "\<not> txNow env < eDrawAt e" "err = ErrNoParticipants"
    using assms Some by (auto simp: draw_refusal_def split: if_splits)
  then show ?thesis
    by cases (simp_all add: draw_refusal_code_def Some draw_error_response_def)
qed

text \<open>
  The draw endpoint answers 400 to a path that is no positive number, and a refusal with 404
  for a missing event and 409 with the code of the reason otherwise.
\<close>

theorem Draw_refusal_status:
  assumes "txFault env = no_faults"
  shows "(parse_event_id param = None \<longrightarrow> Draw env param d = (BadRequest ''invalid event id'', d)) \<and>
    (\<forall>eid err. parse_event_id param = Some eid \<longrightarrow> draw_refusal env eid d = Some err \<longrightarrow>
      Draw env param d = (respond_Error (fst (draw_refusal_code env eid d)) (snd (draw_refusal_code env eid d))
        (Error_text err), d))"
  using RunDraw_refused[OF assms] by (simp add: Draw_def draw_refusal_response)

theorem Draw_refusal_status_witness:
  "rsStatus (fst (Draw demo_draw (FormatInt 3) demo_db)) = 409 \<and>
   rsCode (fst (Draw demo_draw (FormatInt 3) demo_db)) = ''event_cancelled''"
proof -
  have "parse_event_id (FormatInt 3) = Some 3" by (simp add: parse_event_id_FormatInt is_int64_def)
  moreover have "draw_refusal demo_draw 3 demo_db = Some ErrEventCancelled" by (simp add: draw_refusal_def)
  ultimately show ?thesis using Draw_refusal_status[of demo_draw "FormatInt 3" demo_db]
    by (simp add: draw_refusal_code_def respond_Error_def)
qed

end
