(* ===== verification/Operations.thy ===== *)
theory Operations
  imports Lottery_Spec Auth_Service Event_Service Booking_Service Lottery_Service
begin

text \<open>
  The operations of the four services as steps on one database: any of them, in any order, with
  any arguments, whatever fails on the way (lost commits included).  The row lock each
  transaction takes on its event makes the transactions of one event take effect one after the
  other, so a step is a whole operation.  Shown here: the steps implement the specification
  of \<open>Lottery_Spec\<close>, and in every state the program can reach a drawn event has a complete, sealed
  outcome that the results endpoint reports as verified.
\<close>

inductive op_step :: "auth_lib \<Rightarrow> db \<Rightarrow> db \<Rightarrow> bool" for lib where
  register: "Register lib aenv req d = (res, d') \<Longrightarrow> op_step lib d d'"
| promote: "PromoteToAdmin aenv uid d = (res, d') \<Longrightarrow> op_step lib d d'"
| bootstrap: "BootstrapAdmin lib aenv email pw name d = (res, d') \<Longrightarrow> op_step lib d d'"
| create: "event_Create maxWinners cenv req uid d = (res, d') \<Longrightarrow> op_step lib d d'"
| close: "event_Close (tenv :: reload_env) eid d = (res, d') \<Longrightarrow> op_step lib d d'"
| cancel: "event_Cancel (tenv :: reload_env) eid d = (res, d') \<Longrightarrow> op_step lib d d'"
| book: "createBooking (tenv :: tx_env) eid uid d = (res, d') \<Longrightarrow> op_step lib d d'"
| draw: "RunDraw denv eid d = (res, d') \<Longrightarrow> op_step lib d d'"

definition op_init :: "db \<Rightarrow> bool" where
  "op_init d \<longleftrightarrow> d = empty_db"

section \<open>The abstraction\<close>

definition spec_event_of :: "db \<Rightarrow> event_row \<Rightarrow> spec_event" where
  "spec_event_of d e =
     \<lparr>xStatus = eStatus e, xCapacity = eCapacity e, xWinnerCount = eWinnerCount e,
      xEntrants = map bUserID (event_bookings d (eID e)), xOutcome = map dWinnerUserID (event_draws d (eID e))\<rparr>"

definition spec_of :: "db \<Rightarrow> spec" where
  "spec_of d =
     \<lparr>xRoles = (\<lambda>i. map_option uRole (select_user d i)),
      xEvents = (\<lambda>i. map_option (spec_event_of d) (select_event d i))\<rparr>"

section \<open>The four kinds of change\<close>

text \<open>
  Whatever an operation does, its effect is one of these: nothing, a change of the users table
  alone, a new event, a status change, a booking, a draw.
\<close>

definition users_change :: "db \<Rightarrow> db \<Rightarrow> bool" where
  "users_change d d' \<longleftrightarrow>
     tEvents d' = tEvents d \<and> tBookings d' = tBookings d \<and> tDraws d' = tDraws d \<and> tSeals d' = tSeals d \<and>
     (\<exists>i. (\<exists>role \<in> {''user'', ''admin''}. select_user d i = None \<and>
              (\<forall>j. map_option uRole (select_user d' j) = (if j = i then Some role else map_option uRole (select_user d j)))) \<or>
          (select_user d i \<noteq> None \<and>
              (\<forall>j. map_option uRole (select_user d' j) = (if j = i then Some ''admin'' else map_option uRole (select_user d j)))))"

definition event_added :: "db \<Rightarrow> db \<Rightarrow> bool" where
  "event_added d d' \<longleftrightarrow>
     (\<exists>e. tEvents d' = tEvents d @ [e] \<and> eID e = qEvents (tSeqs d) + 1 \<and> eStatus e = EventStatusOpen \<and>
        0 < eWinnerCount e \<and> eWinnerCount e \<le> eCapacity e \<and>
        tUsers d' = tUsers d \<and> tBookings d' = tBookings d \<and> tDraws d' = tDraws d \<and> tSeals d' = tSeals d)"

definition op_effect :: "db \<Rightarrow> db \<Rightarrow> bool" where
  "op_effect d d' \<longleftrightarrow>
     same_tables d d' \<or> users_change d d' \<or> event_added d d' \<or>
     (\<exists>now eid a b. status_change now eid a b d d' \<and> b \<in> {EventStatusClosed, EventStatusCancelled}) \<or>
     (\<exists>now eid uid. booking_outcome now eid uid d d') \<or>
     (\<exists>env eid res. draw_outcome env eid d res d')"

lemma select_user_snoc:
  assumes "uID u \<notin> user_ids d" and "tUsers d' = tUsers d @ [u]"
  shows "select_user (d' :: db) j = (if j = uID u then Some u else select_user d j)"
  using assms select_missing(2)[OF assms(1)]
  by (auto simp: select_user_def find_append split: option.splits)

lemma fresh_user: "db_wf d \<Longrightarrow> qUsers (tSeqs d) + 1 \<notin> user_ids d"
  by (auto simp: db_wf_def users_wf_def keyed_def user_ids_def)

lemma insert_user_change:
  assumes "db_wf d" and "insert_user now email hash nm role d = (Inr u, d')"
  shows "users_change d d'"
proof -
  note D = insert_user_done[OF assms(2)]
  have id: "uID u = qUsers (tSeqs d) + 1" "uRole u = role" by (simp_all add: D(1))
  have new: "uID u \<notin> user_ids d" using fresh_user[OF assms(1)] by (simp add: id)
  have "select_user d' j = (if j = uID u then Some u else select_user d j)" for j
    by (rule select_user_snoc[OF new]) (simp add: D(2))
  moreover have "tEvents d' = tEvents d" "tBookings d' = tBookings d" "tDraws d' = tDraws d" "tSeals d' = tSeals d"
    by (simp_all add: D(2))
  ultimately show ?thesis
    using D(3) new id(2) unfolding users_change_def by (intro conjI exI[of _ "uID u"] disjI1) auto
qed

lemma map_users_change:
  assumes "\<And>u. uID (f u) = uID u" and "tUsers d' = map f (tUsers d)"
    and "\<And>u. u \<in> set (tUsers d) \<Longrightarrow> uRole (f u) = (if uID u = i then ''admin'' else uRole u)"
    and "select_user d i = Some v"
    and "tEvents d' = tEvents d" "tBookings d' = tBookings d" "tDraws d' = tDraws d" "tSeals d' = tSeals d"
  shows "users_change d (d' :: db)"
proof -
  have "select_user d' j = map_option f (select_user d j)" for j
    using assms(1,2) by (simp add: select_user_def find_map_key)
  then have "map_option uRole (select_user d' j) = (if j = i then Some ''admin'' else map_option uRole (select_user d j))" for j
    using assms(3,4) select_user_SomeD[of d j] by (cases "select_user d j") auto
  then show ?thesis
    using assms(4-) unfolding users_change_def by (intro conjI exI[of _ i] disjI2) auto
qed

lemma Register_effect:
  assumes "db_wf d" and "Register lib env req d = (res, d')"
  shows "op_effect d d'"
proof (cases res)
  case (Inr u)
  with assms(2) obtain hash row where
    "insert_user (avNow env) (normalise_email lib (regEmail req)) hash (TrimSpace (regFullName req)) ''user'' d = (Inr row, d')"
    using Register_Inr by metis
  with insert_user_change[OF assms(1)] show ?thesis by (auto simp: op_effect_def)
qed (use assms(2) Register_failed in \<open>auto simp: op_effect_def\<close>)

lemma PromoteToAdmin_effect:
  assumes "PromoteToAdmin env uid d = (res, d')"
  shows "op_effect d d'"
proof (cases res)
  case (Inl err)
  then show ?thesis
    using assms stmt_failed(7)[of "avNow env" uid "''admin''" d]
    by (auto simp: PromoteToAdmin_def stmt_prims op_effect_def seq_advance_def
        split: sum.splits prod.splits option.splits)
next
  case (Inr u)
  then obtain row where "update_user_role (avNow env) uid ''admin'' d = (Inr row, d')"
    using assms by (auto simp: PromoteToAdmin_def stmt_Inr stmt_return_def)
  then obtain v where v: "select_user d uid = Some v"
    and d': "d' = d\<lparr>tUsers := map (\<lambda>v. if uID v = uid then v\<lparr>uRole := ''admin'', uUpdatedAt := avNow env\<rparr> else v) (tUsers d)\<rparr>"
    by (auto simp: update_user_role_def split: option.splits)
  have "users_change d d'"
    by (rule map_users_change[OF _ _ _ v, of "\<lambda>v. if uID v = uid then v\<lparr>uRole := ''admin'', uUpdatedAt := avNow env\<rparr> else v"])
      (auto simp: d')
  then show ?thesis by (simp add: op_effect_def)
qed

lemma upsert_admin_effect:
  assumes "db_wf d" and "upsert_admin now email hash nm d = (Inr x, d')"
  shows "users_change d d'"
proof (cases "select_user_by_email d email")
  case None
  then obtain u where "insert_user now email hash nm ''admin'' d = (Inr u, d')"
    using assms(2) by (auto simp: upsert_admin_def insert_user_def Let_def split: if_splits)
  with assms(1) show ?thesis by (rule insert_user_change)
next
  case (Some v)
  let ?f = "\<lambda>u. if uEmail u = email then u\<lparr>uRole := ''admin'', uUpdatedAt := now\<rparr> else u"
  have v: "v \<in> set (tUsers d)" "uEmail v = email"
    using Some find_Some_set unfolding select_user_by_email_def by fastforce+
  have uniq: "uEmail u = email \<longleftrightarrow> uID u = uID v" if "u \<in> set (tUsers d)" for u
    using assms(1) that v by (auto simp: db_wf_def users_wf_def keyed_def distinct_map dest: inj_onD)
  have sel: "select_user d (uID v) = Some v"
    using assms(1) v(1) by (auto simp: select_user_def db_wf_def users_wf_def keyed_def intro: find_distinct_key)
  have d': "d' = d\<lparr>tSeqs := (tSeqs d)\<lparr>qUsers := qUsers (tSeqs d) + 1\<rparr>, tUsers := map ?f (tUsers d)\<rparr>"
    using assms(2) Some by (auto simp: upsert_admin_def Let_def split: if_splits)
  show ?thesis
    by (rule map_users_change[OF _ _ _ sel, of ?f]) (use uniq in \<open>auto simp: d'\<close>)
qed

lemma BootstrapAdmin_effect:
  assumes "db_wf d" and "BootstrapAdmin lib env email pw nm d = (res, d')"
  shows "op_effect d d'"
proof -
  have "on_error h (exec f c (upsert_admin now em hash nm)) d = (res, d') \<Longrightarrow> op_effect d d'" for h f c now em hash
    using upsert_admin_effect[OF assms(1)] stmt_failed(8)
    by (cases res) (auto simp: stmt_prims op_effect_def seq_advance_def split: option.splits sum.splits prod.splits)
  with assms(2) show ?thesis
    by (auto simp: BootstrapAdmin_def Let_def stmt_fail_def op_effect_def split: if_splits option.splits sum.splits)
qed

lemma event_Create_effect:
  assumes "event_Create mw env req uid d = (res, d')"
  shows "op_effect d d'"
proof (cases res)
  case (Inr ev)
  with assms obtain title description wc where
    ins: "insert_event (cvNow env) title description (ceCapacity req) (ceDrawAt req) wc uid d
       = (Inr (event_row.truncate ev), d')"
    using event_Create_Inr by metis
  note D = insert_event_done[OF ins]
  have "event_added d d'"
    unfolding event_added_def
    by (rule exI[of _ "event_row.truncate ev"]) (use D(3-6) in \<open>simp add: D(1,2)\<close>)
  then show ?thesis by (simp add: op_effect_def)
qed (use assms event_Create_Inl in \<open>auto simp: op_effect_def\<close>)

lemma RunDraw_tables:
  assumes "RunDraw env eid d = (res, d')"
  shows "same_tables d d' \<or> (\<exists>r. draw_outcome env eid d r d')"
  using with_tx_tables[OF assms[unfolded RunDraw_def]] RunDraw_body_Inr by blast

lemma op_step_effect:
  assumes "op_step lib d d'" and "db_wf d"
  shows "op_effect d d'"
  using assms
proof (cases rule: op_step.cases)
  case (close tenv eid res)
  then show ?thesis using event_Close_tables by (fastforce simp: op_effect_def)
next
  case (cancel tenv eid res)
  then show ?thesis using event_Cancel_tables by (fastforce simp: op_effect_def)
next
  case (book tenv eid uid res)
  show ?thesis using createBooking_tables[OF book] by (auto simp: op_effect_def)
next
  case (draw denv eid res)
  show ?thesis using RunDraw_tables[OF draw] by (auto simp: op_effect_def)
next
  case (create maxWinners cenv req uid res)
  show ?thesis by (rule event_Create_effect[OF create])
qed (use assms(2) Register_effect PromoteToAdmin_effect BootstrapAdmin_effect in blast)+

section \<open>The invariant\<close>

text \<open>
  Beyond the constraints of the schema and the capacities: an event that has not been drawn has
  neither draw rows nor a seal; one that has been drawn has the rows of its entrants, and the
  results page verifies, whatever order the server returns rows in.
\<close>

definition event_draw_ok :: "db \<Rightarrow> int \<Rightarrow> event_row \<Rightarrow> bool" where
  "event_draw_ok d i e \<longleftrightarrow>
     (if eStatus e = EventStatusDrawn
      then (\<exists>res. (\<forall>tie. GetResults no_faults tie i d = Inr res) \<and> rIntegrity res = IntegrityVerified) \<and>
           event_bookings d i \<noteq> [] \<and>
           mset (map dWinnerUserID (event_draws d i)) = mset (map bUserID (event_bookings d i))
      else event_draws d i = [] \<and> i \<notin> sEventID ` set (tSeals d))"

definition draws_inv :: "db \<Rightarrow> bool" where
  "draws_inv d \<longleftrightarrow> (\<forall>i e. select_event d i = Some e \<longrightarrow> event_draw_ok d i e)"

definition sys_inv :: "db \<Rightarrow> bool" where
  "sys_inv d \<longleftrightarrow> db_wf d \<and> capacity_ok d \<and> draws_inv d"

lemma draws_invD: "draws_inv d \<Longrightarrow> select_event d i = Some e \<Longrightarrow> event_draw_ok d i e"
  by (simp add: draws_inv_def)

lemma undrawn:
  "draws_inv d \<Longrightarrow> select_event d i = Some e \<Longrightarrow> eStatus e \<noteq> EventStatusDrawn \<Longrightarrow>
   event_draws d i = [] \<and> i \<notin> sEventID ` set (tSeals d)"
  by (drule (1) draws_invD) (simp add: event_draw_ok_def)

text \<open>The results page of an event reads its row, its draw rows and its seal.\<close>

lemma GetResults_cong:
  assumes "select_event d' i = select_event d i" "event_draws d' i = event_draws d i" "select_seal d' i = select_seal d i"
  shows "GetResults f tie i d' = GetResults f tie i d"
proof -
  have "check_seal f d' i = check_seal f d i" using assms(3) by (simp add: check_seal_def fun_eq_iff)
  then show ?thesis unfolding GetResults_def assms(1,2) by presburger
qed

text \<open>What a change has to leave alone for the invariant of the events it does not concern.\<close>

definition untouched :: "int \<Rightarrow> db \<Rightarrow> db \<Rightarrow> bool" where
  "untouched i d d' \<longleftrightarrow>
     select_event d' i = select_event d i \<and> event_draws d' i = event_draws d i \<and>
     event_bookings d' i = event_bookings d i \<and> select_seal d' i = select_seal d i"

lemma untouched_draws:
  assumes "draws_inv d" and "untouched i d d'" and "select_event d' i = Some e"
  shows "event_draw_ok d' i e"
proof -
  have seal: "i \<in> sEventID ` set (tSeals d') \<longleftrightarrow> i \<in> sEventID ` set (tSeals d)"
    using assms(2) unfolding untouched_def by (metis select_seal_None)
  have get: "GetResults no_faults tie i d' = GetResults no_faults tie i d" for tie
    using assms(2) by (intro GetResults_cong) (auto simp: untouched_def)
  have "select_event d i = Some e" using assms(2,3) by (simp add: untouched_def)
  moreover have "event_draws d' i = event_draws d i" "event_bookings d' i = event_bookings d i"
    using assms(2) by (simp_all add: untouched_def)
  ultimately show ?thesis
    using draws_invD[OF assms(1)] unfolding event_draw_ok_def get seal by presburger
qed

lemma draws_invI:
  assumes "draws_inv d" and "\<And>j. j \<noteq> i \<Longrightarrow> untouched j d d'"
    and "\<And>e. select_event d' i = Some e \<Longrightarrow> event_draw_ok d' i e"
  shows "draws_inv d'"
  unfolding draws_inv_def
proof (intro allI impI)
  fix j e assume "select_event d' j = Some e"
  then show "event_draw_ok d' j e"
    using assms(3)[of e] untouched_draws[OF assms(1) assms(2)] by (cases "j = i") simp_all
qed

lemma draws_inv_all_untouched: "draws_inv d \<Longrightarrow> (\<And>j. untouched j d d') \<Longrightarrow> draws_inv d'"
  using untouched_draws by (auto simp: draws_inv_def)

lemma untouched_tables:
  "tEvents d' = tEvents d \<Longrightarrow> tBookings d' = tBookings d \<Longrightarrow> tDraws d' = tDraws d \<Longrightarrow> tSeals d' = tSeals d \<Longrightarrow>
   untouched j d (d' :: db)"
  by (simp add: untouched_def select_event_def event_draws_def event_bookings_def select_seal_def)

lemma fresh_event:
  assumes "db_wf d" and "i \<notin> event_ids d"
  shows "event_draws d i = []" "event_bookings d i = []" "i \<notin> sEventID ` set (tSeals d)"
proof -
  have "\<And>r. r \<in> set (tDraws d) \<Longrightarrow> dEventID r \<in> event_ids d" "\<And>b. b \<in> set (tBookings d) \<Longrightarrow> bEventID b \<in> event_ids d"
    "\<And>s. s \<in> set (tSeals d) \<Longrightarrow> sEventID s \<in> event_ids d"
    using assms(1) by (simp_all add: db_wf_def draws_wf_def bookings_wf_def seals_wf_def)
  with assms(2) show "event_draws d i = []" "event_bookings d i = []" "i \<notin> sEventID ` set (tSeals d)"
    by (auto simp: event_draws_def event_bookings_def filter_empty_conv)
qed

lemma select_event_snoc:
  assumes "eID e \<notin> event_ids d" and "tEvents d' = tEvents d @ [e]"
  shows "select_event (d' :: db) j = (if j = eID e then Some e else select_event d j)"
  using assms select_missing(1)[OF assms(1)]
  by (auto simp: select_event_def find_append split: option.splits)

lemma fresh_event_id: "db_wf d \<Longrightarrow> qEvents (tSeqs d) + 1 \<notin> event_ids d"
  by (auto simp: db_wf_def events_wf_def keyed_def event_ids_def)

lemma event_added_draws:
  assumes "event_added d d'" "db_wf d" "draws_inv d"
  shows "draws_inv d'"
proof -
  obtain e where e: "tEvents d' = tEvents d @ [e]" "eID e = qEvents (tSeqs d) + 1" "eStatus e = EventStatusOpen"
    and same: "tBookings d' = tBookings d" "tDraws d' = tDraws d" "tSeals d' = tSeals d"
    using assms(1) by (auto simp: event_added_def)
  have new: "eID e \<notin> event_ids d" using fresh_event_id[OF assms(2)] by (simp add: e(2))
  note sel = select_event_snoc[OF new e(1)]
  show ?thesis
  proof (rule draws_invI[OF assms(3), of "eID e"])
    fix j assume "j \<noteq> eID e"
    then show "untouched j d d'"
      by (simp add: untouched_def sel same event_draws_def event_bookings_def select_seal_def)
  qed (use fresh_event[OF assms(2) new] e(3) sel same in \<open>auto simp: event_draws_def event_draw_ok_def\<close>)
qed

lemma set_status_other: "select_event d j = Some e \<Longrightarrow> j \<noteq> eid \<Longrightarrow> set_status now eid st e = e"
  by (drule select_event_SomeD) (simp add: set_status_def)

lemma select_set_status_other:
  assumes "tEvents d' = map (set_status now eid st) (tEvents d)" and "j \<noteq> eid"
  shows "select_event (d' :: db) j = select_event d j"
proof -
  have "select_event d' j = map_option (set_status now eid st) (select_event d j)"
    using assms(1) select_event_set_status[of now eid st d j] by (simp add: select_event_def)
  then show ?thesis using set_status_other[OF _ assms(2)] by (cases "select_event d j") auto
qed

lemma status_change_draws:
  assumes "status_change now eid a b d d'" "b \<noteq> EventStatusDrawn" "draws_inv d"
  shows "draws_inv d'"
proof -
  obtain e where e: "select_event d eid = Some e" "eStatus e = a" "status_edge a b"
    and d': "d' = d\<lparr>tEvents := map (set_status now eid b) (tEvents d)\<rparr>"
    using assms(1) by (auto simp: status_change_def)
  have nd: "eStatus e \<noteq> EventStatusDrawn" using e(2,3) by auto
  show ?thesis
  proof (rule draws_invI[OF assms(3), of eid])
    fix j assume "j \<noteq> eid"
    then have "select_event d' j = select_event d j"
      by (intro select_set_status_other[of d' now eid b]) (simp_all add: d')
    then show "untouched j d d'"
      by (simp add: untouched_def d' event_draws_def event_bookings_def select_seal_def)
  next
    fix e' assume "select_event d' eid = Some e'"
    with status_change_select(1)[OF assms(1)] have "eStatus e' = b" by auto
    with assms(2) undrawn[OF assms(3) e(1) nd] show "event_draw_ok d' eid e'"
      by (simp add: d' event_draws_def event_draw_ok_def)
  qed
qed

lemma booking_outcome_draws:
  assumes "booking_outcome now eid uid d d'" "draws_inv d"
  shows "draws_inv d'"
proof -
  obtain e where e: "select_event d eid = Some e" "eStatus e = EventStatusOpen"
    using assms(1) by (auto simp: booking_outcome_def)
  note B = booking_outcome_count[OF assms(1)]
  have sel: "select_event d' = select_event d" using B(2) by (simp add: select_event_def fun_eq_iff)
  show ?thesis
  proof (rule draws_invI[OF assms(2), of eid])
    fix j assume "j \<noteq> eid"
    then show "untouched j d d'"
      using B(7) by (simp add: untouched_def sel B event_draws_def select_seal_def)
  qed (use undrawn[OF assms(2) e(1)] e sel B(4,5) in \<open>auto simp: event_draws_def event_draw_ok_def\<close>)
qed

lemma draw_outcome_reads:
  assumes "draw_outcome env eid d res d'"
  shows "event_draws d' eid = event_draws d eid @ rWinners res @ rWaitlist res"
    and "event_bookings d' = event_bookings d" "tUsers d' = tUsers d"
    and "j \<noteq> eid \<Longrightarrow> untouched j d d'"
    and "mset (map dWinnerUserID (rWinners res @ rWaitlist res)) = mset (map bUserID (event_bookings d eid))"
    and "event_bookings d eid \<noteq> []"
    and "\<exists>e. select_event d eid = Some e \<and> eStatus e = EventStatusClosed
      \<and> select_event d' eid = Some (set_status (txNow env) eid EventStatusDrawn e)"
proof -
  from assms obtain e ws wl s q where o: "select_event d eid = Some e" "eStatus e = EventStatusClosed"
    "SelectWinners (participants_of (deTie env) eid d) (eWinnerCount e) (deEntropy env) = Inr (ws, wl, s)"
    and rows: "ranked_rows eid (int (length (participants_of (deTie env) eid d))) (rDrawnAt res) 0 (ws @ wl)
       (rWinners res @ rWaitlist res)"
    and d': "d' = d\<lparr>tSeqs := q, tDraws := tDraws d @ rWinners res @ rWaitlist res,
       tSeals := tSeals d @ [\<lparr>sEventID = eid, sDigest = rDigest res, sAlgorithm = sealAlgorithm,
         sSealedAt = rDrawnAt res\<rparr>],
       tEvents := map (set_status (txNow env) eid EventStatusDrawn) (tEvents d)\<rparr>"
    by (rule draw_outcomeE) blast
  have mine: "\<forall>r \<in> set (rWinners res @ rWaitlist res). dEventID r = eid"
    using ranked_rows_set[OF rows] by blast
  then show "event_draws d' eid = event_draws d eid @ rWinners res @ rWaitlist res"
    by (simp add: d' event_draws_def)
  show "event_bookings d' = event_bookings d" "tUsers d' = tUsers d"
    by (simp_all add: d' event_bookings_def fun_eq_iff)
  show "untouched j d d'" if "j \<noteq> eid"
  proof -
    have "select_event d' j = select_event d j"
      by (rule select_set_status_other[of d' "txNow env" eid EventStatusDrawn, OF _ that]) (simp add: d')
    moreover have "event_draws d' j = event_draws d j" using mine that by (auto simp: d' event_draws_def filter_empty_conv)
    ultimately show ?thesis
      using that by (simp add: untouched_def d' event_bookings_def select_seal_def find_append split: option.splits)
  qed
  show "mset (map dWinnerUserID (rWinners res @ rWaitlist res)) = mset (map bUserID (event_bookings d eid))"
    unfolding ranked_rows_users[OF rows] using SelectWinners_correct(1)[OF o(3)] event_bookings_order[of "deTie env" eid d] by simp
  show "event_bookings d eid \<noteq> []"
  proof
    assume "event_bookings d eid = []"
    then have "participants_of (deTie env) eid d = []" using event_bookings_order[of "deTie env" eid d] by simp
    with o(3) show False by (simp add: SelectWinners_def)
  qed
  show "\<exists>e. select_event d eid = Some e \<and> eStatus e = EventStatusClosed
      \<and> select_event d' eid = Some (set_status (txNow env) eid EventStatusDrawn e)"
    using o(1,2) select_event_set_status[of "txNow env" eid EventStatusDrawn d eid] by (simp add: d' select_event_def)
qed

lemma draw_outcome_draws:
  assumes "draw_outcome env eid d res d'" "draws_inv d"
  shows "draws_inv d'"
proof -
  note R = draw_outcome_reads[OF assms(1)]
  obtain e where e: "select_event d eid = Some e" "eStatus e = EventStatusClosed"
    "select_event d' eid = Some (set_status (txNow env) eid EventStatusDrawn e)"
    using R(7) by blast
  have none: "event_draws d eid = []" using undrawn[OF assms(2) e(1)] e(2) by simp
  have "rIntegrity res = IntegrityVerified" using assms(1) by (rule draw_outcomeE)
  with GetResults_roundtrip[OF assms(1) none]
  have "\<exists>res. (\<forall>tie. GetResults no_faults tie eid d' = Inr res) \<and> rIntegrity res = IntegrityVerified" by blast
  moreover have "eID e = eid" using select_event_SomeD[OF e(1)] by simp
  ultimately have "event_draw_ok d' eid (set_status (txNow env) eid EventStatusDrawn e)"
    using R(5,6) by (simp add: event_draw_ok_def R(1,2) none)
  then show ?thesis
    by (intro draws_invI[OF assms(2) R(4)]) (auto simp: e(3))
qed

lemma op_effect_draws:
  assumes "op_effect d d'" "db_wf d" "draws_inv d"
  shows "draws_inv d'"
  using assms(1) unfolding op_effect_def
proof (elim disjE exE conjE, goal_cases)
  case 1
  then show ?case
    using assms(3) same_tables_fields[OF 1] by (blast intro: draws_inv_all_untouched untouched_tables)
next
  case 2
  then show ?case
    using assms(3) by (intro draws_inv_all_untouched[OF assms(3)] untouched_tables) (simp_all add: users_change_def)
next
  case 3
  then show ?case by (rule event_added_draws[OF _ assms(2,3)])
next
  case (4 now eid a b)
  then show ?case by (intro status_change_draws[OF 4(1) _ assms(3)]) auto
next
  case (5 now eid uid)
  then show ?case by (rule booking_outcome_draws[OF _ assms(3)])
next
  case (6 env eid res)
  then show ?case by (rule draw_outcome_draws[OF _ assms(3)])
qed

lemma capacity_ok_same:
  assumes "tBookings d' = tBookings d" and "map (\<lambda>e. (eID e, eCapacity e)) (tEvents d') = map (\<lambda>e. (eID e, eCapacity e)) (tEvents d)"
  shows "capacity_ok (d' :: db) = capacity_ok d"
proof -
  have count: "count_bookings d' = count_bookings d"
    using assms(1) by (simp add: count_bookings_def event_bookings_def fun_eq_iff)
  have "capacity_ok x \<longleftrightarrow> (\<forall>(i, c) \<in> set (map (\<lambda>e. (eID e, eCapacity e)) (tEvents x)). count_bookings x i \<le> c)" for x
    by (auto simp: capacity_ok_def)
  then show ?thesis by (simp only: assms(2) count)
qed

lemma op_effect_capacity:
  assumes "op_effect d d'" "db_wf d" "capacity_ok d"
  shows "capacity_ok d'"
  using assms(1) unfolding op_effect_def
proof (elim disjE exE conjE, goal_cases)
  case 1
  then show ?case using assms(3) same_tables_capacity by blast
next
  case 2
  then have "tBookings d' = tBookings d" "tEvents d' = tEvents d" by (simp_all add: users_change_def)
  then show ?case using assms(3) capacity_ok_same[of d' d] by simp
next
  case 3
  then obtain e where e: "tEvents d' = tEvents d @ [e]" "eID e = qEvents (tSeqs d) + 1"
    "0 < eWinnerCount e" "eWinnerCount e \<le> eCapacity e" "tBookings d' = tBookings d"
    by (auto simp: event_added_def)
  have "event_bookings d (eID e) = []"
    using fresh_event(2)[OF assms(2) fresh_event_id[OF assms(2)]] by (simp add: e(2))
  moreover have "count_bookings d' i = count_bookings d i" for i by (simp add: count_bookings_def event_bookings_def e(5))
  ultimately show ?case
    using assms(3) e(1,3,4) by (auto simp: capacity_ok_def count_bookings_def)
next
  case (4 now eid a b)
  then have "capacity_ok d' = capacity_ok d"
    by (intro capacity_ok_same) (auto simp: status_change_def)
  then show ?case using assms(3) by simp
next
  case (5 now eid uid)
  then show ?case using booking_outcome_capacity assms(2,3) by blast
next
  case (6 env eid res)
  then have "capacity_ok d' = capacity_ok d"
    by (intro capacity_ok_same) (elim draw_outcomeE; simp)+
  then show ?case using assms(3) by simp
qed

lemma stmt_run_wf: "m d = (res, d') \<Longrightarrow> stmt_ok m \<Longrightarrow> db_wf d \<Longrightarrow> db_wf d'"
  unfolding stmt_ok_def by (metis snd_conv)

lemma op_step_wf:
  assumes "op_step lib d d'" and "db_wf d"
  shows "db_wf d'"
proof -
  from assms(1) show ?thesis
  proof (cases rule: op_step.cases)
    case (close tenv eid res)
    then have "snd (with_tx tenv (wrap ''begin tx'') (wrap ''commit'') (Close_body tenv eid) d) = d'"
      using then_reload_tx[of tenv eid "Close_body tenv eid" d] by (simp add: event_Close_def)
    then show ?thesis using close_tx.with_tx_wf assms(2) by (metis prod.collapse)
  next
    case (cancel tenv eid res)
    then have "snd (with_tx tenv (wrap ''begin tx'') (wrap ''commit'') (Cancel_body tenv eid) d) = d'"
      using then_reload_tx[of tenv eid "Cancel_body tenv eid" d] by (simp add: event_Cancel_def)
    then show ?thesis using cancel_tx.with_tx_wf assms(2) by (metis prod.collapse)
  next
    case (book tenv eid uid res)
    show ?thesis by (rule createBooking_wf[OF book assms(2)])
  next
    case (draw denv eid res)
    show ?thesis by (rule RunDraw_wf[OF draw assms(2)])
  qed (erule stmt_run_wf, simp, rule assms(2))+
qed

lemma sys_inv_step: "op_step lib d d' \<Longrightarrow> sys_inv d \<Longrightarrow> sys_inv d'"
  using op_step_wf op_step_effect op_effect_capacity op_effect_draws unfolding sys_inv_def by blast

lemma sys_inv_empty: "sys_inv empty_db"
  by (simp add: sys_inv_def capacity_ok_def draws_inv_def empty_db_def select_event_def
      db_wf_def table_wf_defs keyed_def)

section \<open>The operations implement the specification\<close>

lemma spec_of_same:
  assumes "\<And>j. map_option uRole (select_user d' j) = map_option uRole (select_user d j)"
    and "\<And>j. untouched j d d'"
  shows "spec_of d' = spec_of d"
proof -
  have "map_option (spec_event_of d') (select_event d' j) = map_option (spec_event_of d) (select_event d j)" for j
    using assms(2)[of j] select_event_SomeD[of d j]
    by (cases "select_event d j") (auto simp: untouched_def spec_event_of_def)
  then show ?thesis using assms(1) by (simp add: spec_of_def)
qed

lemma spec_of_event:
  assumes "\<And>j. j \<noteq> i \<Longrightarrow> untouched j d d'" and "tUsers d' = tUsers d" and "select_event d' i = Some e"
  shows "spec_of d' = set_event i (spec_event_of d' e) (spec_of d)"
proof -
  have "map_option (spec_event_of d') (select_event d' j) =
      ((\<lambda>j. map_option (spec_event_of d) (select_event d j))(i \<mapsto> spec_event_of d' e)) j" for j
    using assms(1)[of j] assms(3) select_event_SomeD[of d j]
    by (cases "j = i"; cases "select_event d j") (auto simp: untouched_def spec_event_of_def)
  moreover have "select_user d' = select_user d" using assms(2) by (simp add: select_user_def fun_eq_iff)
  ultimately show ?thesis by (simp add: spec_of_def set_event_def fun_eq_iff)
qed

lemma spec_of_lookup: "select_event d i = Some e \<Longrightarrow> xEvents (spec_of d) i = Some (spec_event_of d e)"
  by (simp add: spec_of_def)

lemma users_change_sim:
  assumes "users_change d d'"
  shows "spec_step (spec_of d) (spec_of d')"
proof -
  have same: "tEvents d' = tEvents d" "tBookings d' = tBookings d" "tDraws d' = tDraws d"
    using assms by (simp_all add: users_change_def)
  then have ev: "xEvents (spec_of d') = xEvents (spec_of d)"
    by (simp add: spec_of_def fun_eq_iff select_event_def spec_event_of_def[abs_def] event_bookings_def event_draws_def)
  have step: "spec_of d' = (spec_of d)\<lparr>xRoles := (xRoles (spec_of d))(i \<mapsto> role)\<rparr>"
    if "\<forall>j. map_option uRole (select_user d' j) = (if j = i then Some role else map_option uRole (select_user d j))" for i role
    using that ev by (auto simp: spec_of_def fun_eq_iff)
  from assms obtain i where
    "(\<exists>role \<in> {''user'', ''admin''}. select_user d i = None \<and>
        (\<forall>j. map_option uRole (select_user d' j) = (if j = i then Some role else map_option uRole (select_user d j)))) \<or>
     (select_user d i \<noteq> None \<and>
        (\<forall>j. map_option uRole (select_user d' j) = (if j = i then Some ''admin'' else map_option uRole (select_user d j))))"
    unfolding users_change_def by blast
  then show ?thesis
  proof (elim disjE bexE conjE)
    fix role assume "role \<in> {''user'', ''admin''}" "select_user d i = None"
      and roles: "\<forall>j. map_option uRole (select_user d' j) = (if j = i then Some role else map_option uRole (select_user d j))"
    then show ?thesis unfolding step[OF roles] by (intro spec_step.join_user) (simp_all add: spec_of_def)
  next
    assume "select_user d i \<noteq> None"
      and roles: "\<forall>j. map_option uRole (select_user d' j) = (if j = i then Some ''admin'' else map_option uRole (select_user d j))"
    then show ?thesis unfolding step[OF roles] by (intro spec_step.make_admin) (simp_all add: spec_of_def)
  qed
qed

lemma event_added_sim:
  assumes "event_added d d'" "db_wf d"
  shows "spec_step (spec_of d) (spec_of d')"
proof -
  obtain e where e: "tEvents d' = tEvents d @ [e]" "eID e = qEvents (tSeqs d) + 1" "eStatus e = EventStatusOpen"
    "0 < eWinnerCount e" "eWinnerCount e \<le> eCapacity e" and us: "tUsers d' = tUsers d"
    and same: "tBookings d' = tBookings d" "tDraws d' = tDraws d" "tSeals d' = tSeals d"
    using assms(1) by (auto simp: event_added_def)
  have new: "eID e \<notin> event_ids d" using fresh_event_id[OF assms(2)] by (simp add: e(2))
  note sel = select_event_snoc[OF new e(1)]
  have "spec_of d' = set_event (eID e) (spec_event_of d' e) (spec_of d)"
    by (rule spec_of_event[OF _ us]) (simp_all add: sel untouched_def same event_draws_def event_bookings_def select_seal_def)
  moreover have "spec_event_of d' e =
      \<lparr>xStatus = EventStatusOpen, xCapacity = eCapacity e, xWinnerCount = eWinnerCount e, xEntrants = [], xOutcome = []\<rparr>"
    using fresh_event(1,2)[OF assms(2) new] e(3) same by (simp add: spec_event_of_def event_bookings_def event_draws_def)
  moreover have "xEvents (spec_of d) (eID e) = None" using new by (simp add: spec_of_def)
  ultimately show ?thesis using spec_step.create[of "spec_of d" "eID e" "eWinnerCount e" "eCapacity e"] e(4,5) by simp
qed

lemma status_change_sim:
  assumes "status_change now eid a b d d'" "b \<in> {EventStatusClosed, EventStatusCancelled}"
  shows "spec_step (spec_of d) (spec_of d')"
proof -
  obtain e where e: "select_event d eid = Some e" "eStatus e = a" "status_edge a b"
    and d': "d' = d\<lparr>tEvents := map (set_status now eid b) (tEvents d)\<rparr>"
    using assms(1) by (auto simp: status_change_def)
  have id: "eID e = eid" using select_event_SomeD[OF e(1)] by simp
  have sel: "select_event d' eid = Some (set_status now eid b e)"
    using e(1) select_event_set_status[of now eid b d eid] by (simp add: d')
  have "untouched j d d'" if "j \<noteq> eid" for j
    using select_set_status_other[of d' now eid b d j] that
    by (simp add: untouched_def d' event_draws_def event_bookings_def select_seal_def)
  then have "spec_of d' = set_event eid (spec_event_of d' (set_status now eid b e)) (spec_of d)"
    by (rule spec_of_event[OF _ _ sel]) (simp_all add: d')
  moreover have "spec_event_of d' (set_status now eid b e) = (spec_event_of d e)\<lparr>xStatus := b\<rparr>"
    by (simp add: spec_event_of_def d' id event_bookings_def event_draws_def)
  moreover have "a = EventStatusOpen \<or> (a = EventStatusClosed \<and> b = EventStatusCancelled)"
    using e(3) assms(2) by (auto simp: status_edge_def)
  ultimately show ?thesis
    using assms(2) e(2) spec_of_lookup[OF e(1)]
      spec_step.close[of "spec_of d" eid "spec_event_of d e"] spec_step.cancel[of "spec_of d" eid "spec_event_of d e"]
    by (auto simp: spec_event_of_def)
qed

lemma booking_outcome_sim:
  assumes "booking_outcome now eid uid d d'"
  shows "spec_step (spec_of d) (spec_of d')"
proof -
  obtain e where e: "select_event d eid = Some e" "eStatus e = EventStatusOpen" "count_bookings d eid < eCapacity e"
    "\<not> exists_booking d eid uid" and ins: "insert_booking now eid uid d = (Inr (), d')"
    using assms by (auto simp: booking_outcome_def)
  note B = booking_outcome_count[OF assms]
  have id: "eID e = eid" using select_event_SomeD[OF e(1)] by simp
  have sel: "select_event d' = select_event d" using B(2) by (simp add: select_event_def fun_eq_iff)
  have "untouched j d d'" if "j \<noteq> eid" for j
    using B(7)[OF that] by (simp add: untouched_def sel B event_draws_def select_seal_def)
  then have "spec_of d' = set_event eid (spec_event_of d' e) (spec_of d)"
    by (rule spec_of_event[OF _ B(3)]) (simp_all add: sel e(1))
  moreover have "spec_event_of d' e = (spec_event_of d e)\<lparr>xEntrants := xEntrants (spec_event_of d e) @ [uid]\<rparr>"
    using B(4,6) by (simp add: spec_event_of_def id event_draws_def)
  moreover have "uid \<notin> set (xEntrants (spec_event_of d e))"
    using e(4) by (auto simp: spec_event_of_def id exists_booking_def event_bookings_def list_ex_iff)
  moreover have "xRoles (spec_of d) uid \<noteq> None"
    using insert_booking_done(3)[OF ins] by (simp add: spec_of_def)
  moreover have "int (length (xEntrants (spec_event_of d e))) < xCapacity (spec_event_of d e)"
    "xStatus (spec_event_of d e) = EventStatusOpen"
    using e(2,3) by (simp_all add: spec_event_of_def id count_bookings_def)
  ultimately show ?thesis using spec_step.book[OF spec_of_lookup[OF e(1)]] by simp
qed

lemma draw_outcome_sim:
  assumes "draw_outcome env eid d res d'" "draws_inv d"
  shows "spec_step (spec_of d) (spec_of d')"
proof -
  note R = draw_outcome_reads[OF assms(1)]
  obtain e where e: "select_event d eid = Some e" "eStatus e = EventStatusClosed"
    and sel: "select_event d' eid = Some (set_status (txNow env) eid EventStatusDrawn e)"
    using R(7) by blast
  have id: "eID e = eid" using select_event_SomeD[OF e(1)] by simp
  have none: "event_draws d eid = []" using undrawn[OF assms(2) e(1)] e(2) by simp
  let ?out = "map dWinnerUserID (rWinners res @ rWaitlist res)"
  have "spec_of d' = set_event eid (spec_event_of d' (set_status (txNow env) eid EventStatusDrawn e)) (spec_of d)"
    by (rule spec_of_event[OF R(4) R(3) sel])
  moreover have "spec_event_of d' (set_status (txNow env) eid EventStatusDrawn e)
      = (spec_event_of d e)\<lparr>xStatus := EventStatusDrawn, xOutcome := ?out\<rparr>"
    by (simp add: spec_event_of_def id R(1,2) none)
  moreover have "mset ?out = mset (xEntrants (spec_event_of d e))" "xEntrants (spec_event_of d e) \<noteq> []"
    "xStatus (spec_event_of d e) = EventStatusClosed"
    using R(5,6) e(2) by (simp_all add: spec_event_of_def id)
  ultimately show ?thesis using spec_step.draw[OF spec_of_lookup[OF e(1)]] by simp
qed

lemma op_effect_sim:
  assumes "op_effect d d'" "db_wf d" "draws_inv d"
  shows "spec_of d' = spec_of d \<or> spec_step (spec_of d) (spec_of d')"
  using assms(1) unfolding op_effect_def
proof (elim disjE exE conjE, goal_cases)
  case 1
  have "select_user d' = select_user d" using same_tables_fields[OF 1] by (simp add: select_user_def fun_eq_iff)
  then have "spec_of d' = spec_of d"
    using same_tables_fields[OF 1] by (intro spec_of_same untouched_tables) simp_all
  then show ?case ..
qed (blast intro: users_change_sim event_added_sim[OF _ assms(2)] status_change_sim booking_outcome_sim
      draw_outcome_sim[OF _ assms(3)])+

interpretation ops: simulation op_init "op_step lib" sys_inv spec_init spec_step spec_of for lib
proof unfold_locales
  show "op_init d \<Longrightarrow> sys_inv d" for d by (simp add: op_init_def sys_inv_empty)
  show "op_step lib d d' \<Longrightarrow> sys_inv d \<Longrightarrow> sys_inv d'" for d d' by (rule sys_inv_step)
  show "op_init d \<Longrightarrow> spec_init (spec_of d)" for d
    by (simp add: op_init_def spec_init_def spec_of_def empty_db_def select_user_def select_event_def fun_eq_iff)
  show "op_step lib d d' \<Longrightarrow> sys_inv d \<Longrightarrow> spec_of d' = spec_of d \<or> spec_step (spec_of d) (spec_of d')" for d d'
    unfolding sys_inv_def by (intro op_effect_sim op_step_effect) auto
qed

section \<open>What every reachable state satisfies\<close>

lemma drawn_untouched:
  assumes "op_effect d d'" and "select_event d i = Some e" and "eStatus e = EventStatusDrawn"
    and "db_wf d"
  shows "untouched i d d'"
  using assms(1) unfolding op_effect_def
proof (elim disjE exE conjE, goal_cases)
  case 1
  then show ?case by (intro untouched_tables) (simp_all add: same_tables_fields)
next
  case 2
  then show ?case by (intro untouched_tables) (simp_all add: users_change_def)
next
  case 3
  then obtain x where x: "tEvents d' = tEvents d @ [x]" "eID x = qEvents (tSeqs d) + 1"
    and same: "tBookings d' = tBookings d" "tDraws d' = tDraws d" "tSeals d' = tSeals d"
    by (auto simp: event_added_def)
  have new: "eID x \<notin> event_ids d" using fresh_event_id[OF assms(4)] by (simp add: x(2))
  then have "i \<noteq> eID x" using assms(2) select_missing(1)[OF new] by auto
  then show ?case
    by (simp add: untouched_def select_event_snoc[OF new x(1)] same event_draws_def event_bookings_def select_seal_def)
next
  case (4 now eid a b)
  then obtain x where x: "select_event d eid = Some x" "eStatus x = a" "status_edge a b"
    and d': "d' = d\<lparr>tEvents := map (set_status now eid b) (tEvents d)\<rparr>"
    by (auto simp: status_change_def)
  then have "i \<noteq> eid" using assms(2,3) by auto
  then show ?case
    using select_set_status_other[of d' now eid b d i]
    by (simp add: untouched_def d' event_draws_def event_bookings_def select_seal_def)
next
  case (5 now eid uid)
  note B = booking_outcome_count[OF 5]
  have "i \<noteq> eid" using 5 assms(2,3) by (auto simp: booking_outcome_def)
  then show ?case
    using B(7) by (simp add: untouched_def select_event_def B event_draws_def select_seal_def)
next
  case (6 env eid res)
  have "i \<noteq> eid" using draw_outcome_reads(7)[OF 6] assms(2,3) by auto
  then show ?case by (rule draw_outcome_reads(4)[OF 6])
qed

lemma drawn_final_star:
  assumes "(op_step lib)\<^sup>*\<^sup>* d d'" and "sys_inv d" and "select_event d i = Some e" and "eStatus e = EventStatusDrawn"
  shows "untouched i d d'"
  using assms(1)
proof (induction rule: rtranclp_induct)
  case base
  then show ?case by (simp add: untouched_def)
next
  case (step y z)
  have "sys_inv y" using ops.star_inv[OF step.hyps(1) assms(2)] .
  moreover from step.IH assms(3) have "select_event y i = Some e" by (simp add: untouched_def)
  ultimately have "untouched i y z"
    using drawn_untouched[OF op_step_effect[OF step.hyps(2)]] assms(4) by (simp add: sys_inv_def)
  with step.IH show ?case by (simp add: untouched_def)
qed

text \<open>
  C4. The services implement the specification: in every state the program can reach from the
  empty database, whatever has failed on the way, the next operation of any service either
  changes nothing the specification can see or takes one of its steps.
\<close>

theorem operations_refine_spec:
  assumes "reachable_by op_init (op_step lib) d" and "op_step lib d d'"
  shows "reachable_by spec_init spec_step (spec_of d)
    \<and> (spec_of d' = spec_of d \<or> spec_step (spec_of d) (spec_of d'))"
  using ops.reachable_abs[OF assms(1)] ops.sim_step[OF assms(2) ops.reachable_inv[OF assms(1)]] by simp

text \<open>
  C8. In every reachable state, every event keeps its promise: no more entrants than its capacity and
  no entrant twice; an event that has not been drawn has no draw rows and no seal; a drawn one
  has every entrant ranked exactly once, and the results endpoint reports it as verified.
\<close>

theorem reachable_events_sound:
  assumes "reachable_by op_init (op_step lib) d" and "select_event d i = Some e"
  shows "count_bookings d i \<le> eCapacity e \<and> distinct (map bUserID (event_bookings d i))
    \<and> (eStatus e \<noteq> EventStatusDrawn \<longrightarrow> event_draws d i = [] \<and> select_seal d i = None)
    \<and> (eStatus e = EventStatusDrawn \<longrightarrow>
        (\<exists>res. (\<forall>tie. GetResults no_faults tie i d = Inr res) \<and> rIntegrity res = IntegrityVerified)
        \<and> mset (map dWinnerUserID (event_draws d i)) = mset (map bUserID (event_bookings d i)))"
proof -
  have inv: "sys_inv d" using assms(1) by (rule ops.reachable_inv)
  have id: "eID e = i" using select_event_SomeD[OF assms(2)] by simp
  have "spec_inv (spec_of d)"
    using ops.reachable_abs[OF assms(1)] by (rule spec_sys.reachable_inv)
  then have ok: "spec_event_ok (spec_of d) (spec_event_of d e)"
    using spec_of_lookup[OF assms(2)] by (rule spec_invD)
  then have "count_bookings d i \<le> eCapacity e" "distinct (map bUserID (event_bookings d i))"
    by (simp_all add: spec_event_ok_def spec_event_of_def id count_bookings_def)
  moreover have "event_draw_ok d i e" using inv draws_invD[OF _ assms(2)] by (simp add: sys_inv_def)
  ultimately show ?thesis by (auto simp: event_draw_ok_def split: if_splits)
qed

text \<open>
  C14. A draw is final: once an event is drawn, no sequence of operations changes its row, its
  bookings, its draw rows, its seal, or what the results endpoint answers.
\<close>

theorem drawn_is_final:
  assumes "reachable_by op_init (op_step lib) d" and "(op_step lib)\<^sup>*\<^sup>* d d'"
    and "select_event d i = Some e" and "eStatus e = EventStatusDrawn"
  shows "select_event d' i = Some e \<and> event_draws d' i = event_draws d i
    \<and> event_bookings d' i = event_bookings d i \<and> select_seal d' i = select_seal d i
    \<and> GetResults f tie i d' = GetResults f tie i d"
proof -
  have u: "untouched i d d'"
    using drawn_final_star[OF assms(2) ops.reachable_inv[OF assms(1)] assms(3,4)] .
  then have "GetResults f tie i d' = GetResults f tie i d" by (intro GetResults_cong) (simp_all add: untouched_def)
  with u assms(3) show ?thesis by (simp add: untouched_def)
qed

text \<open>
  C25. A draw request is decided.  In every reachable state, with a working database: it is refused
  with the first check that fails, a missing event, a drawn, cancelled or open one, a draw that
  is not due, an event without entrants, and changes nothing; or the draw takes place; or, when
  the random source gives out, it fails and changes nothing.
\<close>

theorem RunDraw_decided:
  assumes "reachable_by op_init (op_step lib) d" and "txFault env = no_faults" and "txCommit env = CommitOk"
  shows "case draw_refusal env eid d of
      Some err \<Rightarrow> RunDraw env eid d = (Inl err, d)
    | None \<Rightarrow> \<exists>e. select_event d eid = Some e \<and>
        (case SelectWinners (participants_of (deTie env) eid d) (eWinnerCount e) (deEntropy env) of
           Inl err \<Rightarrow> RunDraw env eid d = (Inl (wrap ''lottery selection'' err), d)
         | Inr _ \<Rightarrow> \<exists>res d'. RunDraw env eid d = (Inr res, d'))"
proof (cases "draw_refusal env eid d")
  case None
  then obtain e where e: "select_event d eid = Some e" "eStatus e = EventStatusClosed"
    by (auto simp: draw_refusal_def split: option.splits if_splits)
  have inv: "sys_inv d" using assms(1) by (rule ops.reachable_inv)
  then have fresh: "event_draws d eid = []" "eid \<notin> sEventID ` set (tSeals d)"
    using undrawn[OF _ e(1)] e(2) by (auto simp: sys_inv_def)
  have "count_bookings d eid \<le> eCapacity e" "eCapacity e \<le> max_int32"
    using inv select_event_SomeD[OF e(1)]
    by (auto simp: sys_inv_def capacity_ok_def db_wf_def events_wf_def event_row_wf_def is_int32_def)
  then have small: "count_bookings d eid \<le> max_int32" by simp
  show ?thesis
  proof (cases "SelectWinners (participants_of (deTie env) eid d) (eWinnerCount e) (deEntropy env)")
    case (Inl err)
    with RunDraw_no_entropy[OF assms(2) None e(1)] None e(1) show ?thesis by simp
  next
    case (Inr x)
    have "\<exists>res d'. RunDraw env eid d = (Inr res, d')"
      using RunDraw_succeeds[OF _ assms(2,3) None fresh small] inv Inr e(1) by (cases x) (auto simp: sys_inv_def)
    with None Inr e(1) show ?thesis by simp
  qed
next
  case (Some err)
  with RunDraw_refused[OF assms(2) Some] show ?thesis by simp
qed

section \<open>An example run\<close>

text \<open>A user registers, an event is created for one entrant, booked, closed and drawn.\<close>

definition run_user :: User where
  "run_user = \<lparr>uID = 1, uEmail = ''ann@x.org'', uFullName = ''Ann'', uRole = ''user'',
     uPasswordHash = ''hcorrect horse'', uCreatedAt = 1000, uUpdatedAt = 1000\<rparr>"

definition run_event :: "string \<Rightarrow> instant \<Rightarrow> event_row" where
  "run_event st t = \<lparr>eID = 1, eTitle = ''Launch'', eDescription = ''party'', eCapacity = 1, eDrawAt = 5000, eStatus = st,
     eWinnerCount = 1, eCreatedBy = 1, eCreatedAt = 4000, eUpdatedAt = t\<rparr>"

definition run_db :: "event_row list \<Rightarrow> Booking list \<Rightarrow> db" where
  "run_db es bs = \<lparr>tUsers = [run_user], tEvents = es, tBookings = bs, tDraws = [], tSeals = [],
     tSeqs = \<lparr>qUsers = 1, qEvents = int (length es), qBookings = int (length bs), qDraws = 0\<rparr>\<rparr>"

definition run_booking :: Booking where
  "run_booking = \<lparr>bID = 1, bEventID = 1, bUserID = 1, bBookedAt = 2000\<rparr>"

lemmas run_defs = run_db_def run_user_def run_event_def run_booking_def

lemma run_reads [simp]:
  "select_event (run_db [run_event st t] bs) 1 = Some (run_event st t)"
  "select_user (run_db es bs) 1 = Some run_user" "user_ids (run_db es bs) = {1}"
  "event_ids (run_db [run_event st t] bs) = {1}"
  "eStatus (run_event st t) = st" "eCapacity (run_event st t) = 1" "eWinnerCount (run_event st t) = 1"
  "eDrawAt (run_event st t) = 5000"
  by (simp_all add: run_defs select_event_def select_user_def user_ids_def event_ids_def)

lemma run_register: "\<exists>res. Register demo_auth demo_auth_env (demo_registration ''correct horse'') empty_db = (res, run_db [] [])"
proof -
  have "alGenerate demo_auth s ''correct horse'' c = Inr ''hcorrect horse''" for s c
    by (simp add: demo_auth_def)
  moreover have "text_ok ''ann@x.org''" "text_ok ''hcorrect horse''" "text_ok ''Ann''"
    by (simp_all add: text_ok_def)
  ultimately show ?thesis
    using demo_valid[of "''correct horse''"]
    by (simp add: Register_def stmt_prims demo_auth_env_def insert_user_def Let_def demo_registration_def empty_db_def run_defs)
qed

lemma run_create:
  "\<exists>res. event_Create 0 demo_create (demo_request 1 1) 1 (run_db [] []) = (res, run_db [run_event EventStatusOpen 4000] [])"
proof -
  have "text_ok ''Launch''" "text_ok ''party''" by (simp_all add: text_ok_def)
  moreover have "Truncate_us 5000 = 5000" by (simp add: Truncate_us_def)
  moreover have "1 \<in> user_ids (run_db [] [])" by simp
  ultimately show ?thesis
    using demo_validate[of 1 1]
    by (simp add: event_Create_def stmt_prims insert_event_def Let_def is_int32_def demo_request_def demo_create_def)
      (simp add: run_defs)
qed

lemma run_book:
  "createBooking demo_tx 1 1 (run_db [run_event EventStatusOpen 4000] []) = (Inr (), run_db [run_event EventStatusOpen 4000] [run_booking])"
proof -
  let ?d = "run_db [run_event EventStatusOpen 4000] []"
  have "\<not> exists_booking ?d 1 1" "count_bookings ?d 1 = 0"
    by (simp_all add: run_db_def exists_booking_def count_bookings_def event_bookings_def)
  moreover have "insert_booking 2000 1 1 ?d = (Inr (), run_db [run_event EventStatusOpen 4000] [run_booking])"
    using calculation(1) by (simp add: insert_booking_def Let_def) (simp add: run_db_def run_booking_def)
  ultimately show ?thesis
    using createBooking_body_no_faults[of demo_tx ?d 1 _ 1]
    by (simp add: createBooking_def with_tx_def on_error_def)
qed

lemma run_close:
  "\<exists>ev. event_Close demo_reload 1 (run_db [run_event EventStatusOpen 4000] bs)
     = (Inr ev, run_db [run_event EventStatusClosed 2000] bs)"
proof -
  let ?d = "run_db [run_event EventStatusOpen 4000] bs"
  have "update_event_status 2000 1 EventStatusClosed ?d = (Inr (), run_db [run_event EventStatusClosed 2000] bs)"
    by (simp add: update_event_status_def forbid_drawn_event_change_def statuses_def) (simp add: run_db_def run_event_def)
  then show ?thesis
    by (simp add: event_Close_def then_reload_def with_tx_def Close_body_def stmt_bind_def lock_status_found on_error_def
        event_GetByID_def query_def)
qed

definition run_draw_env :: draw_env where
  "run_draw_env = demo_draw\<lparr>txNow := 6000\<rparr>"

lemma run_open_reachable:
  "reachable_by op_init (op_step demo_auth) (run_db [run_event EventStatusOpen 4000] [])"
proof -
  have "reachable_by op_init (op_step demo_auth) empty_db" by (simp add: reachable_init op_init_def)
  then have "reachable_by op_init (op_step demo_auth) (run_db [] [])"
    using run_register by (blast intro: reachable_step op_step.register)
  then show ?thesis using run_create by (blast intro: reachable_step op_step.create)
qed

lemma run_closed_reachable:
  "reachable_by op_init (op_step demo_auth) (run_db [run_event EventStatusClosed 2000] [])"
  "reachable_by op_init (op_step demo_auth) (run_db [run_event EventStatusClosed 2000] [run_booking])"
proof -
  have "reachable_by op_init (op_step demo_auth) (run_db [run_event EventStatusOpen 4000] [run_booking])"
    using run_book by (blast intro: reachable_step[OF run_open_reachable] op_step.book)
  then show "reachable_by op_init (op_step demo_auth) (run_db [run_event EventStatusClosed 2000] [run_booking])"
    using run_close by (blast intro: reachable_step op_step.close)
  show "reachable_by op_init (op_step demo_auth) (run_db [run_event EventStatusClosed 2000] [])"
    using run_close by (blast intro: reachable_step[OF run_open_reachable] op_step.close)
qed

lemma run_draws:
  "\<exists>res d. RunDraw run_draw_env 1 (run_db [run_event EventStatusClosed 2000] [run_booking]) = (Inr res, d)"
proof (rule RunDraw_succeeds)
  let ?d = "run_db [run_event EventStatusClosed 2000] [run_booking]"
  show "db_wf ?d" using ops.reachable_inv[OF run_closed_reachable(2)] by (simp add: sys_inv_def)
  have ps: "participants_of (deTie run_draw_env) 1 ?d = [1]"
    by (simp add: participants_of_def event_bookings_def run_db_def run_booking_def order_by_def)
  show "draw_refusal run_draw_env 1 ?d = None"
    by (simp add: draw_refusal_def run_draw_env_def) (simp add: event_bookings_def run_db_def run_booking_def)
  have "SelectWinners [1] 1 r = Inr ([1], [], r)" for r
    by (simp add: SelectWinners_def FairShuffle_def)
  then show "\<exists>x. SelectWinners (participants_of (deTie run_draw_env) 1 ?d) (eWinnerCount e) (deEntropy run_draw_env) = Inr x"
    if "select_event ?d 1 = Some e" for e
    using that by (auto simp: ps)
qed (simp_all add: run_draw_env_def run_db_def event_draws_def count_bookings_def event_bookings_def run_booking_def)

lemma run_drawn:
  "\<exists>d e. reachable_by op_init (op_step demo_auth) d \<and> select_event d 1 = Some e \<and> eStatus e = EventStatusDrawn
     \<and> event_bookings d 1 = [run_booking]"
proof -
  let ?d = "run_db [run_event EventStatusClosed 2000] [run_booking]"
  obtain res d where run: "RunDraw run_draw_env 1 ?d = (Inr res, d)" using run_draws by blast
  then have "reachable_by op_init (op_step demo_auth) d"
    by (blast intro: reachable_step[OF run_closed_reachable(2)] op_step.draw)
  moreover have "select_event d 1 = Some (set_status (txNow run_draw_env) 1 EventStatusDrawn (run_event EventStatusClosed 2000))"
    using draw_outcome_reads(7)[OF RunDraw_Inr[OF run]] by auto
  moreover have "eStatus (set_status t 1 EventStatusDrawn (run_event EventStatusClosed 2000)) = EventStatusDrawn" for t
    by (simp add: run_event_def)
  moreover have "event_bookings d 1 = [run_booking]"
    using draw_outcome_reads(2)[OF RunDraw_Inr[OF run]] by (simp add: event_bookings_def run_db_def run_booking_def)
  ultimately show ?thesis by blast
qed

theorem operations_refine_spec_witness:
  "spec_step (spec_of empty_db) (spec_of (run_db [] []))"
proof -
  have "reachable_by op_init (op_step demo_auth) empty_db" by (simp add: reachable_init op_init_def)
  moreover have "op_step demo_auth empty_db (run_db [] [])" using run_register by (blast intro: op_step.register)
  ultimately have "spec_of (run_db [] []) = spec_of empty_db \<or> spec_step (spec_of empty_db) (spec_of (run_db [] []))"
    using operations_refine_spec by blast
  moreover have "xRoles (spec_of (run_db [] [])) 1 \<noteq> xRoles (spec_of empty_db) 1"
    by (simp add: spec_of_def) (simp add: empty_db_def select_user_def)
  ultimately show ?thesis by auto
qed

theorem reachable_events_sound_witness:
  "\<exists>d res. reachable_by op_init (op_step demo_auth) d \<and> GetResults no_faults (\<lambda>_. 0) 1 d = Inr res
     \<and> rIntegrity res = IntegrityVerified \<and> map dWinnerUserID (event_draws d 1) = [1]"
proof -
  obtain d e where d: "reachable_by op_init (op_step demo_auth) d" "select_event d 1 = Some e"
    "eStatus e = EventStatusDrawn" "event_bookings d 1 = [run_booking]"
    using run_drawn by blast
  from reachable_events_sound[OF d(1,2)] d(3,4) have
    "mset (map dWinnerUserID (event_draws d 1)) = mset [1]"
    and "\<exists>res. (\<forall>tie. GetResults no_faults tie 1 d = Inr res) \<and> rIntegrity res = IntegrityVerified"
    by (simp_all add: run_booking_def)
  with d(1) show ?thesis by (metis mset_single_iff_right mset.simps)
qed

theorem RunDraw_decided_witness:
  "RunDraw run_draw_env 1 (run_db [run_event EventStatusClosed 2000] [])
     = (Inl ErrNoParticipants, run_db [run_event EventStatusClosed 2000] [])
   \<and> (\<exists>res d'. RunDraw run_draw_env 1 (run_db [run_event EventStatusClosed 2000] [run_booking]) = (Inr res, d'))"
proof -
  have env: "txFault run_draw_env = no_faults" "txCommit run_draw_env = CommitOk" by (simp_all add: run_draw_env_def)
  have "draw_refusal run_draw_env 1 (run_db [run_event EventStatusClosed 2000] []) = Some ErrNoParticipants"
    by (simp add: draw_refusal_def run_draw_env_def) (simp add: event_bookings_def run_db_def)
  moreover have "draw_refusal run_draw_env 1 (run_db [run_event EventStatusClosed 2000] [run_booking]) = None"
    by (simp add: draw_refusal_def run_draw_env_def) (simp add: event_bookings_def run_db_def run_booking_def)
  moreover have "participants_of (deTie run_draw_env) 1 (run_db [run_event EventStatusClosed 2000] [run_booking]) = [1]"
    by (simp add: participants_of_def event_bookings_def run_db_def run_booking_def order_by_def)
  moreover have "SelectWinners [1] 1 r = Inr ([1], [], r)" for r
    by (simp add: SelectWinners_def FairShuffle_def)
  ultimately show ?thesis
    using RunDraw_decided[OF run_closed_reachable(1) env, of 1] RunDraw_decided[OF run_closed_reachable(2) env, of 1] by simp
qed

theorem drawn_is_final_witness:
  "\<exists>d d' e. op_step demo_auth d d' \<and> select_event d 1 = Some e \<and> eStatus e = EventStatusDrawn
     \<and> GetResults no_faults (\<lambda>_. 0) 1 d' = GetResults no_faults (\<lambda>_. 0) 1 d"
proof -
  obtain d e where d: "reachable_by op_init (op_step demo_auth) d" "select_event d 1 = Some e" "eStatus e = EventStatusDrawn"
    using run_drawn by blast
  obtain res d' where "event_Cancel demo_reload 1 d = (res, d')" by (cases "event_Cancel demo_reload 1 d")
  then have step: "op_step demo_auth d d'" by (rule op_step.cancel)
  then have "(op_step demo_auth)\<^sup>*\<^sup>* d d'" by blast
  from drawn_is_final[OF d(1) this d(2,3)] step d show ?thesis by blast
qed

end
