(* ===== verification/Config.thy ===== *)
theory Config
  imports Client_IP Go_Time
begin

text \<open>
  internal/config/config.go: the configuration read from environment variables.  The environment
  is a function from names to values, empty for a variable that is not set.  The parser of
  Redis URLs, the floating-point step of \<^verbatim>\<open>time.ParseDuration\<close> and Unicode's case tables are
  parameters.  Shown here: which environments are refused, what every accepted configuration
  satisfies, and where the conversion of the pool sizes to 32 bits breaks that.
\<close>

section \<open>time.ParseDuration\<close>

definition units :: "(string \<times> nat) list" where
  "units = [(''ns'', 1), (''us'', 1000), ([CHR 0xC2, CHR 0xB5, CHR ''s''], 1000), ([CHR 0xCE, CHR 0xBC, CHR ''s''], 1000),
     (''ms'', 1000000), (''s'', 1000000000), (''m'', 60000000000), (''h'', 3600000000000)]"

definition duration_limit :: nat where "duration_limit = 9223372036854775808"

text \<open>Digits into a number; more than 2 to the 63 is an overflow.\<close>

fun leadingInt :: "nat \<Rightarrow> string \<Rightarrow> nat option" where
  "leadingInt x [] = Some x"
| "leadingInt x (c # cs) =
     (if x > duration_limit div 10 then None
      else if 10 * x + digit_val c > duration_limit then None
      else leadingInt (10 * x + digit_val c) cs)"

definition dur_break :: "char \<Rightarrow> bool" where
  "dur_break c \<longleftrightarrow> c = CHR ''.'' \<or> is_digit c"

text \<open>
  The loop over number-unit pairs with the sum so far.  \<open>frac ds unit\<close> is what the digits \<open>ds\<close>
  behind a decimal point add, computed in floating point.
\<close>

function ParseDuration_loop :: "(string \<Rightarrow> nat \<Rightarrow> nat) \<Rightarrow> nat \<Rightarrow> string \<Rightarrow> nat option" where
  "ParseDuration_loop frac d s =
     (if s = '''' then Some d
      else if \<not> dur_break (hd s) then None
      else
        let ds = takeWhile is_digit s; s1 = dropWhile is_digit s;
            point = (take 1 s1 = ''.'');
            fs = (if point then takeWhile is_digit (tl s1) else '''');
            s2 = (if point then dropWhile is_digit (tl s1) else s1);
            u = takeWhile (\<lambda>c. \<not> dur_break c) s2;
            s3 = dropWhile (\<lambda>c. \<not> dur_break c) s2
        in case leadingInt 0 ds of
             None \<Rightarrow> None
           | Some v \<Rightarrow>
               if ds = '''' \<and> fs = '''' then None
               else if u = '''' then None
               else case map_of units u of
                 None \<Rightarrow> None
               | Some unit \<Rightarrow>
                   if v > duration_limit div unit then None
                   else
                     let v' = v * unit + frac fs unit in
                     if v' > duration_limit \<or> d + v' > duration_limit then None
                     else ParseDuration_loop frac (d + v') s3)"
  by pat_completeness auto

termination ParseDuration_loop
proof (relation "measure (\<lambda>(frac, d, s). length s)", goal_cases)
  case (2 frac d s ds s1 point fs s2 u s3 v unit v')
  have "length s1 \<le> length s" unfolding 2 by (rule length_dropWhile_le)
  moreover have "length s2 \<le> length s1"
    unfolding 2 using length_dropWhile_le[of is_digit "tl (dropWhile is_digit s)"] by auto
  moreover have "length s3 < length s2"
  proof -
    have "s2 = u @ s3" unfolding 2 by simp
    with \<open>u \<noteq> ''''\<close> show ?thesis by simp
  qed
  ultimately show ?case by simp
qed simp

declare ParseDuration_loop.simps [simp del]

definition ParseDuration :: "(string \<Rightarrow> nat \<Rightarrow> nat) \<Rightarrow> string \<Rightarrow> duration option" where
  "ParseDuration frac s =
     (let neg = (take 1 s = ''-'');
          s' = (if take 1 s = ''-'' \<or> take 1 s = ''+'' then tl s else s)
      in if s' = ''0'' then Some 0
         else if s' = '''' then None
         else case ParseDuration_loop frac 0 s' of
           None \<Rightarrow> None
         | Some d \<Rightarrow> if neg then Some (- int d) else if d > duration_limit - 1 then None else Some (int d))"

section \<open>Reading variables\<close>

type_synonym environment = "string \<Rightarrow> string"

definition getEnv :: "environment \<Rightarrow> string \<Rightarrow> string \<Rightarrow> string" where
  "getEnv env key fallback = (if env key \<noteq> '''' then env key else fallback)"

definition getInt :: "environment \<Rightarrow> string \<Rightarrow> int \<Rightarrow> int" where
  "getInt env key fallback =
     (if env key = '''' then fallback
      else case Atoi (env key) of (n, None) \<Rightarrow> n | (n, Some _) \<Rightarrow> fallback)"

definition getBool :: "(string \<Rightarrow> string) \<Rightarrow> environment \<Rightarrow> string \<Rightarrow> bool \<Rightarrow> bool" where
  "getBool uni env key fallback =
     (let v = ToLower uni (TrimSpace (env key)) in
      if v = '''' then fallback
      else if v \<in> {''1'', ''true'', ''yes'', ''on''} then True
      else if v \<in> {''0'', ''false'', ''no'', ''off''} then False
      else fallback)"

definition getDuration :: "(string \<Rightarrow> nat \<Rightarrow> nat) \<Rightarrow> environment \<Rightarrow> string \<Rightarrow> duration \<Rightarrow> duration" where
  "getDuration frac env key fallback =
     (if env key = '''' then fallback
      else case ParseDuration frac (env key) of None \<Rightarrow> fallback | Some d \<Rightarrow> d)"

definition splitCSV :: "string \<Rightarrow> string list" where
  "splitCSV s =
     (if s = '''' then [] else filter (\<lambda>p. p \<noteq> '''') (map TrimSpace (Split CHR '','' s)))"

definition parse_item :: "string \<Rightarrow> error + Prefix" where
  "parse_item item =
     (if CHR ''/'' \<in> set item
      then (case ParsePrefix item of
              None \<Rightarrow> Inl (Errorf (''netip.ParsePrefix: '' @ item))
            | Some p \<Rightarrow> Inr (Masked p))
      else (case ParseAddr item of
              None \<Rightarrow> Inl (Errorf (''ParseAddr: '' @ item))
            | Some a \<Rightarrow> Inr \<lparr>pfAddr = Unmap a, pfBits = BitLen (Unmap a)\<rparr>))"

fun parse_items :: "string list \<Rightarrow> error + Prefix list" where
  "parse_items [] = Inr []"
| "parse_items (item # items) =
     (case parse_item item of
        Inl err \<Rightarrow> Inl err
      | Inr p \<Rightarrow> (case parse_items items of Inl err \<Rightarrow> Inl err | Inr ps \<Rightarrow> Inr (p # ps)))"

definition parsePrefixes :: "string \<Rightarrow> error + Prefix list" where
  "parsePrefixes s = parse_items (splitCSV s)"

section \<open>Redis options\<close>

record redis_options =
  roAddr :: string
  roPassword :: string
  roDB :: int
  roPoolSize :: int
  roMinIdleConns :: int

definition applyRedisPoolDefaults :: "redis_options \<Rightarrow> redis_options" where
  "applyRedisPoolDefaults opts =
     (let o1 = (if roPoolSize opts = 0 then opts\<lparr>roPoolSize := 20\<rparr> else opts)
      in if roMinIdleConns o1 = 0 then o1\<lparr>roMinIdleConns := 5\<rparr> else o1)"

definition loadRedisOptions :: "(string \<Rightarrow> error + redis_options) \<Rightarrow> environment \<Rightarrow> error + redis_options" where
  "loadRedisOptions parseURL env =
     (let url = TrimSpace (env ''REDIS_URL'') in
      if url \<noteq> '''' then
        (case parseURL url of
           Inl err \<Rightarrow> Inl (wrap ''REDIS_URL invalid'' err)
         | Inr opts \<Rightarrow> Inr (applyRedisPoolDefaults opts))
      else Inr (applyRedisPoolDefaults
        \<lparr>roAddr = getEnv env ''REDIS_ADDR'' ''localhost:6379'', roPassword = env ''REDIS_PASSWORD'',
         roDB = getInt env ''REDIS_DB'' 0, roPoolSize = 0, roMinIdleConns = 0\<rparr>))"

section \<open>Load\<close>

record Config =
  cfEnv :: string
  cfPort :: string
  cfReadTimeout :: duration
  cfWriteTimeout :: duration
  cfIdleTimeout :: duration
  cfShutdownTimeout :: duration
  cfMaxRequestBytes :: int
  cfDatabaseURL :: string
  cfMigrationDatabaseURL :: string
  cfMigrateOnStart :: bool
  cfDBMaxConns :: int
  cfDBMinConns :: int
  cfRedisOptions :: redis_options
  cfJWTSecret :: string
  cfJWTExpiry :: duration
  cfLockTTL :: duration
  cfLockWait :: duration
  cfMaxWinners :: int
  cfAuthLimitRequests :: int
  cfAuthLimitWindow :: duration
  cfAccountLimitRequests :: int
  cfAccountLimitWindow :: duration
  cfAPILimitRequests :: int
  cfAPILimitWindow :: duration
  cfTrustedProxies :: "Prefix list"
  cfCORSAllowedOrigins :: "string list"
  cfBootstrapAdminEmail :: string
  cfBootstrapAdminPassword :: string
  cfBootstrapAdminName :: string

record config_lib =
  clFrac :: "string \<Rightarrow> nat \<Rightarrow> nat"
  clUnicodeLower :: "string \<Rightarrow> string"
  clParseURL :: "string \<Rightarrow> error + redis_options"

abbreviation seconds :: "int \<Rightarrow> duration" where "seconds n \<equiv> n * 1000000000"

definition build_config :: "config_lib \<Rightarrow> environment \<Rightarrow> redis_options \<Rightarrow> Prefix list \<Rightarrow> Config" where
  "build_config lib env redisOpts trustedProxies =
     (let dur = getDuration (clFrac lib) env in
      \<lparr>cfEnv = getEnv env ''ENV'' ''development'', cfPort = getEnv env ''PORT'' ''8080'',
       cfReadTimeout = dur ''READ_TIMEOUT'' (seconds 10), cfWriteTimeout = dur ''WRITE_TIMEOUT'' (seconds 30),
       cfIdleTimeout = dur ''IDLE_TIMEOUT'' (seconds 120), cfShutdownTimeout = dur ''SHUTDOWN_TIMEOUT'' (seconds 30),
       cfMaxRequestBytes = getInt env ''MAX_REQUEST_BYTES'' 1048576,
       cfDatabaseURL = TrimSpace (env ''DATABASE_URL''),
       cfMigrationDatabaseURL = TrimSpace (env ''MIGRATION_DATABASE_URL''),
       cfMigrateOnStart = getBool (clUnicodeLower lib) env ''MIGRATE_ON_START'' True,
       cfDBMaxConns = wrap32 (getInt env ''DB_MAX_CONNS'' 25), cfDBMinConns = wrap32 (getInt env ''DB_MIN_CONNS'' 5),
       cfRedisOptions = redisOpts,
       cfJWTSecret = TrimSpace (env ''JWT_SECRET''), cfJWTExpiry = dur ''JWT_EXPIRY'' (seconds 86400),
       cfLockTTL = dur ''LOCK_TTL'' (seconds 5), cfLockWait = dur ''LOCK_WAIT_TIMEOUT'' (seconds 10),
       cfMaxWinners = getInt env ''MAX_WINNERS'' 100,
       cfAuthLimitRequests = getInt env ''AUTH_RATE_LIMIT_REQUESTS'' 10,
       cfAuthLimitWindow = dur ''AUTH_RATE_LIMIT_WINDOW'' (seconds 60),
       cfAccountLimitRequests = getInt env ''AUTH_ACCOUNT_RATE_LIMIT_REQUESTS'' 10,
       cfAccountLimitWindow = dur ''AUTH_ACCOUNT_RATE_LIMIT_WINDOW'' (seconds 900),
       cfAPILimitRequests = getInt env ''API_RATE_LIMIT_REQUESTS'' 100,
       cfAPILimitWindow = dur ''API_RATE_LIMIT_WINDOW'' (seconds 60),
       cfTrustedProxies = trustedProxies,
       cfCORSAllowedOrigins = splitCSV (getEnv env ''CORS_ALLOWED_ORIGINS'' ''''),
       cfBootstrapAdminEmail = TrimSpace (env ''BOOTSTRAP_ADMIN_EMAIL''),
       cfBootstrapAdminPassword = env ''BOOTSTRAP_ADMIN_PASSWORD'',
       cfBootstrapAdminName = getEnv env ''BOOTSTRAP_ADMIN_NAME'' ''System Admin''\<rparr>)"

definition Load :: "config_lib \<Rightarrow> environment \<Rightarrow> error + Config" where
  "Load lib env =
     (let jwtSecret = TrimSpace (env ''JWT_SECRET'') in
      if jwtSecret = '''' then Inl (Errorf ''JWT_SECRET is required'')
      else if length jwtSecret < 32
      then Inl (Errorf (''JWT_SECRET must be at least 32 characters (got '' @ FormatInt (int (length jwtSecret)) @ '')''))
      else if TrimSpace (env ''DATABASE_URL'') = '''' then Inl (Errorf ''DATABASE_URL is required'')
      else case loadRedisOptions (clParseURL lib) env of
        Inl err \<Rightarrow> Inl err
      | Inr redisOpts \<Rightarrow>
          (case parsePrefixes (getEnv env ''TRUSTED_PROXIES'' '''') of
             Inl err \<Rightarrow> Inl (wrap ''TRUSTED_PROXIES'' err)
           | Inr trustedProxies \<Rightarrow>
               let maxConns = getInt env ''DB_MAX_CONNS'' 25; minConns = getInt env ''DB_MIN_CONNS'' 5 in
               if maxConns < 1 \<or> minConns < 0 \<or> minConns > maxConns
               then Inl (Errorf (''DB_MIN_CONNS ('' @ FormatInt minConns @ '') and DB_MAX_CONNS ('' @ FormatInt maxConns
                 @ '') must satisfy 0 <= min <= max, max >= 1''))
               else Inr (build_config lib env redisOpts trustedProxies)))"

section \<open>What an accepted configuration satisfies\<close>

lemma Load_Inr:
  assumes "Load lib env = Inr cfg"
  obtains opts ps where "loadRedisOptions (clParseURL lib) env = Inr opts"
    "parsePrefixes (getEnv env ''TRUSTED_PROXIES'' '''') = Inr ps" "cfg = build_config lib env opts ps"
    "32 \<le> length (TrimSpace (env ''JWT_SECRET''))" "TrimSpace (env ''DATABASE_URL'') \<noteq> ''''"
    "1 \<le> getInt env ''DB_MAX_CONNS'' 25" "0 \<le> getInt env ''DB_MIN_CONNS'' 5"
    "getInt env ''DB_MIN_CONNS'' 5 \<le> getInt env ''DB_MAX_CONNS'' 25"
proof -
  obtain opts where o: "loadRedisOptions (clParseURL lib) env = Inr opts"
    using assms by (cases "loadRedisOptions (clParseURL lib) env") (auto simp: Load_def Let_def split: if_splits)
  obtain ps where p: "parsePrefixes (getEnv env ''TRUSTED_PROXIES'' '''') = Inr ps"
    using assms o by (cases "parsePrefixes (getEnv env ''TRUSTED_PROXIES'' '''')")
      (auto simp: Load_def Let_def split: if_splits)
  have "\<not> length (TrimSpace (env ''JWT_SECRET'')) < 32" "TrimSpace (env ''DATABASE_URL'') \<noteq> ''''"
    "\<not> (getInt env ''DB_MAX_CONNS'' 25 < 1 \<or> getInt env ''DB_MIN_CONNS'' 5 < 0
        \<or> getInt env ''DB_MIN_CONNS'' 5 > getInt env ''DB_MAX_CONNS'' 25)"
    "cfg = build_config lib env opts ps"
    using assms unfolding Load_def Let_def by (simp_all add: o p split: if_splits)
  then show thesis using that[OF o p] by simp
qed

lemma Load_accepts:
  assumes "loadRedisOptions (clParseURL lib) env = Inr opts" "parsePrefixes (getEnv env ''TRUSTED_PROXIES'' '''') = Inr ps"
    "32 \<le> length (TrimSpace (env ''JWT_SECRET''))" "TrimSpace (env ''DATABASE_URL'') \<noteq> ''''"
    "1 \<le> getInt env ''DB_MAX_CONNS'' 25" "0 \<le> getInt env ''DB_MIN_CONNS'' 5"
    "getInt env ''DB_MIN_CONNS'' 5 \<le> getInt env ''DB_MAX_CONNS'' 25"
  shows "Load lib env = Inr (build_config lib env opts ps)"
  using assms unfolding Load_def Let_def by auto

lemma parse_items_Inr: "parse_items items = Inr ps \<Longrightarrow> list_all2 (\<lambda>item p. parse_item item = Inr p) items ps"
  by (induction items arbitrary: ps) (auto split: sum.splits)


text \<open>
  The addresses an entry of the list stands for: an address stands for itself, with or without
  the IPv4-in-IPv6 form, and a CIDR entry for the addresses its prefix contains.
\<close>

definition entry_covers :: "string \<Rightarrow> Addr \<Rightarrow> bool" where
  "entry_covers item b \<longleftrightarrow>
     (if CHR ''/'' \<in> set item then (case ParsePrefix item of None \<Rightarrow> False | Some p \<Rightarrow> Contains p (Unmap b))
      else case ParseAddr item of
        None \<Rightarrow> False
      | Some a \<Rightarrow> (case (Unmap a, Unmap b) of
          (V4 x, V4 y) \<Rightarrow> x = y | (V6 x _, V6 y z) \<Rightarrow> x = y \<and> z = '''' | _ \<Rightarrow> False))"

lemma parse_item_covers:
  assumes "parse_item item = Inr p" and "addr_ok b"
  shows "Contains p (Unmap b) = entry_covers item b"
proof (cases "CHR ''/'' \<in> set item")
  case True
  with assms(1) show ?thesis
    by (auto simp: parse_item_def entry_covers_def Contains_Masked split: option.splits)
next
  case False
  then obtain a where a: "ParseAddr item = Some a" "p = \<lparr>pfAddr = Unmap a, pfBits = BitLen (Unmap a)\<rparr>"
    using assms(1) by (auto simp: parse_item_def split: option.splits)
  have "addr_ok (Unmap a)" "addr_ok (Unmap b)" using assms(2) a(1) Unmap_ok ParseAddr_ok by auto
  then show ?thesis
    using False a by (cases "Unmap a"; cases "Unmap b") (auto simp: entry_covers_def Contains_def same_bits_full)
qed













text \<open>
  The trusted proxies are the ones the list names: an address is trusted exactly when an entry
  of \<^verbatim>\<open>TRUSTED_PROXIES\<close> covers it; but an entry that is the IPv4-in-IPv6 form of an IPv4 network
  covers nothing.
\<close>

theorem trusted_proxies_named:
  assumes "Load lib env = Inr cfg" and "addr_ok b"
  shows "(isTrusted (cfTrustedProxies cfg) b
      \<longleftrightarrow> (\<exists>item \<in> set (splitCSV (getEnv env ''TRUSTED_PROXIES'' '''')). entry_covers item b))
    \<and> (\<forall>item p g h z. CHR ''/'' \<in> set item \<and> ParsePrefix item = Some p \<and> 96 \<le> pfBits p
         \<and> pfAddr p = V6 [0, 0, 0, 0, 0, 0xffff, g, h] z \<longrightarrow> \<not> entry_covers item b)"
proof -
  let ?items = "splitCSV (getEnv env ''TRUSTED_PROXIES'' '''')"
  from Load_Inr[OF assms(1)] obtain opts ps where
    ps: "parsePrefixes (getEnv env ''TRUSTED_PROXIES'' '''') = Inr ps" and cfg: "cfg = build_config lib env opts ps"
    by metis
  have "list_all2 (\<lambda>item p. Contains p (Unmap b) = entry_covers item b) ?items ps"
    by (rule list_all2_mono[OF parse_items_Inr]) (use ps parse_item_covers[OF _ assms(2)] in \<open>auto simp: parsePrefixes_def\<close>)
  then have "list_ex (\<lambda>p. Contains p (Unmap b)) ps \<longleftrightarrow> list_ex (\<lambda>item. entry_covers item b) ?items"
    by (induction rule: list_all2_induct) auto
  then have "isTrusted (cfTrustedProxies cfg) b \<longleftrightarrow> (\<exists>item \<in> set ?items. entry_covers item b)"
    by (simp add: isTrusted_def cfg build_config_def Let_def list_ex_iff)
  moreover have "\<not> entry_covers item b"
    if "CHR ''/'' \<in> set item" "ParsePrefix item = Some p" "96 \<le> pfBits p"
      "pfAddr p = V6 [0, 0, 0, 0, 0, 0xffff, g, h] z" for item p g h z
    using Contains_mapped[OF that(4,3) assms(2)] that(1,2) by (simp add: entry_covers_def)
  ultimately show ?thesis by blast
qed

text \<open>
  Above 32 bits the check no longer protects the pool: a maximum that passes it is stored
  modulo 2 to the 32, so a request for 4294967297 connections becomes 1, below the minimum.
\<close>

theorem Load_max_conns_wraps:
  assumes "Load lib env = Inr cfg" and "getInt env ''DB_MAX_CONNS'' 25 = 4294967297"
    and "getInt env ''DB_MIN_CONNS'' 5 = 5"
  shows "cfDBMaxConns cfg = 1 \<and> cfDBMaxConns cfg < cfDBMinConns cfg"
proof -
  from Load_Inr[OF assms(1)] obtain opts ps where "cfg = build_config lib env opts ps" by metis
  with assms(2,3) show ?thesis by (simp add: build_config_def Let_def wrap32_def)
qed

section \<open>Examples\<close>

definition demo_env :: "string \<Rightarrow> string \<Rightarrow> environment" where
  "demo_env conns proxies =
     (\<lambda>_. '''')(''JWT_SECRET'' := replicate 40 CHR ''k'', ''DATABASE_URL'' := ''postgres://db'',
        ''DB_MAX_CONNS'' := conns, ''TRUSTED_PROXIES'' := proxies)"

definition demo_config_lib :: config_lib where
  "demo_config_lib = \<lparr>clFrac = (\<lambda>_ _. 0), clUnicodeLower = (\<lambda>s. s), clParseURL = (\<lambda>_. Inl io_EOF)\<rparr>"

lemma TrimSpace_nonspace:
  assumes "s \<noteq> ''''" and "\<forall>c \<in> set s. \<forall>w \<in> set space_encodings. c \<notin> set w"
  shows "TrimSpace s = s"
proof -
  have none: "find (\<lambda>w. w \<noteq> '''' \<and> take (length w) t = w) ws = None"
    if "set t \<subseteq> set s" "\<forall>w \<in> set ws. set w \<in> set ` set space_encodings" for t ws
    using that assms(2)
  proof (induction ws)
    case (Cons w ws)
    have "\<not> (w \<noteq> '''' \<and> take (length w) t = w)"
    proof
      assume w: "w \<noteq> '''' \<and> take (length w) t = w"
      then have "hd w \<in> set w" "hd w \<in> set t" by (auto, metis hd_in_set in_set_takeD)
      with Cons.prems show False by fastforce
    qed
    with Cons show ?case by auto
  qed simp
  have "trim_words space_encodings s = s"
    using none[of s space_encodings] by (intro trim_words_fixed) auto
  moreover have "trim_words (map rev space_encodings) (rev s) = rev s"
    using none[of "rev s" "map rev space_encodings"] by (intro trim_words_fixed) force
  ultimately show ?thesis by (simp add: TrimSpace_def)
qed

lemma demo_secret: "TrimSpace (replicate 40 CHR ''k'') = replicate 40 CHR ''k''"
  by (rule TrimSpace_nonspace) (simp_all add: space_encodings_def)

lemma demo_values [simp]:
  "TrimSpace ''postgres://db'' = ''postgres://db''" "TrimSpace '''' = ''''" "TrimSpace ''10.0.0.0/8'' = ''10.0.0.0/8''"
  by (simp_all add: TrimSpace_def trim_words.simps space_encodings_def)

lemma demo_prefix: "parsePrefixes ''10.0.0.0/8'' = Inr [\<lparr>pfAddr = V4 [10, 0, 0, 0], pfBits = 8\<rparr>]"
proof -
  have "split_last CHR ''/'' ''10.0.0.0/8'' = Some (''10.0.0.0'', ''8'')" by (simp add: split_last_def)
  moreover have "ParseAddr ''10.0.0.0'' = Some (V4 [10, 0, 0, 0])"
    by (simp add: ParseAddr_def is_digit_def digit_val_def)
  moreover have "Atoi ''8'' = (8, None)"
    by (simp add: Atoi_def ParseInt_def ParseUint_def is_digit_def digit_val_def)
  ultimately show ?thesis
    by (simp add: parsePrefixes_def splitCSV_def parse_item_def ParsePrefix_def Masked_def)
qed

lemma demo_Load:
  assumes "getInt (demo_env conns proxies) ''DB_MAX_CONNS'' 25 = n" "5 \<le> n"
    and "parsePrefixes proxies = Inr ps"
  shows "\<exists>opts. Load demo_config_lib (demo_env conns proxies) = Inr (build_config demo_config_lib (demo_env conns proxies) opts ps)"
proof -
  have "getInt (demo_env conns proxies) ''DB_MIN_CONNS'' 5 = 5" by (simp add: getInt_def demo_env_def)
  moreover have "getEnv (demo_env conns proxies) ''TRUSTED_PROXIES'' '''' = proxies"
    by (simp add: getEnv_def demo_env_def)
  moreover have vars: "demo_env conns proxies ''JWT_SECRET'' = replicate 40 CHR ''k''"
    "demo_env conns proxies ''DATABASE_URL'' = ''postgres://db''" "demo_env conns proxies ''REDIS_URL'' = ''''"
    by (simp_all add: demo_env_def)
  moreover obtain opts where "loadRedisOptions (clParseURL demo_config_lib) (demo_env conns proxies) = Inr opts"
    unfolding loadRedisOptions_def Let_def vars(3) by simp
  ultimately have "Load demo_config_lib (demo_env conns proxies)
      = Inr (build_config demo_config_lib (demo_env conns proxies) opts ps)"
    using assms by (intro Load_accepts) (simp_all add: demo_secret)
  then show ?thesis by blast
qed

lemma demo_conns:
  "getInt (demo_env '''' p) ''DB_MAX_CONNS'' 25 = 25"
  "is_int64 n \<Longrightarrow> getInt (demo_env (FormatInt n) p) ''DB_MAX_CONNS'' 25 = n"
proof -
  show "getInt (demo_env '''' p) ''DB_MAX_CONNS'' 25 = 25" by (simp add: getInt_def demo_env_def)
  assume "is_int64 n"
  moreover have "FormatInt n \<noteq> ''''" by (simp add: FormatInt_def)
  ultimately show "getInt (demo_env (FormatInt n) p) ''DB_MAX_CONNS'' 25 = n"
    by (simp add: getInt_def demo_env_def Atoi_def ParseInt_FormatInt)
qed

lemma demo_no_proxies: "parsePrefixes '''' = Inr []"
  by (simp add: parsePrefixes_def splitCSV_def)


theorem Load_max_conns_wraps_witness:
  "\<exists>cfg. Load demo_config_lib (demo_env (FormatInt 4294967297) '''') = Inr cfg \<and> cfDBMaxConns cfg < cfDBMinConns cfg"
proof -
  have n: "getInt (demo_env (FormatInt 4294967297) '''') ''DB_MAX_CONNS'' 25 = 4294967297"
    by (rule demo_conns) (simp add: is_int64_def)
  obtain cfg where cfg: "Load demo_config_lib (demo_env (FormatInt 4294967297) '''') = Inr cfg"
    using demo_Load[OF n _ demo_no_proxies] by auto
  have "getInt (demo_env (FormatInt 4294967297) '''') ''DB_MIN_CONNS'' 5 = 5"
    by (simp add: getInt_def demo_env_def)
  from Load_max_conns_wraps[OF cfg n this] cfg show ?thesis by auto
qed

theorem trusted_proxies_named_witness:
  "\<exists>cfg. Load demo_config_lib (demo_env '''' ''10.0.0.0/8'') = Inr cfg
     \<and> isTrusted (cfTrustedProxies cfg) (V4 [10, 9, 8, 7]) \<and> \<not> isTrusted (cfTrustedProxies cfg) (V4 [11, 0, 0, 1])"
proof -
  obtain cfg where cfg: "Load demo_config_lib (demo_env '''' ''10.0.0.0/8'') = Inr cfg"
    using demo_Load[OF demo_conns(1) _ demo_prefix] by auto
  have items: "splitCSV (getEnv (demo_env '''' ''10.0.0.0/8'') ''TRUSTED_PROXIES'' '''') = [''10.0.0.0/8'']"
    by (simp add: getEnv_def demo_env_def splitCSV_def)
  have "parse_item ''10.0.0.0/8'' = Inr \<lparr>pfAddr = V4 [10, 0, 0, 0], pfBits = 8\<rparr>"
    using demo_prefix by (simp add: parsePrefixes_def splitCSV_def split: sum.splits)
  then have "entry_covers ''10.0.0.0/8'' (V4 [10, 9, 8, 7])" "\<not> entry_covers ''10.0.0.0/8'' (V4 [11, 0, 0, 1])"
    using parse_item_covers[of "''10.0.0.0/8''" _ "V4 [10, 9, 8, 7]"] parse_item_covers[of "''10.0.0.0/8''" _ "V4 [11, 0, 0, 1]"]
    by (auto simp: Contains_def)
  with trusted_proxies_named[OF cfg, of "V4 [10, 9, 8, 7]"] trusted_proxies_named[OF cfg, of "V4 [11, 0, 0, 1]"] cfg items
  show ?thesis by auto
qed

end
