(* ===== verification/Migrations.thy ===== *)
theory Migrations
  imports Database
begin

text \<open>
  internal/db/migrate.go: applying the embedded SQL files in order, each in a transaction
  together with its row in the ledger \<^verbatim>\<open>schema_migrations\<close>.  What a script does to the schema is a
  parameter, as are the embedded files.  Shown here: after any sequence of failed and successful
  runs the schema is the one that results from the scripts recorded in the ledger, in order, and
  a run without an error records all of them.
\<close>

record migration =
  mgVersion :: int
  mgName :: string
  mgPath :: string

section \<open>File names\<close>

definition parseMigrationFilename :: "string \<Rightarrow> error + (int \<times> string)" where
  "parseMigrationFilename name =
     (let base = TrimSuffix name ''.sql'';
          idx = length (takeWhile (\<lambda>c. c \<noteq> CHR ''_'') base)
      in if CHR ''_'' \<notin> set base \<or> idx = 0
         then Inl (Errorf (''migration filename must be NNN_name.sql, got '' @ name))
         else case ParseInt (take idx base) of
           (_, Some _) \<Rightarrow> Inl (Wrapf (''migration '' @ name @ '': invalid version: '') (Errorf ''strconv.ParseInt'') '''')
         | (v, None) \<Rightarrow> Inr (v, drop (Suc idx) base))"

text \<open>A directory entry is its name and whether it is a directory.\<close>

fun collect_migrations :: "(string \<times> bool) list \<Rightarrow> error + migration list" where
  "collect_migrations [] = Inr []"
| "collect_migrations ((name, isDir) # es) =
     (if isDir \<or> \<not> HasSuffix name ''.sql'' then collect_migrations es
      else case parseMigrationFilename name of
        Inl err \<Rightarrow> Inl err
      | Inr (v, nm) \<Rightarrow>
          (case collect_migrations es of
             Inl err \<Rightarrow> Inl err
           | Inr ms \<Rightarrow> Inr (\<lparr>mgVersion = v, mgName = nm, mgPath = ''migrations/'' @ name\<rparr> # ms)))"

section \<open>Running\<close>

text \<open>The ledger, absent before the first run, and the rest of the database.\<close>

record 's mig_db =
  mdLedger :: "(int \<times> string) list option"
  mdSchema :: 's

datatype mig_call =
    CreateLedger | ReadDir | CheckVersion int | ReadFile int | BeginTx int | ExecScript int | RecordVersion int

record 's mig_env =
  meEntries :: "(string \<times> bool) list"
  meBody :: "string \<Rightarrow> string"
  meApply :: "string \<Rightarrow> 's \<Rightarrow> error + 's"
  meTie :: "migration \<Rightarrow> nat"
  meFault :: "mig_call \<Rightarrow> error option"
  meCommit :: "int \<Rightarrow> commit_outcome"

definition with_version :: "string \<Rightarrow> int \<Rightarrow> string \<Rightarrow> string" where
  "with_version verb v rest = verb @ FormatInt v @ rest"

definition recorded :: "'s mig_db \<Rightarrow> int \<Rightarrow> bool" where
  "recorded d v \<longleftrightarrow> (case mdLedger d of None \<Rightarrow> False | Some l \<Rightarrow> v \<in> fst ` set l)"

text \<open>\<^verbatim>\<open>INSERT ... ON CONFLICT (version) DO NOTHING\<close>.\<close>

definition record_version :: "int \<Rightarrow> string \<Rightarrow> 's mig_db \<Rightarrow> 's mig_db" where
  "record_version v nm d =
     (if recorded d v then d else d\<lparr>mdLedger := map_option (\<lambda>l. l @ [(v, nm)]) (mdLedger d)\<rparr>)"

text \<open>One migration: the existing error, if any, and the state it leaves.\<close>

definition apply_migration :: "'s mig_env \<Rightarrow> migration \<Rightarrow> 's mig_db \<Rightarrow> error option \<times> 's mig_db" where
  "apply_migration env m d =
     (let v = mgVersion m in
      case meFault env (CheckVersion v) of
        Some err \<Rightarrow> (Some (wrap (with_version ''checking migration '' v '''') err), d)
      | None \<Rightarrow>
      if recorded d v then (None, d)
      else case meFault env (ReadFile v) of
        Some err \<Rightarrow> (Some (wrap (''reading '' @ mgPath m) err), d)
      | None \<Rightarrow>
      (case meFault env (BeginTx v) of
        Some err \<Rightarrow> (Some (wrap (with_version ''begin tx for migration '' v '''') err), d)
      | None \<Rightarrow>
      (case (case meFault env (ExecScript v) of Some err \<Rightarrow> Inl err | None \<Rightarrow> meApply env (meBody env (mgPath m)) (mdSchema d)) of
        Inl err \<Rightarrow> (Some (wrap (with_version ''applying migration '' v ('' ('' @ mgName m @ '')'')) err), d)
      | Inr s \<Rightarrow>
      (case meFault env (RecordVersion v) of
        Some err \<Rightarrow> (Some (wrap (with_version ''recording migration '' v '''') err), d)
      | None \<Rightarrow>
      let d' = record_version v (mgName m) (d\<lparr>mdSchema := s\<rparr>) in
      (case meCommit env v of
        CommitOk \<Rightarrow> (None, d')
      | CommitFailed err \<Rightarrow> (Some (wrap (with_version ''commit migration '' v '''') err), d)
      | CommitLost err \<Rightarrow> (Some (wrap (with_version ''commit migration '' v '''') err), d'))))))"

fun apply_migrations :: "'s mig_env \<Rightarrow> migration list \<Rightarrow> 's mig_db \<Rightarrow> error option \<times> 's mig_db" where
  "apply_migrations env [] d = (None, d)"
| "apply_migrations env (m # ms) d =
     (case apply_migration env m d of
        (Some err, d') \<Rightarrow> (Some err, d')
      | (None, d') \<Rightarrow> apply_migrations env ms d')"

definition create_ledger :: "'s mig_db \<Rightarrow> 's mig_db" where
  "create_ledger d = (case mdLedger d of None \<Rightarrow> d\<lparr>mdLedger := Some []\<rparr> | Some _ \<Rightarrow> d)"

definition RunMigrations :: "'s mig_env \<Rightarrow> 's mig_db \<Rightarrow> error option \<times> 's mig_db" where
  "RunMigrations env d =
     (case meFault env CreateLedger of
        Some err \<Rightarrow> (Some (wrap ''creating schema_migrations'' err), d)
      | None \<Rightarrow>
      let d1 = create_ledger d in
      (case meFault env ReadDir of
        Some err \<Rightarrow> (Some (wrap ''reading embedded migrations'' err), d1)
      | None \<Rightarrow>
      (case collect_migrations (meEntries env) of
        Inl err \<Rightarrow> (Some err, d1)
      | Inr ms \<Rightarrow> apply_migrations env (order_by (meTie env) mgVersion ms) d1)))"

section \<open>The schema and the ledger agree\<close>

text \<open>
  \<open>migrated env ms k s0 d\<close>: the first \<open>k\<close> of the scripts \<open>ms\<close> have been run, in order, on the schema
  \<open>s0\<close>, and exactly these are recorded.
\<close>

fun run_scripts :: "'s mig_env \<Rightarrow> migration list \<Rightarrow> 's \<Rightarrow> 's option" where
  "run_scripts env [] s = Some s"
| "run_scripts env (m # ms) s =
     (case meApply env (meBody env (mgPath m)) s of Inl _ \<Rightarrow> None | Inr s' \<Rightarrow> run_scripts env ms s')"

definition migrated :: "'s mig_env \<Rightarrow> migration list \<Rightarrow> nat \<Rightarrow> 's \<Rightarrow> 's mig_db \<Rightarrow> bool" where
  "migrated env ms k s0 d \<longleftrightarrow>
     k \<le> length ms \<and> mdLedger d = Some (map (\<lambda>m. (mgVersion m, mgName m)) (take k ms)) \<and>
     run_scripts env (take k ms) s0 = Some (mdSchema d)"

text \<open>The same files and the same server, whatever fails this time.\<close>

definition same_scripts :: "'s mig_env \<Rightarrow> 's mig_env \<Rightarrow> bool" where
  "same_scripts env env' \<longleftrightarrow> meBody env' = meBody env \<and> meApply env' = meApply env"

lemma run_scripts_snoc:
  "run_scripts env (ms @ [m]) s =
     (case run_scripts env ms s of None \<Rightarrow> None
      | Some s' \<Rightarrow> (case meApply env (meBody env (mgPath m)) s' of Inl _ \<Rightarrow> None | Inr s'' \<Rightarrow> Some s''))"
  by (induction ms arbitrary: s) (auto split: sum.splits)

lemma run_scripts_same: "same_scripts env env' \<Longrightarrow> run_scripts env' ms s = run_scripts env ms s"
  by (induction ms arbitrary: s) (auto simp: same_scripts_def split: sum.splits)

lemma migrated_same: "same_scripts env env' \<Longrightarrow> migrated env' ms k s0 d = migrated env ms k s0 d"
  by (simp add: migrated_def run_scripts_same)

lemma apply_recorded:
  assumes "migrated env ms k s0 d" and "j < k"
  shows "snd (apply_migration env (ms ! j) d) = d"
proof -
  have "ms ! j \<in> set (take k ms)" using assms by (auto simp: migrated_def in_set_conv_nth intro!: exI[of _ j])
  then have "recorded d (mgVersion (ms ! j))" using assms(1) by (auto simp: migrated_def recorded_def image_image)
  then show ?thesis by (auto simp: apply_migration_def Let_def split: option.splits)
qed

lemma apply_next:
  assumes "migrated env ms k s0 d" and "k < length ms" and "distinct (map mgVersion ms)"
    and "apply_migration env (ms ! k) d = (r, d')"
  shows "(d' = d \<and> r \<noteq> None) \<or> migrated env ms (Suc k) s0 d'"
proof -
  let ?m = "ms ! k"
  have "mgVersion ?m \<notin> mgVersion ` set (take k ms)"
  proof
    assume "mgVersion ?m \<in> mgVersion ` set (take k ms)"
    then obtain j where "j < k" "mgVersion (ms ! j) = mgVersion ?m"
      using assms(2) by (auto simp: in_set_conv_nth)
    with assms(2,3) show False by (auto simp: distinct_conv_nth)
  qed
  then have new: "\<not> recorded d (mgVersion ?m)"
    using assms(1) by (auto simp: migrated_def recorded_def image_image)
  have "migrated env ms (Suc k) s0 (record_version (mgVersion ?m) (mgName ?m) (d\<lparr>mdSchema := s\<rparr>))"
    if "meApply env (meBody env (mgPath ?m)) (mdSchema d) = Inr s" for s
    using assms(1,2) new that
    by (simp add: migrated_def record_version_def recorded_def take_Suc_conv_app_nth run_scripts_snoc)
  with assms(4) new show ?thesis
    by (auto simp: apply_migration_def Let_def split: option.splits sum.splits commit_outcome.splits)
qed

lemma apply_migrations_from:
  assumes "migrated env ms k s0 d" and "distinct (map mgVersion ms)" and "j \<le> k" and "k \<le> length ms"
    and "apply_migrations env (drop j ms) d = (r, d')"
  shows "\<exists>k' \<ge> k. migrated env ms k' s0 d' \<and> (r = None \<longrightarrow> k' = length ms)"
  using assms
proof (induction "length ms - j" arbitrary: j k d)
  case 0
  then have "k = length ms" by simp
  with 0 show ?case by auto
next
  case (Suc n)
  then have j: "j < length ms" by simp
  then have drop: "drop j ms = ms ! j # drop (Suc j) ms" by (rule Cons_nth_drop_Suc[symmetric])
  obtain r1 d1 where one: "apply_migration env (ms ! j) d = (r1, d1)" by (cases "apply_migration env (ms ! j) d")
  have "\<exists>k1 \<ge> k. migrated env ms k1 s0 d1 \<and> (r1 = None \<longrightarrow> Suc j \<le> k1)"
  proof (cases "j < k")
    case True
    then have "d1 = d" using apply_recorded[OF Suc.prems(1) True] one by simp
    with Suc.prems(1) True show ?thesis by auto
  next
    case False
    with Suc.prems(3) have "j = k" by simp
    with apply_next[OF Suc.prems(1) _ Suc.prems(2)] one j Suc.prems(1) show ?thesis
      by (metis Suc_leI le_eq_less_or_eq lessI)
  qed
  then obtain k1 where k1: "k1 \<ge> k" "migrated env ms k1 s0 d1" "r1 = None \<longrightarrow> Suc j \<le> k1" by blast
  show ?case
  proof (cases r1)
    case None
    with Suc.prems(5) drop one have "apply_migrations env (drop (Suc j) ms) d1 = (r, d')" by simp
    moreover have "n = length ms - Suc j" "k1 \<le> length ms" using Suc.hyps(2) k1(2) by (auto simp: migrated_def)
    ultimately obtain k' where "k1 \<le> k'" "migrated env ms k' s0 d'" "r = None \<longrightarrow> k' = length ms"
      using Suc.hyps(1)[of "Suc j" k1 d1] k1 None Suc.prems(2) by auto
    with k1(1) show ?thesis by (intro exI[of _ k']) simp
  next
    case (Some err)
    with Suc.prems(5) drop one k1 show ?thesis by auto
  qed
qed

text \<open>One run, from a fresh database or from a state an earlier run has left.\<close>

definition mig_state :: "'s mig_env \<Rightarrow> migration list \<Rightarrow> 's \<Rightarrow> 's mig_db \<Rightarrow> bool" where
  "mig_state env ms s0 d \<longleftrightarrow> d = \<lparr>mdLedger = None, mdSchema = s0\<rparr> \<or> (\<exists>k. migrated env ms k s0 d)"

lemma create_ledger_migrated: "mig_state env ms s0 d \<Longrightarrow> \<exists>k. migrated env ms k s0 (create_ledger d)"
  by (auto simp: mig_state_def create_ledger_def migrated_def)

lemma RunMigrations_run:
  assumes "mig_state env ms s0 d" and "collect_migrations (meEntries env) = Inr ms0"
    and "distinct (map mgVersion ms0)" and "ms = sort_key mgVersion ms0"
    and "RunMigrations env d = (r, d')"
  shows "mig_state env ms s0 d' \<and> (r = None \<longrightarrow> migrated env ms (length ms) s0 d')"
proof -
  obtain k where k: "migrated env ms k s0 (create_ledger d)" using create_ledger_migrated[OF assms(1)] by blast
  have dist: "distinct (map mgVersion ms)"
    using assms(3,4) by (simp add: distinct_map sort_key_inj_key_eq)
  have go: "\<exists>k' \<ge> k. migrated env ms k' s0 d' \<and> (r = None \<longrightarrow> k' = length ms)"
    if "apply_migrations env ms (create_ledger d) = (r, d')"
    using apply_migrations_from[OF k dist, of 0 r d'] that k by (simp add: migrated_def)
  consider "d' = d" "r \<noteq> None" | "d' = create_ledger d" "r \<noteq> None"
    | "apply_migrations env ms (create_ledger d) = (r, d')"
    using assms(2,5) order_by_distinct[OF assms(3), of "meTie env"] assms(4)
    by (auto simp: RunMigrations_def Let_def split: option.splits)
  then show ?thesis
  proof cases
    case 3
    with go show ?thesis by (auto simp: mig_state_def)
  qed (use assms(1) k in \<open>auto simp: mig_state_def\<close>)
qed

definition run_all :: "'s mig_env list \<Rightarrow> 's mig_db \<Rightarrow> 's mig_db" where
  "run_all envs d = foldl (\<lambda>d env. snd (RunMigrations env d)) d envs"

definition same_files :: "'s mig_env \<Rightarrow> 's mig_env \<Rightarrow> bool" where
  "same_files env env' \<longleftrightarrow> same_scripts env env' \<and> meEntries env' = meEntries env"

lemma mig_state_same: "same_scripts env env' \<Longrightarrow> mig_state env' ms s0 d = mig_state env ms s0 d"
  by (simp add: mig_state_def migrated_same)

lemma run_all_state:
  assumes "\<forall>e \<in> set envs. same_files env e" and "mig_state env ms s0 d"
    and "collect_migrations (meEntries env) = Inr ms0" "distinct (map mgVersion ms0)" "ms = sort_key mgVersion ms0"
  shows "mig_state env ms s0 (run_all envs d)"
  using assms(1,2)
proof (induction envs arbitrary: d)
  case (Cons e envs)
  then have e: "same_scripts env e" "meEntries e = meEntries env" by (auto simp: same_files_def)
  obtain r d1 where run: "RunMigrations e d = (r, d1)" by (cases "RunMigrations e d")
  have "mig_state e ms s0 d1"
    using RunMigrations_run[of e ms s0 d ms0 r d1] Cons.prems(2) mig_state_same[OF e(1)] e(2) assms(3-5) run by auto
  then have "mig_state env ms s0 d1" using mig_state_same[OF e(1)] by blast
  with Cons run show ?case by (simp add: run_all_def)
qed (simp add: run_all_def)

lemma migrated_complete_stable:
  assumes "migrated env ms (length ms) s0 d" and "distinct (map mgVersion ms)" and "j \<le> length ms"
  shows "snd (apply_migrations env (drop j ms) d) = d"
  using assms(3)
proof (induction "length ms - j" arbitrary: j)
  case (Suc n)
  then have j: "j < length ms" by simp
  then have "drop j ms = ms ! j # drop (Suc j) ms" by (rule Cons_nth_drop_Suc[symmetric])
  moreover have "snd (apply_migration env (ms ! j) d) = d" using apply_recorded[OF assms(1) j] .
  moreover have "snd (apply_migrations env (drop (Suc j) ms) d) = d"
    using Suc.hyps(1)[of "Suc j"] Suc.hyps(2) j by simp
  ultimately show ?case by (auto split: prod.splits option.splits)
qed simp

text \<open>
  C16. Migrations are resumable and idempotent.  However many runs have failed, and wherever, the
  schema is the result of a number of scripts run once each in the order of their versions, and
  exactly these are in the ledger; the next run that reports no error has run all of them, and a
  run after that changes nothing.
\<close>

theorem RunMigrations_resumable:
  assumes "collect_migrations (meEntries env) = Inr ms0" and "distinct (map mgVersion ms0)"
    and "\<forall>e \<in> set envs. same_files env e"
  shows "mig_state env (sort_key mgVersion ms0) s0 (run_all envs \<lparr>mdLedger = None, mdSchema = s0\<rparr>)
    \<and> (\<forall>d. RunMigrations env (run_all envs \<lparr>mdLedger = None, mdSchema = s0\<rparr>) = (None, d)
        \<longrightarrow> migrated env (sort_key mgVersion ms0) (length ms0) s0 d \<and> snd (RunMigrations env d) = d)"
proof -
  let ?ms = "sort_key mgVersion ms0" and ?d = "run_all envs \<lparr>mdLedger = None, mdSchema = s0\<rparr>"
  have st: "mig_state env ?ms s0 ?d"
    by (rule run_all_state[OF assms(3) _ assms(1,2) refl]) (simp add: mig_state_def)
  moreover have "migrated env ?ms (length ms0) s0 d \<and> snd (RunMigrations env d) = d"
    if "RunMigrations env ?d = (None, d)" for d
  proof -
    have m: "migrated env ?ms (length ?ms) s0 d"
      using RunMigrations_run[OF st assms(1,2) refl that] by simp
    have "distinct (map mgVersion ?ms)" using assms(2) by (simp add: distinct_map)
    then have "snd (apply_migrations env ?ms d) = d" using migrated_complete_stable[OF m, of 0] by simp
    moreover have "create_ledger d = d" using m by (simp add: create_ledger_def migrated_def)
    ultimately have "snd (RunMigrations env d) = d"
      using order_by_distinct[OF assms(2), of "meTie env"] assms(1)
      by (auto simp: RunMigrations_def Let_def split: option.splits)
    with m show ?thesis by simp
  qed
  ultimately show ?thesis by blast
qed

definition demo_mig :: "(mig_call \<Rightarrow> error option) \<Rightarrow> string list mig_env" where
  "demo_mig f = \<lparr>meEntries = [(''001_init.sql'', False), (''002_harden_audit.sql'', False), (''README.md'', False)],
     meBody = (\<lambda>p. p), meApply = (\<lambda>body s. Inr (s @ [body])), meTie = (\<lambda>_. 0), meFault = f, meCommit = (\<lambda>_. CommitOk)\<rparr>"

definition demo_fail :: "mig_call \<Rightarrow> error option" where
  "demo_fail c = (if c = ExecScript 2 then Some io_EOF else None)"

lemma demo_filenames:
  "parseMigrationFilename ''001_init.sql'' = Inr (1, ''init'')"
  "parseMigrationFilename ''002_harden_audit.sql'' = Inr (2, ''harden_audit'')"
  by (simp_all add: parseMigrationFilename_def TrimSuffix_def HasSuffix_def ParseInt_def ParseUint_def
      is_digit_def digit_val_def)

lemma demo_collect:
  "collect_migrations (meEntries (demo_mig f)) =
     Inr [\<lparr>mgVersion = 1, mgName = ''init'', mgPath = ''migrations/001_init.sql''\<rparr>,
          \<lparr>mgVersion = 2, mgName = ''harden_audit'', mgPath = ''migrations/002_harden_audit.sql''\<rparr>]"
  using demo_filenames by (simp add: demo_mig_def HasSuffix_def)

theorem RunMigrations_resumable_witness:
  "\<exists>d. RunMigrations (demo_mig (\<lambda>_. None)) (run_all [demo_mig demo_fail] \<lparr>mdLedger = None, mdSchema = []\<rparr>) = (None, d)
     \<and> mdSchema (run_all [demo_mig demo_fail] \<lparr>mdLedger = None, mdSchema = []\<rparr>) = [''migrations/001_init.sql'']
     \<and> mdSchema d = [''migrations/001_init.sql'', ''migrations/002_harden_audit.sql'']
     \<and> snd (RunMigrations (demo_mig (\<lambda>_. None)) d) = d"
proof -
  let ?d1 = "\<lparr>mdLedger = Some [(1, ''init'')], mdSchema = [''migrations/001_init.sql'']\<rparr>"
  let ?d2 = "\<lparr>mdLedger = Some [(1, ''init''), (2, ''harden_audit'')],
    mdSchema = [''migrations/001_init.sql'', ''migrations/002_harden_audit.sql'']\<rparr>"
  note evals = demo_mig_def demo_fail_def order_by_def create_ledger_def apply_migration_def recorded_def record_version_def
  have first: "run_all [demo_mig demo_fail] \<lparr>mdLedger = None, mdSchema = []\<rparr> = ?d1"
    using demo_collect[of demo_fail] by (simp add: run_all_def RunMigrations_def evals)
  have second: "RunMigrations (demo_mig (\<lambda>_. None)) ?d1 = (None, ?d2)"
    using demo_collect[of "\<lambda>_. None"] by (simp add: RunMigrations_def evals)
  have files: "\<forall>e \<in> set [demo_mig demo_fail]. same_files (demo_mig (\<lambda>_. None)) e"
    by (simp add: same_files_def same_scripts_def demo_mig_def)
  have "snd (RunMigrations (demo_mig (\<lambda>_. None)) ?d2) = ?d2"
    using RunMigrations_resumable[OF demo_collect _ files, of "[]"] first second by simp
  with first second show ?thesis by simp
qed

section \<open>A run without an error has recorded every version\<close>

lemma recorded_record_version:
  "mdLedger d \<noteq> None \<Longrightarrow> recorded (record_version v nm d) w \<longleftrightarrow> w = v \<or> recorded d w"
  by (auto simp: recorded_def record_version_def split: option.splits)

lemma record_version_ledger: "(\<exists>l. mdLedger (record_version v nm d) = Some l) \<longleftrightarrow> (\<exists>l. mdLedger d = Some l)"
  by (auto simp: record_version_def)

lemma recorded_schema [simp]: "recorded (d\<lparr>mdSchema := s\<rparr>) v = recorded d v"
  by (simp add: recorded_def)

lemma apply_migration_records:
  assumes "apply_migration env m d = (None, d')" and "mdLedger d \<noteq> None"
  shows "recorded d' (mgVersion m)" and "recorded d w \<Longrightarrow> recorded d' w" and "mdLedger d' \<noteq> None"
  using assms recorded_record_version[of "d\<lparr>mdSchema := s\<rparr>" for s]
  by (auto simp: apply_migration_def Let_def record_version_ledger
      split: option.splits if_splits sum.splits commit_outcome.splits)

lemma apply_migrations_records:
  assumes "apply_migrations env ms d = (None, d')" and "mdLedger d \<noteq> None"
  shows "(\<forall>m \<in> set ms. recorded d' (mgVersion m)) \<and> (\<forall>w. recorded d w \<longrightarrow> recorded d' w)"
  using assms
proof (induction ms arbitrary: d)
  case (Cons m ms)
  obtain d1 where one: "apply_migration env m d = (None, d1)" and rest: "apply_migrations env ms d1 = (None, d')"
    using Cons.prems(1) by (auto split: prod.splits option.splits)
  from apply_migration_records[OF one Cons.prems(2)] Cons.IH[OF rest] show ?case by auto
qed simp

lemma RunMigrations_records:
  assumes "RunMigrations env d = (None, d')" and "collect_migrations (meEntries env) = Inr ms" and "m \<in> set ms"
  shows "recorded d' (mgVersion m)"
proof -
  have run: "apply_migrations env (order_by (meTie env) mgVersion ms) (create_ledger d) = (None, d')"
    using assms(1,2) by (auto simp: RunMigrations_def Let_def split: option.splits)
  have "mdLedger (create_ledger d) \<noteq> None" by (auto simp: create_ledger_def split: option.splits)
  from apply_migrations_records[OF run this] show ?thesis using assms(3) by auto
qed

text \<open>What every script keeps, a run keeps.\<close>

lemma apply_migrations_keeps:
  assumes "\<And>body s s'. meApply env body s = Inr s' \<Longrightarrow> P s \<Longrightarrow> P s'"
    and "apply_migrations env ms d = (res, d')" and "P (mdSchema d)"
  shows "P (mdSchema d')"
proof -
  have schema: "mdSchema (record_version v nm t) = mdSchema t" for v nm and t :: "'s mig_db"
    by (simp add: record_version_def)
  have one: "P (mdSchema t')" if "apply_migration env m t = (r, t')" "P (mdSchema t)" for m t t' r
    using that assms(1)
    by (auto simp: apply_migration_def Let_def schema split: option.splits if_splits sum.splits commit_outcome.splits)
  show ?thesis
    using assms(2,3)
  proof (induction ms arbitrary: d)
    case (Cons m ms)
    obtain e t where t: "apply_migration env m d = (e, t)" by (cases "apply_migration env m d")
    show ?case
    proof (cases e)
      case None
      then have "apply_migrations env ms t = (res, d')" using Cons.prems(1) t by simp
      then show ?thesis using one[OF t Cons.prems(2)] by (rule Cons.IH)
    next
      case (Some err)
      then show ?thesis using Cons.prems t one by auto
    qed
  qed simp
qed

lemma RunMigrations_keeps:
  assumes "\<And>body s s'. meApply env body s = Inr s' \<Longrightarrow> P s \<Longrightarrow> P s'"
    and "RunMigrations env d = (res, d')" and "P (mdSchema d)"
  shows "P (mdSchema d')"
proof -
  have schema: "mdSchema (create_ledger d) = mdSchema d" by (simp add: create_ledger_def split: option.splits)
  show ?thesis
  proof (cases "d' = d \<or> d' = create_ledger d")
    case False
    then obtain ms where "apply_migrations env ms (create_ledger d) = (res, d')"
      using assms(2) by (auto simp: RunMigrations_def Let_def split: option.splits sum.splits)
    from apply_migrations_keeps[OF assms(1) this] assms(3) schema show ?thesis by simp
  qed (use assms(3) schema in auto)
qed

end
