(* ===== verification/Startup.thy ===== *)
theory Startup
  imports Config Migrations Auth_Service
begin

text \<open>
  internal/db/postgres.go, internal/db/redis.go and the first half of \<^verbatim>\<open>run\<close> in
  cmd/server/main.go: from the environment to a server that is ready to listen.  pgxpool and
  go-redis are parameters; what the code opens and closes is recorded.  Shown here: when start-up
  succeeds the migrations and the bootstrap administrator are in place, and nothing that a failed
  start-up opened stays open.
\<close>

section \<open>Connections\<close>

record pgx_config =
  pcConnString :: string
  pcMaxConns :: int
  pcMinConns :: int
  pcMaxConnLifetime :: duration
  pcMaxConnIdleTime :: duration
  pcHealthCheckPeriod :: duration

text \<open>A pool or client is known by what it was made from.\<close>

datatype resource = PgPool pgx_config | RedisClient redis_options
datatype res_event = Opened resource | Closed resource

record datastore_lib =
  dsParseConfig :: "string \<Rightarrow> error + pgx_config"
  dsNewWithConfig :: "pgx_config \<Rightarrow> error option"
  dsPgPing :: "pgx_config \<Rightarrow> error option"
  dsRedisPing :: "redis_options \<Rightarrow> error option"

definition NewPool :: "datastore_lib \<Rightarrow> string \<Rightarrow> int \<Rightarrow> int \<Rightarrow> (error + pgx_config) \<times> res_event list" where
  "NewPool lib databaseURL maxConns minConns =
     (case dsParseConfig lib databaseURL of
        Inl err \<Rightarrow> (Inl (wrap ''parsing database URL'' err), [])
      | Inr parsed \<Rightarrow>
          let config = parsed\<lparr>pcMaxConns := maxConns, pcMinConns := minConns, pcMaxConnLifetime := seconds 1800,
                pcMaxConnIdleTime := seconds 300, pcHealthCheckPeriod := seconds 60\<rparr>
          in case dsNewWithConfig lib config of
               Some err \<Rightarrow> (Inl (wrap ''creating connection pool'' err), [])
             | None \<Rightarrow>
                 (case dsPgPing lib config of
                    Some err \<Rightarrow> (Inl (wrap ''pinging database'' err), [Opened (PgPool config), Closed (PgPool config)])
                  | None \<Rightarrow> (Inr config, [Opened (PgPool config)])))"

definition NewRedis :: "datastore_lib \<Rightarrow> redis_options \<Rightarrow> (error + redis_options) \<times> res_event list" where
  "NewRedis lib opts =
     (case dsRedisPing lib opts of
        Some err \<Rightarrow> (Inl (wrap ''pinging Redis'' err), [Opened (RedisClient opts), Closed (RedisClient opts)])
      | None \<Rightarrow> (Inr opts, [Opened (RedisClient opts)]))"

section \<open>Logging\<close>

datatype log_level = DebugLevel | InfoLevel | WarnLevel | ErrorLevel
datatype log_format = ConsoleWriter | JsonRFC3339Nano

definition configureLogger :: "environment \<Rightarrow> log_format \<times> log_level" where
  "configureLogger env =
     (if env ''PRETTY'' = ''true'' then ConsoleWriter else JsonRFC3339Nano,
      if env ''LOG_LEVEL'' = ''debug'' then DebugLevel
      else if env ''LOG_LEVEL'' = ''warn'' then WarnLevel
      else if env ''LOG_LEVEL'' = ''error'' then ErrorLevel
      else InfoLevel)"

section \<open>From the environment to a server\<close>

text \<open>
  The database with its ledger: the migrations act on the tables the services use.  The
  packages, the embedded files with what their scripts do, and what the bootstrap meets.
\<close>

record start_env =
  seConfig :: config_lib
  seEnviron :: environment
  seStores :: datastore_lib
  seMigrations :: "db mig_env"
  seAuthLib :: auth_lib
  seAuth :: auth_env

definition migrate ::
  "start_env \<Rightarrow> Config \<Rightarrow> db mig_db \<Rightarrow> error option \<times> db mig_db \<times> res_event list" where
  "migrate se cfg d =
     (let url = (if cfMigrationDatabaseURL cfg = '''' then cfDatabaseURL cfg else cfMigrationDatabaseURL cfg)
      in case NewPool (seStores se) url 2 0 of
           (Inl err, ev) \<Rightarrow> (Some err, d, ev)
         | (Inr pool, ev) \<Rightarrow>
             (case RunMigrations (seMigrations se) d of (res, d') \<Rightarrow> (res, d', ev @ [Closed (PgPool pool)])))"

definition on_start :: "start_env \<Rightarrow> Config \<Rightarrow> db mig_db \<Rightarrow> error option \<times> db mig_db \<times> res_event list" where
  "on_start se cfg d = (if cfMigrateOnStart cfg then migrate se cfg d else (None, d, []))"

definition bootstrap :: "start_env \<Rightarrow> Config \<Rightarrow> db mig_db \<Rightarrow> error option \<times> db mig_db" where
  "bootstrap se cfg d =
     (if cfBootstrapAdminEmail cfg \<noteq> '''' \<and> cfBootstrapAdminPassword cfg \<noteq> '''' then
        (case BootstrapAdmin (seAuthLib se) (seAuth se) (cfBootstrapAdminEmail cfg) (cfBootstrapAdminPassword cfg)
                (cfBootstrapAdminName cfg) (mdSchema d) of
           (Inl err, t) \<Rightarrow> (Some err, d\<lparr>mdSchema := t\<rparr>)
         | (Inr _, t) \<Rightarrow> (None, d\<lparr>mdSchema := t\<rparr>))
      else (None, d))"

text \<open>
  \<open>startup\<close> is \<^verbatim>\<open>run\<close> up to the handlers: its result, the database, what was opened and closed, and
  the closings deferred until \<^verbatim>\<open>run\<close> returns, the last one first.
\<close>

definition startup ::
  "start_env \<Rightarrow> db mig_db \<Rightarrow> (error + Config) \<times> db mig_db \<times> res_event list \<times> res_event list" where
  "startup se d =
     (case Load (seConfig se) (seEnviron se) of
        Inl err \<Rightarrow> (Inl err, d, [], [])
      | Inr cfg \<Rightarrow>
     (case on_start se cfg d of
        (Some err, d1, ev1) \<Rightarrow> (Inl err, d1, ev1, [])
      | (None, d1, ev1) \<Rightarrow>
     (case NewPool (seStores se) (cfDatabaseURL cfg) (cfDBMaxConns cfg) (cfDBMinConns cfg) of
        (Inl err, ev2) \<Rightarrow> (Inl err, d1, ev1 @ ev2, [])
      | (Inr pool, ev2) \<Rightarrow>
     (case NewRedis (seStores se) (cfRedisOptions cfg) of
        (Inl err, ev3) \<Rightarrow> (Inl err, d1, ev1 @ ev2 @ ev3, [Closed (PgPool pool)])
      | (Inr client, ev3) \<Rightarrow>
          let ev = ev1 @ ev2 @ ev3; deferred = [Closed (RedisClient client), Closed (PgPool pool)] in
          (case bootstrap se cfg d1 of
             (Some err, d2) \<Rightarrow> (Inl err, d2, ev, deferred)
           | (None, d2) \<Rightarrow> (Inr cfg, d2, ev, deferred))))))"

text \<open>
  \<open>run_with listen\<close> is \<^verbatim>\<open>run\<close>, \<open>listen\<close> standing for the part from the router on: given the
  configuration and the database it returns the final error, if any, and the database it leaves.
\<close>

definition run_with ::
  "(Config \<Rightarrow> db \<Rightarrow> error option \<times> db) \<Rightarrow> start_env \<Rightarrow> db mig_db
    \<Rightarrow> error option \<times> db mig_db \<times> res_event list" where
  "run_with listen se d =
     (case startup se d of
        (Inl err, d', ev, deferred) \<Rightarrow> (Some err, d', ev @ deferred)
      | (Inr cfg, d', ev, deferred) \<Rightarrow>
          (case listen cfg (mdSchema d') of (res, t) \<Rightarrow> (res, d'\<lparr>mdSchema := t\<rparr>, ev @ deferred)))"

section \<open>Nothing stays open\<close>

text \<open>The resources left open by a history; none when something is closed that is not open.\<close>

fun left_open :: "res_event list \<Rightarrow> resource list \<Rightarrow> resource list option" where
  "left_open [] held = Some held"
| "left_open (Opened x # es) held = left_open es (x # held)"
| "left_open (Closed x # es) held = (if x \<in> set held then left_open es (remove1 x held) else None)"

lemma left_open_append:
  "left_open (es @ fs) held = (case left_open es held of None \<Rightarrow> None | Some held' \<Rightarrow> left_open fs held')"
  by (induction es held rule: left_open.induct) auto

lemma NewPool_left_open:
  assumes "NewPool lib url mx mn = (res, ev)"
  shows "left_open ev held = Some (case res of Inl _ \<Rightarrow> held | Inr pool \<Rightarrow> PgPool pool # held)"
  using assms by (auto simp: NewPool_def Let_def split: sum.splits option.splits)

lemma NewRedis_left_open:
  assumes "NewRedis lib opts = (res, ev)"
  shows "left_open ev held = Some (case res of Inl _ \<Rightarrow> held | Inr client \<Rightarrow> RedisClient client # held)"
  using assms by (auto simp: NewRedis_def split: option.splits)

lemma on_start_left_open: "on_start se cfg d = (res, d', ev) \<Longrightarrow> left_open ev held = Some held"
  using NewPool_left_open[of "seStores se" _ 2 0]
  by (fastforce simp: on_start_def migrate_def Let_def left_open_append split: if_splits prod.splits sum.splits)

text \<open>
  C32. However \<^verbatim>\<open>run\<close> ends, at whatever step of the start-up it fails, every connection pool and
  client it opened has been closed exactly once by the time it returns.
\<close>

theorem run_closes_everything:
  "\<exists>res d' ev. run_with listen se d = (res, d', ev) \<and> left_open ev [] = Some []"
proof -
  obtain res d' ev deferred where start: "startup se d = (res, d', ev, deferred)" by (rule prod_cases4)
  then have "left_open (ev @ deferred) [] = Some []"
    by (auto simp: startup_def Let_def left_open_append on_start_left_open NewPool_left_open NewRedis_left_open
        split: sum.splits prod.splits option.splits)
  with start show ?thesis by (auto simp: run_with_def split: sum.splits prod.splits)
qed

section \<open>What holds when the server starts to listen\<close>

lemma upsert_admin_admin:
  assumes "upsert_admin now email hash nm d = (Inr x, d')"
  shows "\<exists>u. select_user_by_email d' email = Some u \<and> uRole u = ''admin''"
proof (cases "select_user_by_email d email")
  case None
  then have "find (\<lambda>u. uEmail u = email) (tUsers d) = None" by (simp add: select_user_by_email_def)
  with assms None show ?thesis
    by (auto simp: upsert_admin_def Let_def select_user_by_email_def find_append split: if_splits)
next
  case (Some v)
  let ?f = "\<lambda>u. if uEmail u = email then u\<lparr>uRole := ''admin'', uUpdatedAt := now\<rparr> else u"
  have "uEmail v = email" using Some find_Some_set unfolding select_user_by_email_def by fastforce
  moreover have "select_user_by_email d' email = map_option ?f (select_user_by_email d email)"
    using assms Some by (auto simp: upsert_admin_def Let_def select_user_by_email_def find_map_key split: if_splits)
  ultimately show ?thesis using Some by simp
qed

lemma BootstrapAdmin_admin:
  assumes "BootstrapAdmin lib env email pw nm d = (Inr x, d')"
  shows "\<exists>u. select_user_by_email d' (normalise_email lib email) = Some u \<and> uRole u = ''admin''"
  using assms upsert_admin_admin
  by (fastforce simp: BootstrapAdmin_def Let_def stmt_prims split: if_splits option.splits sum.splits prod.splits)

lemma bootstrap_admin:
  assumes "bootstrap se cfg d = (None, d')"
    and "cfBootstrapAdminEmail cfg \<noteq> ''''" and "cfBootstrapAdminPassword cfg \<noteq> ''''"
  shows "\<exists>u. select_user_by_email (mdSchema d') (normalise_email (seAuthLib se) (cfBootstrapAdminEmail cfg)) = Some u
    \<and> uRole u = ''admin''"
  using assms BootstrapAdmin_admin by (fastforce simp: bootstrap_def split: prod.splits sum.splits)

lemma bootstrap_recorded: "bootstrap se cfg d = (res, d') \<Longrightarrow> recorded d' v = recorded d v"
  by (auto simp: bootstrap_def split: if_splits prod.splits sum.splits)

lemma on_start_recorded:
  assumes "on_start se cfg d = (None, d', ev)" and "cfMigrateOnStart cfg"
    and "collect_migrations (meEntries (seMigrations se)) = Inr ms" and "m \<in> set ms"
  shows "recorded d' (mgVersion m)"
  using assms RunMigrations_records[OF _ assms(3,4)]
  by (auto simp: on_start_def migrate_def Let_def split: prod.splits sum.splits)

lemma startup_Inr:
  assumes "startup se d = (Inr cfg, d2, ev, deferred)"
  obtains d1 ev1 where "Load (seConfig se) (seEnviron se) = Inr cfg" "on_start se cfg d = (None, d1, ev1)"
    "bootstrap se cfg d1 = (None, d2)"
  using assms by (auto simp: startup_def Let_def split: sum.splits prod.splits option.splits)

text \<open>
  C31. The server listens only when it is ready.  Either \<^verbatim>\<open>run\<close> returns an error without listening, or
  it listens with a configuration that was accepted, on a database in which every embedded
  migration is recorded when migrations are enabled, and in which the configured bootstrap
  account, if any, exists with the role admin; what it leaves is that database with the changes
  made while listening.
\<close>

theorem run_listens_ready:
  assumes "run_with listen se d = (res, d', ev)"
    and "collect_migrations (meEntries (seMigrations se)) = Inr ms"
  shows "(\<exists>err. res = Some err \<and> (\<forall>listen'. run_with listen' se d = (res, d', ev)))
    \<or> (\<exists>cfg d2 t. Load (seConfig se) (seEnviron se) = Inr cfg \<and> listen cfg (mdSchema d2) = (res, t) \<and> d' = d2\<lparr>mdSchema := t\<rparr>
         \<and> (cfMigrateOnStart cfg \<longrightarrow> (\<forall>m \<in> set ms. recorded d2 (mgVersion m)))
         \<and> (cfBootstrapAdminEmail cfg \<noteq> '''' \<and> cfBootstrapAdminPassword cfg \<noteq> '''' \<longrightarrow>
             (\<exists>u. select_user_by_email (mdSchema d2) (normalise_email (seAuthLib se) (cfBootstrapAdminEmail cfg)) = Some u
                \<and> uRole u = ''admin'')))"
proof -
  obtain start d2 ev' deferred where start: "startup se d = (start, d2, ev', deferred)" by (rule prod_cases4)
  show ?thesis
  proof (cases start)
    case (Inl err)
    with start assms(1) show ?thesis by (auto simp: run_with_def)
  next
    case (Inr cfg)
    then obtain d1 ev1 where stages: "Load (seConfig se) (seEnviron se) = Inr cfg" "on_start se cfg d = (None, d1, ev1)"
      "bootstrap se cfg d1 = (None, d2)"
      using startup_Inr start by metis
    have "\<exists>t. listen cfg (mdSchema d2) = (res, t) \<and> d' = d2\<lparr>mdSchema := t\<rparr>"
      using start Inr assms(1) by (auto simp: run_with_def split: prod.splits)
    moreover have "\<forall>m \<in> set ms. recorded d2 (mgVersion m)" if "cfMigrateOnStart cfg"
      using on_start_recorded[OF stages(2) that assms(2)] bootstrap_recorded[OF stages(3)] by simp
    ultimately show ?thesis using stages(1) bootstrap_admin[OF stages(3)] by blast
  qed
qed

section \<open>An example\<close>

definition demo_stores :: datastore_lib where
  "demo_stores = \<lparr>dsParseConfig = (\<lambda>url. Inr \<lparr>pcConnString = url, pcMaxConns = 4, pcMinConns = 0, pcMaxConnLifetime = 0,
       pcMaxConnIdleTime = 0, pcHealthCheckPeriod = 0\<rparr>),
     dsNewWithConfig = (\<lambda>_. None), dsPgPing = (\<lambda>_. None), dsRedisPing = (\<lambda>_. None)\<rparr>"

definition demo_start_migrations :: "db mig_env" where
  "demo_start_migrations = \<lparr>meEntries = [(''001_init.sql'', False)], meBody = (\<lambda>p. p), meApply = (\<lambda>_ s. Inr s),
     meTie = (\<lambda>_. 0), meFault = (\<lambda>_. None), meCommit = (\<lambda>_. CommitOk)\<rparr>"

definition demo_start :: start_env where
  "demo_start = \<lparr>seConfig = demo_config_lib, seEnviron = demo_env '''' '''', seStores = demo_stores,
     seMigrations = demo_start_migrations, seAuthLib = demo_auth, seAuth = demo_auth_env\<rparr>"

definition demo_start_db :: "db \<Rightarrow> db mig_db" where
  "demo_start_db t = \<lparr>mdLedger = None, mdSchema = t\<rparr>"

lemma demo_start_collect:
  "collect_migrations (meEntries demo_start_migrations) = Inr [\<lparr>mgVersion = 1, mgName = ''init'', mgPath = ''migrations/001_init.sql''\<rparr>]"
  by (simp add: demo_start_migrations_def HasSuffix_def parseMigrationFilename_def TrimSuffix_def ParseInt_def ParseUint_def
      is_digit_def digit_val_def)

lemma demo_start_config:
  obtains cfg where "Load demo_config_lib (demo_env '''' '''') = Inr cfg" "cfMigrateOnStart cfg"
    "cfBootstrapAdminEmail cfg = ''''"
proof -
  obtain opts where "Load demo_config_lib (demo_env '''' '''') = Inr (build_config demo_config_lib (demo_env '''' '''') opts [])"
    using demo_Load[OF demo_conns(1) _ demo_no_proxies] by auto
  then show ?thesis
    by (rule that) (simp_all add: build_config_def Let_def getBool_def demo_env_def ToLower_def is_ascii_def)
qed

lemma demo_start_runs:
  "\<exists>cfg d2 ev. Load demo_config_lib (demo_env '''' '''') = Inr cfg \<and>
     run_with listen demo_start (demo_start_db t)
       = (fst (listen cfg t), d2\<lparr>mdSchema := snd (listen cfg t)\<rparr>, ev) \<and> recorded d2 1"
proof -
  obtain cfg where cfg: "Load demo_config_lib (demo_env '''' '''') = Inr cfg" "cfMigrateOnStart cfg" "cfBootstrapAdminEmail cfg = ''''"
    by (rule demo_start_config)
  let ?d2 = "\<lparr>mdLedger = Some [(1, ''init'')], mdSchema = t\<rparr>"
  have run: "RunMigrations demo_start_migrations (demo_start_db t) = (None, ?d2)"
    using demo_start_collect
    by (simp add: RunMigrations_def demo_start_db_def create_ledger_def apply_migration_def order_by_def
        recorded_def record_version_def demo_start_migrations_def)
  show ?thesis
    apply (intro exI[of _ cfg] exI[of _ ?d2])
    using cfg run
    by (simp add: run_with_def startup_def demo_start_def on_start_def migrate_def NewPool_def NewRedis_def demo_stores_def
        bootstrap_def recorded_def Let_def split: prod.splits)
qed

text \<open>The same start with a bootstrap account configured.\<close>

definition demo_boot_env :: environment where
  "demo_boot_env = (demo_env '''' '''')(''BOOTSTRAP_ADMIN_EMAIL'' := ''root@x.org'', ''BOOTSTRAP_ADMIN_PASSWORD'' := ''correct horse'')"

definition demo_boot :: start_env where
  "demo_boot = demo_start\<lparr>seEnviron := demo_boot_env\<rparr>"

lemma demo_root [simp]:
  "TrimSpace ''root@x.org'' = ''root@x.org''" "normalise_email demo_auth ''root@x.org'' = ''root@x.org''"
proof -
  show t: "TrimSpace ''root@x.org'' = ''root@x.org''"
    by (simp add: TrimSpace_def trim_words.simps space_encodings_def)
  have "map lower_char ''root@x.org'' = ''root@x.org''" by code_simp
  with t show "normalise_email demo_auth ''root@x.org'' = ''root@x.org''"
    by (simp add: normalise_email_def ToLower_def is_ascii_def)
qed

lemma demo_boot_config:
  obtains cfg where "Load demo_config_lib demo_boot_env = Inr cfg" "cfMigrateOnStart cfg"
    "cfBootstrapAdminEmail cfg = ''root@x.org''" "cfBootstrapAdminPassword cfg = ''correct horse''"
    "cfBootstrapAdminName cfg = ''System Admin''"
proof -
  have vars: "demo_boot_env ''JWT_SECRET'' = replicate 40 CHR ''k''" "demo_boot_env ''DATABASE_URL'' = ''postgres://db''"
    "demo_boot_env ''REDIS_URL'' = ''''" "demo_boot_env ''TRUSTED_PROXIES'' = ''''" "demo_boot_env ''DB_MAX_CONNS'' = ''''"
    "demo_boot_env ''DB_MIN_CONNS'' = ''''" "demo_boot_env ''MIGRATE_ON_START'' = ''''"
    "demo_boot_env ''BOOTSTRAP_ADMIN_EMAIL'' = ''root@x.org''" "demo_boot_env ''BOOTSTRAP_ADMIN_PASSWORD'' = ''correct horse''"
    "demo_boot_env ''BOOTSTRAP_ADMIN_NAME'' = ''''"
    by (simp_all add: demo_boot_env_def demo_env_def)
  obtain opts where "loadRedisOptions (clParseURL demo_config_lib) demo_boot_env = Inr opts"
    unfolding loadRedisOptions_def Let_def vars(3) by simp
  then have "Load demo_config_lib demo_boot_env = Inr (build_config demo_config_lib demo_boot_env opts [])"
    by (rule Load_accepts) (simp_all add: getEnv_def getInt_def vars demo_no_proxies demo_secret)
  then show ?thesis
    by (rule that) (simp_all add: build_config_def Let_def getBool_def getEnv_def vars ToLower_def is_ascii_def)
qed

lemma demo_boot_runs: "\<exists>d' ev. run_with (\<lambda>_ t. (None, t)) demo_boot (demo_start_db empty_db) = (None, d', ev)"
proof -
  obtain cfg where cfg: "Load demo_config_lib demo_boot_env = Inr cfg" "cfMigrateOnStart cfg"
    "cfBootstrapAdminEmail cfg = ''root@x.org''" "cfBootstrapAdminPassword cfg = ''correct horse''"
    "cfBootstrapAdminName cfg = ''System Admin''"
    by (rule demo_boot_config)
  have run: "RunMigrations demo_start_migrations (demo_start_db empty_db) = (None, \<lparr>mdLedger = Some [(1, ''init'')], mdSchema = empty_db\<rparr>)"
    using demo_start_collect
    by (simp add: RunMigrations_def demo_start_db_def create_ledger_def apply_migration_def order_by_def
        recorded_def record_version_def demo_start_migrations_def)
  have "\<exists>t. BootstrapAdmin demo_auth demo_auth_env ''root@x.org'' ''correct horse'' ''System Admin'' empty_db = (Inr (), t)"
    by (simp add: BootstrapAdmin_def Let_def stmt_prims minPasswordLen_def)
      (simp add: demo_auth_def demo_auth_env_def upsert_admin_def text_ok_def select_user_by_email_def empty_db_def)
  with cfg run show ?thesis
    by (auto simp: run_with_def startup_def demo_boot_def demo_start_def on_start_def migrate_def NewPool_def NewRedis_def
        demo_stores_def bootstrap_def Let_def split: prod.splits)
qed

theorem run_listens_ready_witness:
  "\<exists>d' ev u. run_with (\<lambda>_ t. (None, t)) demo_boot (demo_start_db empty_db) = (None, d', ev)
     \<and> collect_migrations (meEntries (seMigrations demo_boot)) = Inr [\<lparr>mgVersion = 1, mgName = ''init'', mgPath = ''migrations/001_init.sql''\<rparr>]
     \<and> recorded d' 1 \<and> select_user_by_email (mdSchema d') ''root@x.org'' = Some u \<and> uRole u = ''admin''"
proof -
  obtain d' ev where run: "run_with (\<lambda>_ t. (None, t)) demo_boot (demo_start_db empty_db) = (None, d', ev)"
    using demo_boot_runs by blast
  have files: "collect_migrations (meEntries (seMigrations demo_boot))
      = Inr [\<lparr>mgVersion = 1, mgName = ''init'', mgPath = ''migrations/001_init.sql''\<rparr>]"
    using demo_start_collect by (simp add: demo_boot_def demo_start_def)
  have env: "seConfig demo_boot = demo_config_lib" "seEnviron demo_boot = demo_boot_env" "seAuthLib demo_boot = demo_auth"
    by (simp_all add: demo_boot_def demo_start_def)
  obtain cfg where "Load demo_config_lib demo_boot_env = Inr cfg" "cfMigrateOnStart cfg"
    "cfBootstrapAdminEmail cfg = ''root@x.org''" "cfBootstrapAdminPassword cfg = ''correct horse''"
    by (rule demo_boot_config)
  with run_listens_ready[OF run files] obtain u where "recorded d' 1"
    "select_user_by_email (mdSchema d') ''root@x.org'' = Some u" "uRole u = ''admin''"
    by (auto simp: env)
  with run files show ?thesis by blast
qed

end
