(* ===== verification/Server.thy ===== *)
theory Server
  imports Operations Startup
begin

text \<open>
  cmd/server: start-up, the route table with its middleware chains, and the health probes.  The
  router and the rate limiter (third-party packages) are parameters, constrained where a
  theorem needs it by what their documentation says.  Shown here: serving a request is at most
  one operation of the services, nothing an administrator alone may change is changed by
  anyone else, and what start-up guarantees before the first request.
\<close>

section \<open>Requests as the services see them\<close>

record 'r world =
  woStore :: 'r
  woDb :: db

datatype payload =
    PUser User | PLogin LoginResponse | PEvent Event | PEvents "Event list" | PDraw DrawResult
  | PBookings "Booking list" | PText string

definition map_response :: "('a \<Rightarrow> 'b) \<Rightarrow> 'a response \<Rightarrow> 'b response" where
  "map_response f rs =
     \<lparr>rsStatus = rsStatus rs, rsSuccess = rsSuccess rs, rsData = map_option f (rsData rs), rsError = rsError rs,
      rsCode = rsCode rs, rsMeta = rsMeta rs\<rparr>"

text \<open>What one request meets: clocks, failures, the orders the server picks, query values, pings.\<close>

record 'r request_env =
  reNow :: instant
  reLatency :: duration
  reQuery :: "string \<Rightarrow> string"
  reFaults :: faults
  reAuth :: auth_env
  reCreate :: create_env
  reTx :: reload_env
  reDraw :: draw_env
  reBook :: "'r book_env"
  reFuel :: nat
  reTieEvents :: "event_row \<Rightarrow> nat"
  reTieBookings :: "Booking \<Rightarrow> nat"
  reTieDraws :: "LotteryDraw \<Rightarrow> nat"
  rePgPing :: "error option"
  reRedisPing :: "error option"

text \<open>
  The packages the server is built on: the services' libraries, Redis, JSON, chi's \<^verbatim>\<open>RequestID\<close>
  and \<^verbatim>\<open>Timeout\<close>, httprate's limiters (requests, window and, for \<^verbatim>\<open>Limit\<close>, the key function), and
  chi's choice among the registered patterns with the parameters it binds.
\<close>

record 'r server_lib =
  slAuth :: auth_lib
  slRedis :: "'r redis_api"
  slEnc :: "payload response \<Rightarrow> string"
  slProbeEnc :: "string \<Rightarrow> (string \<times> string) list \<Rightarrow> string"
  slRegister :: "RegisterRequest json_decoder"
  slLogin :: "LoginRequest json_decoder"
  slCreate :: "CreateEventRequest json_decoder"
  slUnmarshalEmail :: "string \<Rightarrow> string option"
  slRequestID :: "'r world handler \<Rightarrow> 'r world handler"
  slTimeout :: "'r world handler \<Rightarrow> 'r world handler"
  slLimitByIP :: "int \<Rightarrow> duration \<Rightarrow> 'r world handler \<Rightarrow> 'r world handler"
  slLimit :: "int \<Rightarrow> duration \<Rightarrow> (request \<Rightarrow> string \<times> request) \<Rightarrow> 'r world handler \<Rightarrow> 'r world handler"
  slRoute :: "(string \<times> string) list \<Rightarrow> request \<Rightarrow> (nat \<times> (string \<Rightarrow> string)) option"
  slNotFound :: "call list"

definition enc_unit :: "('r, 'm) server_lib_scheme \<Rightarrow> unit response \<Rightarrow> string" where
  "enc_unit lib rs = slEnc lib (map_response (\<lambda>_. PText '''') rs)"

definition body_of :: "request \<Rightarrow> body" where
  "body_of r = (case rqBody r of None \<Rightarrow> ('''', None) | Some b \<Rightarrow> b)"

text \<open>A handler that answers from the database, and one that may change it.\<close>

definition reading ::
  "('r, 'm) server_lib_scheme \<Rightarrow> ('a \<Rightarrow> payload) \<Rightarrow> (request \<Rightarrow> db \<Rightarrow> 'a response) \<Rightarrow> 'r world handler" where
  "reading lib C h r w = returns r (respond (slEnc lib) (map_response C (h r (woDb w)))) w"

definition writing ::
  "('r, 'm) server_lib_scheme \<Rightarrow> ('a \<Rightarrow> payload) \<Rightarrow> (request \<Rightarrow> db \<Rightarrow> 'a response \<times> db) \<Rightarrow> 'r world handler" where
  "writing lib C h r w =
     (case h r (woDb w) of
        (rs, d') \<Rightarrow> returns r (respond (slEnc lib) (map_response C rs)) (w\<lparr>woDb := d'\<rparr>))"

text \<open>
  \<^verbatim>\<open>bookingHandler.Book\<close>.  The last case is that of a booking that has not returned within the
  fuel; \<open>booking_returns\<close> (theory \<open>Booking_Service\<close>) says how much is enough.
\<close>

definition booking ::
  "('r, 'm) server_lib_scheme \<Rightarrow> booking_service \<Rightarrow> ('r, 'n) request_env_scheme \<Rightarrow> 'r world handler" where
  "booking lib sv env r w =
     (case Book (slRedis lib) sv (reBook env) (reFuel env) (rqParam r ''eventID'') (GetUserID r) (woStore w) (woDb w) of
        Some (rs, hs, s', d') \<Rightarrow>
          returns r (map (\<lambda>(k, v). HeaderSet k v) hs @ respond (slEnc lib) (map_response PText rs))
            (w\<lparr>woStore := s', woDb := d'\<rparr>)
      | None \<Rightarrow> returns r [] w)"

section \<open>Probes\<close>

definition writeJSON :: "int \<Rightarrow> string \<Rightarrow> call list" where
  "writeJSON status body =
     [HeaderSet ''Content-Type'' ''application/json; charset=utf-8'', WriteHeader status, Write body]"

definition livenessHandler :: "('r, 'm) server_lib_scheme \<Rightarrow> 'r world handler" where
  "livenessHandler lib r w = returns r (writeJSON 200 (slProbeEnc lib ''ok'' [])) w"

definition readinessHandler ::
  "('r, 'm) server_lib_scheme \<Rightarrow> ('r, 'n) request_env_scheme \<Rightarrow> 'r world handler" where
  "readinessHandler lib env r w =
     (let pg = (case rePgPing env of None \<Rightarrow> ''ok'' | Some err \<Rightarrow> ''down: '' @ Error_text err);
          rd = (case reRedisPing env of None \<Rightarrow> ''ok'' | Some err \<Rightarrow> ''down: '' @ Error_text err);
          status = (if rePgPing env \<noteq> None \<or> reRedisPing env \<noteq> None then 503 else 200)
      in returns r (writeJSON status (slProbeEnc lib (if status = 200 then ''ok'' else ''degraded'')
           [(''postgres'', pg), (''redis'', rd)])) w)"

section \<open>The route table\<close>

record 'r route =
  rtMethod :: string
  rtPattern :: string
  rtHandler :: "'r world handler"

definition api_limit :: "('r, 'm) server_lib_scheme \<Rightarrow> Config \<Rightarrow> 'r world handler \<Rightarrow> 'r world handler" where
  "api_limit lib cfg = slLimitByIP lib (cfAPILimitRequests cfg) (cfAPILimitWindow cfg)"

definition auth_limit :: "('r, 'm) server_lib_scheme \<Rightarrow> Config \<Rightarrow> 'r world handler \<Rightarrow> 'r world handler" where
  "auth_limit lib cfg = slLimitByIP lib (cfAuthLimitRequests cfg) (cfAuthLimitWindow cfg)"

definition account_limit :: "('r, 'm) server_lib_scheme \<Rightarrow> Config \<Rightarrow> 'r world handler \<Rightarrow> 'r world handler" where
  "account_limit lib cfg =
     slLimit lib (cfAccountLimitRequests cfg) (cfAccountLimitWindow cfg)
       (LoginAccountKey (alUnicodeLower (slAuth lib)) (slUnmarshalEmail lib))"

definition authenticated ::
  "('r, 'm) server_lib_scheme \<Rightarrow> Config \<Rightarrow> ('r, 'n) request_env_scheme \<Rightarrow> 'r world handler \<Rightarrow> 'r world handler" where
  "authenticated lib cfg env = Authenticate (alJwt (slAuth lib)) (enc_unit lib) (reNow env) (cfJWTSecret cfg)"

definition admin_only ::
  "('r, 'm) server_lib_scheme \<Rightarrow> Config \<Rightarrow> ('r, 'n) request_env_scheme \<Rightarrow> 'r world handler \<Rightarrow> 'r world handler" where
  "admin_only lib cfg env next = authenticated lib cfg env (RequireAdmin (enc_unit lib) next)"

definition auth_svc :: "Config \<Rightarrow> auth_service" where
  "auth_svc cfg = \<lparr>asJwtSecret = cfJWTSecret cfg, asJwtExpiry = cfJWTExpiry cfg\<rparr>"

definition public_routes ::
  "('r, 'm) server_lib_scheme \<Rightarrow> Config \<Rightarrow> ('r, 'n) request_env_scheme \<Rightarrow> 'r route list" where
  "public_routes lib cfg env =
     [\<lparr>rtMethod = ''POST'', rtPattern = ''/auth/register'', rtHandler = auth_limit lib cfg
        (writing lib PUser (\<lambda>r. handle_Register (slRegister lib) (slAuth lib) (reAuth env) (body_of r)))\<rparr>,
      \<lparr>rtMethod = ''POST'', rtPattern = ''/auth/login'', rtHandler = auth_limit lib cfg (account_limit lib cfg
        (reading lib PLogin (\<lambda>r. handle_Login (slLogin lib) (slAuth lib) (auth_svc cfg) (reAuth env) (body_of r))))\<rparr>,
      \<lparr>rtMethod = ''GET'', rtPattern = ''/events'', rtHandler =
        reading lib PEvents (\<lambda>r. handle_List (reFaults env) (reTieEvents env)
          (reQuery env ''status'') (reQuery env ''page'') (reQuery env ''limit''))\<rparr>,
      \<lparr>rtMethod = ''GET'', rtPattern = ''/events/{id}'', rtHandler =
        reading lib PEvent (\<lambda>r. handle_GetByID (reFaults env) (rqParam r ''id''))\<rparr>,
      \<lparr>rtMethod = ''GET'', rtPattern = ''/events/{eventID}/results'', rtHandler =
        reading lib PDraw (\<lambda>r. Results (reFaults env) (reTieDraws env) (rqParam r ''eventID''))\<rparr>]"

definition user_routes ::
  "('r, 'm) server_lib_scheme \<Rightarrow> Config \<Rightarrow> ('r, 'n) request_env_scheme \<Rightarrow> 'r route list" where
  "user_routes lib cfg env =
     [\<lparr>rtMethod = ''GET'', rtPattern = ''/auth/me'', rtHandler = authenticated lib cfg env
        (reading lib PUser (\<lambda>r. handle_Me (reFaults env) (GetUserID r)))\<rparr>,
      \<lparr>rtMethod = ''POST'', rtPattern = ''/events/{eventID}/book'', rtHandler = authenticated lib cfg env
        (booking lib (NewService (cfLockTTL cfg) (cfLockWait cfg)) env)\<rparr>,
      \<lparr>rtMethod = ''GET'', rtPattern = ''/me/bookings'', rtHandler = authenticated lib cfg env
        (reading lib PBookings (\<lambda>r. MyBookings (reFaults env) (reTieBookings env) (GetUserID r)))\<rparr>]"

definition admin_routes ::
  "('r, 'm) server_lib_scheme \<Rightarrow> Config \<Rightarrow> ('r, 'n) request_env_scheme \<Rightarrow> 'r route list" where
  "admin_routes lib cfg env =
     [\<lparr>rtMethod = ''POST'', rtPattern = ''/events'', rtHandler = admin_only lib cfg env
        (writing lib PEvent (\<lambda>r. handle_Create (slCreate lib) (cfMaxWinners cfg) (reCreate env) (body_of r) (GetUserID r)))\<rparr>,
      \<lparr>rtMethod = ''PUT'', rtPattern = ''/events/{id}/close'', rtHandler = admin_only lib cfg env
        (writing lib PEvent (\<lambda>r. handle_Close (reTx env) (rqParam r ''id'')))\<rparr>,
      \<lparr>rtMethod = ''PUT'', rtPattern = ''/events/{id}/cancel'', rtHandler = admin_only lib cfg env
        (writing lib PEvent (\<lambda>r. handle_Cancel (reTx env) (rqParam r ''id'')))\<rparr>,
      \<lparr>rtMethod = ''GET'', rtPattern = ''/events/{eventID}/bookings'', rtHandler = admin_only lib cfg env
        (reading lib PBookings (\<lambda>r. ListByEvent (reFaults env) (reTieBookings env) (rqParam r ''eventID'')))\<rparr>,
      \<lparr>rtMethod = ''POST'', rtPattern = ''/events/{eventID}/draw'', rtHandler = admin_only lib cfg env
        (writing lib PDraw (\<lambda>r. Draw (reDraw env) (rqParam r ''eventID'')))\<rparr>,
      \<lparr>rtMethod = ''POST'', rtPattern = ''/admin/users/{id}/promote'', rtHandler = admin_only lib cfg env
        (writing lib PUser (\<lambda>r. handle_Promote (reAuth env) (rqParam r ''id'')))\<rparr>]"

text \<open>The probes stand outside the group with the API limit.\<close>

definition routes ::
  "('r, 'm) server_lib_scheme \<Rightarrow> Config \<Rightarrow> ('r, 'n) request_env_scheme \<Rightarrow> 'r route list" where
  "routes lib cfg env =
     [\<lparr>rtMethod = ''GET'', rtPattern = ''/health'', rtHandler = livenessHandler lib\<rparr>,
      \<lparr>rtMethod = ''GET'', rtPattern = ''/ready'', rtHandler = readinessHandler lib env\<rparr>]
     @ map (\<lambda>rt. rt\<lparr>rtHandler := api_limit lib cfg (rtHandler rt)\<rparr>)
         (public_routes lib cfg env @ user_routes lib cfg env @ admin_routes lib cfg env)"

definition dispatch ::
  "('r, 'm) server_lib_scheme \<Rightarrow> Config \<Rightarrow> ('r, 'n) request_env_scheme \<Rightarrow> 'r world handler" where
  "dispatch lib cfg env r w =
     (let rts = routes lib cfg env in
      case slRoute lib (map (\<lambda>rt. (rtMethod rt, rtPattern rt)) rts) r of
        Some (i, ps) \<Rightarrow>
          if i < length rts then on_copy (\<lambda>r. r\<lparr>rqParam := ps\<rparr>) (rtHandler (rts ! i)) r w
          else returns r (slNotFound lib) w
      | None \<Rightarrow> returns r (slNotFound lib) w)"

definition outer_chain ::
  "('r, 'm) server_lib_scheme \<Rightarrow> Config \<Rightarrow> ('r, 'n) request_env_scheme \<Rightarrow> 'r world handler \<Rightarrow> 'r world handler" where
  "outer_chain lib cfg env inner =
     Logger (reLatency env) (Recoverer (enc_unit lib) (ClientIP (cfTrustedProxies cfg) (slRequestID lib inner)))"

definition inner_chain ::
  "('r, 'm) server_lib_scheme \<Rightarrow> Config \<Rightarrow> 'r world handler \<Rightarrow> 'r world handler" where
  "inner_chain lib cfg next =
     SecurityHeaders (BodyLimit (cfMaxRequestBytes cfg) (slTimeout lib
       (if cfCORSAllowedOrigins cfg \<noteq> [] then CORS (alUnicodeLower (slAuth lib)) (cfCORSAllowedOrigins cfg) next else next)))"

definition serve ::
  "('r, 'm) server_lib_scheme \<Rightarrow> Config \<Rightarrow> ('r, 'n) request_env_scheme \<Rightarrow> 'r world handler" where
  "serve lib cfg env = outer_chain lib cfg env (inner_chain lib cfg (dispatch lib cfg env))"

section \<open>What a request may do\<close>

text \<open>
  Nothing; register a user; book for the user of the token it carries; or, with an
  administrator's token, any operation of the services.
\<close>

definition allowed ::
  "('r, 'm) server_lib_scheme \<Rightarrow> Config \<Rightarrow> instant \<Rightarrow> request \<Rightarrow> 'r world \<Rightarrow> 'r world \<Rightarrow> bool" where
  "allowed lib cfg now r w w' \<longleftrightarrow>
     woDb w' = woDb w \<or>
     (\<exists>aenv req res. Register (slAuth lib) aenv req (woDb w) = (res, woDb w')) \<or>
     (\<exists>c. accepted (alJwt (slAuth lib)) now (cfJWTSecret cfg) r = Some c \<and>
        ((\<exists>tenv eid res. createBooking (tenv :: tx_env) eid (clUserID c) (woDb w) = (res, woDb w')) \<or>
         clRole c = ''admin'' \<and> op_step (slAuth lib) (woDb w) (woDb w')))"

lemma accepted_header: "rqHeader r' = rqHeader r \<Longrightarrow> accepted jwt now secret r' = accepted jwt now secret r"
  by (simp add: accepted_def bearer_token_def Header_Get_def)

lemma allowed_by_header: "by_header (allowed lib cfg now)"
  unfolding by_header_def allowed_def using accepted_header by metis

lemma reading_allowed: "obeys (allowed lib cfg now) (reading lib C h)"
  by (simp add: obeys_def allowed_def reading_def returns_def)

lemma oState_writing: "oState (writing lib C h r w) = w\<lparr>woDb := snd (h r (woDb w))\<rparr>"
  by (simp add: writing_def returns_def split: prod.splits)

lemma authenticated_allowed:
  assumes "\<And>r c w. accepted (alJwt (slAuth lib)) (reNow env) (cfJWTSecret cfg) r = Some c \<Longrightarrow>
    allowed lib cfg (reNow env) r w (oState (next (set_principal c r) w))"
  shows "obeys (allowed lib cfg (reNow env)) (authenticated lib cfg env next)"
  using assms
  by (auto simp: obeys_def authenticated_def Authenticate_accepted on_copy_def unauthorized_def returns_def
      by_headerD(1)[OF allowed_by_header] split: option.splits)

lemma admin_only_allowed:
  assumes "\<And>r w. woDb (oState (next r w)) = woDb w \<or> op_step (slAuth lib) (woDb w) (woDb (oState (next r w)))"
  shows "obeys (allowed lib cfg (reNow env)) (admin_only lib cfg env next)"
  unfolding admin_only_def
proof (rule authenticated_allowed)
  fix r c w
  assume acc: "accepted (alJwt (slAuth lib)) (reNow env) (cfJWTSecret cfg) r = Some c"
  then show "allowed lib cfg (reNow env) r w (oState (RequireAdmin (enc_unit lib) next (set_principal c r) w))"
    using assms[of "set_principal c r" w]
    by (auto simp: RequireAdmin_def set_principal_def returns_def allowed_def)
qed

text \<open>The handlers that write: at most one operation each.\<close>

lemma createBooking_truncate: "createBooking (env :: 'm tx_env_scheme) = createBooking (tx_env.truncate env)"
proof -
  have fields: "txFault (tx_env.truncate env) = txFault env" "txCommit (tx_env.truncate env) = txCommit env"
    "txNow (tx_env.truncate env) = txNow env"
    by (simp_all add: tx_env.defs)
  show ?thesis unfolding createBooking_def createBooking_body_def with_tx_def fields ..
qed

lemma booking_db:
  assumes "rqUserID r = Some uid"
  shows "woDb (oState (booking lib sv env r w)) = woDb w
    \<or> (\<exists>tenv eid res. createBooking (tenv :: tx_env) eid uid (woDb w) = (res, woDb (oState (booking lib sv env r w))))"
proof (cases "Book (slRedis lib) sv (reBook env) (reFuel env) (rqParam r ''eventID'') (GetUserID r) (woStore w) (woDb w)")
  case (Some x)
  obtain rs hs s' d' where x: "x = (rs, hs, s', d')" by (rule prod_cases4)
  then have st: "woDb (oState (booking lib sv env r w)) = d'" using Some by (simp add: booking_def returns_def)
  have "d' = woDb w \<or> (\<exists>eid res. BookWithLock (slRedis lib) sv (reBook env) (reFuel env) eid uid (woStore w) (woDb w) = Some (res, s', d'))"
    using Some assms x by (auto simp: Book_def GetUserID_def split: option.splits prod.splits sum.splits)
  then show ?thesis
    unfolding st using BookWithLock_db createBooking_truncate by metis
qed (simp add: booking_def returns_def)

lemma handle_Register_db:
  "snd (handle_Register dec lib env b d) = d \<or> (\<exists>req res. Register lib env req d = (res, snd (handle_Register dec lib env b d)))"
proof (cases "DecodeJSON dec b")
  case (Inr req)
  then show ?thesis by (cases "Register lib env req d") (auto simp: handle_Register_def)
qed (simp add: handle_Register_def)

lemma admin_handlers_db:
  fixes d :: db
  shows "snd (handle_Create dec mw cenv b u d) = d \<or> op_step lib d (snd (handle_Create dec mw cenv b u d))"
    and "snd (handle_Close (tenv :: reload_env) p d) = d \<or> op_step lib d (snd (handle_Close tenv p d))"
    and "snd (handle_Cancel (tenv :: reload_env) p d) = d \<or> op_step lib d (snd (handle_Cancel tenv p d))"
    and "snd (Draw denv p d) = d \<or> op_step lib d (snd (Draw denv p d))"
    and "snd (handle_Promote aenv p d) = d \<or> op_step lib d (snd (handle_Promote aenv p d))"
proof -
  show "snd (handle_Create dec mw cenv b u d) = d \<or> op_step lib d (snd (handle_Create dec mw cenv b u d))"
    by (auto simp: handle_Create_def split: sum.splits option.splits prod.splits intro: op_step.create)
  show "snd (handle_Close tenv p d) = d \<or> op_step lib d (snd (handle_Close tenv p d))"
    by (auto simp: handle_Close_def split: sum.splits intro: op_step.close[OF prod.collapse[symmetric]])
  show "snd (handle_Cancel tenv p d) = d \<or> op_step lib d (snd (handle_Cancel tenv p d))"
    by (auto simp: handle_Cancel_def split: sum.splits intro: op_step.cancel[OF prod.collapse[symmetric]])
  show "snd (Draw denv p d) = d \<or> op_step lib d (snd (Draw denv p d))"
    by (auto simp: Draw_def split: sum.splits option.splits prod.splits intro: op_step.draw)
  show "snd (handle_Promote aenv p d) = d \<or> op_step lib d (snd (handle_Promote aenv p d))"
    by (auto simp: handle_Promote_def split: sum.splits option.splits prod.splits intro: op_step.promote)
qed

text \<open>
  What the parameters of the server are relied on for: the packages' middlewares hand a request
  on with its headers, or answer by themselves without touching the database.  A limiter runs its
  key function on the request it hands on, so this is asked for key functions that keep headers.
\<close>

definition middleware_ok :: "('r, 'm) server_lib_scheme \<Rightarrow> bool" where
  "middleware_ok lib \<longleftrightarrow>
     passing_middleware (slRequestID lib) \<and> passing_middleware (slTimeout lib) \<and>
     (\<forall>n win. passing_middleware (slLimitByIP lib n win)) \<and>
     (\<forall>n win key. (\<forall>r. rqHeader (snd (key r)) = rqHeader r) \<longrightarrow> passing_middleware (slLimit lib n win key))"

lemma middleware_keeps:
  assumes "middleware_ok lib" and "by_header P" and "obeys P next"
  shows "obeys P (slRequestID lib next)" "obeys P (slTimeout lib next)" "obeys P (api_limit lib cfg next)"
    "obeys P (auth_limit lib cfg next)" "obeys P (account_limit lib cfg next)"
proof -
  note ok = assms(1)[unfolded middleware_ok_def]
  show "obeys P (slRequestID lib next)" "obeys P (slTimeout lib next)" "obeys P (api_limit lib cfg next)"
    "obeys P (auth_limit lib cfg next)"
    using ok assms(2,3) passing_middleware.keeps unfolding api_limit_def auth_limit_def by blast+
  have "rqHeader (snd (LoginAccountKey uni unmarshal r)) = rqHeader r" for uni unmarshal r
    by (simp add: LoginAccountKey_def Let_def split: option.splits prod.splits)
  then have "passing_middleware (slLimit lib n win (LoginAccountKey uni unmarshal))" for n win uni unmarshal
    using ok by blast
  then show "obeys P (account_limit lib cfg next)"
    using assms(2,3) passing_middleware.keeps unfolding account_limit_def by blast
qed

lemma writing_admin:
  assumes "\<And>r d. snd (h r d) = d \<or> op_step (slAuth lib) d (snd (h r d))"
  shows "obeys (allowed lib cfg (reNow env)) (admin_only lib cfg env (writing lib C h))"
  by (rule admin_only_allowed) (simp add: oState_writing assms)

lemma reading_admin: "obeys (allowed lib cfg (reNow env)) (admin_only lib cfg env (reading lib C h))"
  by (rule admin_only_allowed) (simp add: reading_def returns_def)

lemma reading_authenticated: "obeys (allowed lib cfg (reNow env)) (authenticated lib cfg env (reading lib C h))"
  by (rule authenticated_allowed) (simp add: reading_def returns_def allowed_def)

lemma register_allowed:
  "obeys (allowed lib cfg now)
     (writing lib PUser (\<lambda>r. handle_Register (slRegister lib) (slAuth lib) aenv (body_of r)))"
  using handle_Register_db by (simp add: obeys_def allowed_def oState_writing) metis

lemma booking_allowed: "obeys (allowed lib cfg (reNow env)) (authenticated lib cfg env (booking lib sv env))"
proof (rule authenticated_allowed)
  fix r c w
  assume acc: "accepted (alJwt (slAuth lib)) (reNow env) (cfJWTSecret cfg) r = Some c"
  have "rqUserID (set_principal c r) = Some (clUserID c)" by (simp add: set_principal_def)
  from booking_db[OF this] acc show "allowed lib cfg (reNow env) r w (oState (booking lib sv env (set_principal c r) w))"
    unfolding allowed_def by blast
qed

lemma routes_allowed:
  assumes "middleware_ok lib" and "rt \<in> set (routes lib cfg env)"
  shows "obeys (allowed lib cfg (reNow env)) (rtHandler rt)"
proof -
  note keeps = middleware_keeps[OF assms(1) allowed_by_header]
  have "obeys (allowed lib cfg (reNow env)) (rtHandler rt')"
    if "rt' \<in> set (public_routes lib cfg env @ user_routes lib cfg env @ admin_routes lib cfg env)" for rt'
    using that
    by (auto simp: public_routes_def user_routes_def admin_routes_def
        intro!: keeps reading_allowed register_allowed booking_allowed reading_authenticated reading_admin
          writing_admin admin_handlers_db)
  moreover have "obeys (allowed lib cfg (reNow env)) (livenessHandler lib)"
    "obeys (allowed lib cfg (reNow env)) (readinessHandler lib env)"
    by (simp_all add: obeys_def livenessHandler_def readinessHandler_def returns_def allowed_def Let_def)
  ultimately show ?thesis
    using assms(2) by (auto simp: routes_def intro!: keeps(3))
qed

lemma dispatch_allowed:
  assumes "middleware_ok lib"
  shows "obeys (allowed lib cfg (reNow env)) (dispatch lib cfg env)"
  unfolding obeys_def
proof (intro allI)
  fix r w
  let ?rts = "routes lib cfg env"
  have same: "allowed lib cfg (reNow env) r w w" by (rule by_headerD(1)[OF allowed_by_header])
  have "allowed lib cfg (reNow env) r w (oState (rtHandler (?rts ! i) (r\<lparr>rqParam := ps\<rparr>) w))" if "i < length ?rts" for i ps
    using obeysD[OF routes_allowed[OF assms nth_mem[OF that]]]
    by (rule by_headerD(2)[OF allowed_by_header, rotated]) simp
  with same show "allowed lib cfg (reNow env) r w (oState (dispatch lib cfg env r w))"
    by (auto simp: dispatch_def Let_def on_copy_def returns_def split: option.splits)
qed

lemma serve_allowed:
  assumes "middleware_ok lib"
  shows "allowed lib cfg (reNow env) r w (oState (serve lib cfg env r w))"
proof -
  let ?P = "allowed lib cfg (reNow env)"
  note keeps = middleware_keeps[OF assms allowed_by_header]
  have "obeys ?P (inner_chain lib cfg (dispatch lib cfg env))"
    unfolding inner_chain_def using dispatch_allowed[OF assms]
    by (auto intro!: security.keeps[OF allowed_by_header] body_limit.keeps[OF allowed_by_header] keeps
        cors.keeps[OF allowed_by_header])
  then have "obeys ?P (serve lib cfg env)"
    unfolding serve_def outer_chain_def
    by (intro logger.keeps[OF allowed_by_header] recoverer.keeps[OF allowed_by_header]
        client_ip.keeps[OF allowed_by_header] keeps)
  then show ?thesis by (rule obeysD)
qed

text \<open>What registering and booking leave alone.\<close>

definition events_and_roles_kept :: "db \<Rightarrow> db \<Rightarrow> bool" where
  "events_and_roles_kept d d' \<longleftrightarrow>
     tEvents d' = tEvents d \<and> tDraws d' = tDraws d \<and> tSeals d' = tSeals d \<and>
     (\<forall>i u. select_user d i = Some u \<longrightarrow> select_user d' i = Some u)"

lemma same_tables_kept: "same_tables d d' \<Longrightarrow> events_and_roles_kept d d'"
  by (simp add: same_tables_def events_and_roles_kept_def select_user_def)

lemma Register_kept:
  assumes "db_wf d" and "Register lib env req d = (res, d')"
  shows "events_and_roles_kept d d'"
proof (cases res)
  case (Inr u)
  with assms(2) obtain hash row where
    "insert_user (avNow env) (normalise_email lib (regEmail req)) hash (TrimSpace (regFullName req)) ''user'' d = (Inr row, d')"
    using Register_Inr by metis
  note D = insert_user_done[OF this]
  have new: "uID row \<notin> user_ids d" using fresh_user[OF assms(1)] by (simp add: D(1))
  have "select_user d' j = (if j = uID row then Some row else select_user d j)" for j
    by (rule select_user_snoc[OF new]) (simp add: D(2))
  with select_missing(2)[OF new] show ?thesis by (simp add: events_and_roles_kept_def D(2))
qed (use assms(2) Register_failed same_tables_kept in blast)

lemma createBooking_kept:
  assumes "createBooking env eid uid d = (res, d')"
  shows "events_and_roles_kept d d'"
  using createBooking_tables[OF assms]
proof
  assume "booking_outcome (txNow env) eid uid d d'"
  then show ?thesis
    by (auto simp: booking_outcome_def insert_booking_def Let_def events_and_roles_kept_def select_user_def split: if_splits)
qed (rule same_tables_kept)

lemma Register_bookings: "Register lib env req d = (res, d') \<Longrightarrow> tBookings d' = tBookings d"
proof (cases res)
  case (Inr u)
  assume "Register lib env req d = (res, d')"
  with Inr obtain hash row where
    "insert_user (avNow env) (normalise_email lib (regEmail req)) hash (TrimSpace (regFullName req)) ''user'' d = (Inr row, d')"
    using Register_Inr by metis
  from insert_user_done(2)[OF this] show ?thesis by simp
qed (use Register_failed in \<open>auto simp: same_tables_def\<close>)

lemma createBooking_bookings:
  assumes "createBooking env eid uid d = (res, d')" and "b \<in> set (tBookings d')" and "b \<notin> set (tBookings d)"
  shows "bUserID b = uid"
  using createBooking_tables[OF assms(1)] assms(2,3)
  by (auto simp: booking_outcome_def insert_booking_def Let_def same_tables_def split: if_splits)

lemma allowed_kept:
  assumes "allowed lib cfg now r w w'" and "db_wf (woDb w)"
    and "\<And>c. accepted (alJwt (slAuth lib)) now (cfJWTSecret cfg) r = Some c \<Longrightarrow> clRole c \<noteq> ''admin''"
  shows "events_and_roles_kept (woDb w) (woDb w')"
    and "b \<in> set (tBookings (woDb w')) \<Longrightarrow> b \<notin> set (tBookings (woDb w)) \<Longrightarrow>
      \<exists>c. accepted (alJwt (slAuth lib)) now (cfJWTSecret cfg) r = Some c \<and> bUserID b = clUserID c"
  using assms(1,3) Register_kept[OF assms(2)] createBooking_kept same_tables_kept[OF same_tables_refl]
    Register_bookings createBooking_bookings
  unfolding allowed_def by metis+

lemma allowed_op_step: "allowed lib cfg now r w w' \<Longrightarrow> woDb w' = woDb w \<or> op_step (slAuth lib) (woDb w) (woDb w')"
  unfolding allowed_def using op_step.register op_step.book by blast

text \<open>
  C11. Only administrators change events and roles.  Whatever a request contains and however it is
  routed, unless it carries a bearer token that verifies under the server's secret and names the
  role admin, it leaves the events, the draws, their seals and every existing account as they
  were, and a booking it adds is one for the user its token names.
\<close>

theorem only_admins_change_events:
  assumes "middleware_ok lib" and "jwt_ok (alJwt (slAuth lib))" and "db_wf (woDb w)"
    and "d' = woDb (oState (serve lib cfg env r w))"
  shows "events_and_roles_kept (woDb w) d'
      \<and> (\<forall>b \<in> set (tBookings d') - set (tBookings (woDb w)).
          \<exists>c. accepted (alJwt (slAuth lib)) (reNow env) (cfJWTSecret cfg) r = Some c \<and> bUserID b = clUserID c)
    \<or> (\<exists>tok c. bearer_token r = Some tok
         \<and> jwVerifies (alJwt (slAuth lib)) SigningMethodHS256 (cfJWTSecret cfg) tok
         \<and> accepted (alJwt (slAuth lib)) (reNow env) (cfJWTSecret cfg) r = Some c \<and> clRole c = ''admin'')"
proof (cases "\<exists>c. accepted (alJwt (slAuth lib)) (reNow env) (cfJWTSecret cfg) r = Some c \<and> clRole c = ''admin''")
  case True
  then show ?thesis using accepted_verifies[OF assms(2)] by blast
next
  case False
  then have user: "\<And>c. accepted (alJwt (slAuth lib)) (reNow env) (cfJWTSecret cfg) r = Some c \<Longrightarrow> clRole c \<noteq> ''admin''"
    by blast
  note allowed_kept[OF serve_allowed[OF assms(1)] assms(3) user]
  then show ?thesis unfolding assms(4) by blast
qed

text \<open>The packages' middlewares write no request line of their own.\<close>

definition packages_lineless :: "('r, 'm) server_lib_scheme \<Rightarrow> bool" where
  "packages_lineless lib \<longleftrightarrow>
     lineless_middleware (slRequestID lib) \<and> lineless_middleware (slTimeout lib) \<and>
     (\<forall>n win. lineless_middleware (slLimitByIP lib n win)) \<and>
     (\<forall>n win key. lineless_middleware (slLimit lib n win key))"

lemma packages_linelessD:
  assumes "packages_lineless lib" and "lineless next"
  shows "lineless (slTimeout lib next)" "lineless (api_limit lib cfg next)" "lineless (auth_limit lib cfg next)"
    "lineless (account_limit lib cfg next)"
  using assms
  by (simp_all add: packages_lineless_def lineless_middleware_def api_limit_def auth_limit_def account_limit_def)

lemma handlers_lineless:
  "lineless (reading lib C h)" "lineless (writing lib C hw)" "lineless (booking lib sv env)"
  "lineless (livenessHandler lib)" "lineless (readinessHandler lib env)"
  by (auto simp: lineless_def reading_def writing_def booking_def livenessHandler_def readinessHandler_def returns_def Let_def
      split: prod.splits option.splits)

lemma guards_lineless:
  "lineless next \<Longrightarrow> lineless (authenticated lib cfg env next)"
  "lineless next \<Longrightarrow> lineless (admin_only lib cfg env next)"
  by (auto simp: authenticated_def admin_only_def intro: authenticate_log.adds_no_line require_admin_log.adds_no_line)

lemma routes_lineless:
  assumes "packages_lineless lib" and "rt \<in> set (routes lib cfg env)"
  shows "lineless (rtHandler rt)"
proof -
  note intros = packages_linelessD[OF assms(1)] handlers_lineless guards_lineless
  have "lineless (rtHandler rt')"
    if "rt' \<in> set (public_routes lib cfg env @ user_routes lib cfg env @ admin_routes lib cfg env)" for rt'
    using that by (auto simp: public_routes_def user_routes_def admin_routes_def intro!: intros)
  then show ?thesis using assms(2) by (auto simp: routes_def intro!: intros)
qed

lemma dispatch_lineless:
  assumes "packages_lineless lib"
  shows "lineless (inner_chain lib cfg (dispatch lib cfg env))"
proof -
  have "lineless (dispatch lib cfg env)"
    unfolding lineless_def
    using linelessD[OF routes_lineless[OF assms nth_mem, of _ cfg env]]
    by (auto simp: dispatch_def Let_def on_copy_def returns_def split: option.splits)
  then show ?thesis
    unfolding inner_chain_def using packages_linelessD[OF assms]
    by (auto intro!: security_log.adds_no_line body_limit_log.adds_no_line cors_log.adds_no_line)
qed

text \<open>
  C33. The log line of a request.  A request other than a probe gives exactly one request line, the last
  thing logged for it: it carries the method and the path, the status the client received and the
  address \<^verbatim>\<open>ClientIP\<close> attributed the request to, and no panic goes further.  Its request id is
  empty: \<^verbatim>\<open>RequestID\<close> stands inside \<^verbatim>\<open>Logger\<close> and works on a copy.
\<close>

theorem serve_log_line:
  assumes "\<forall>next r w. oReq (slRequestID lib next r w) = r" and "packages_lineless lib"
    and "rqPath r \<notin> {''/health'', ''/ready''}" and "rqReqID r = ''''"
  shows "\<exists>lines line. oLog (serve lib cfg env r w) = lines @ [HttpRequest line] \<and> (\<forall>l. HttpRequest l \<notin> set lines)
    \<and> lgMethod line = rqMethod r \<and> lgPath line = rqPath r
    \<and> lgStatus line = sent_status (oCalls (serve lib cfg env r w))
    \<and> lgRemoteAddr line = client_address (cfTrustedProxies cfg) r
    \<and> lgRequestID line = '''' \<and> oPanic (serve lib cfg env r w) = None"
proof -
  let ?in = "inner_chain lib cfg (dispatch lib cfg env)"
  let ?mw = "\<lambda>next. Recoverer (enc_unit lib) (ClientIP (cfTrustedProxies cfg) (slRequestID lib next))"
  obtain rw out where rw: "rw_calls (oCalls (?mw ?in r w)) \<lparr>rwStatus = 200, rwWroteHeader = False, rwBytes = 0\<rparr> = (rw, out)"
    by (rule prod.exhaust)
  have req: "oReq (?mw ?in r w) = r\<lparr>rqRemoteAddr := client_address (cfTrustedProxies cfg) r\<rparr>"
    using assms(1) by (simp add: Recoverer_def ClientIP_eq Let_def split: option.splits)
  have "lineless_middleware ?mw"
    using assms(2)
    by (simp add: lineless_middleware_def packages_lineless_def recoverer_log.adds_no_line client_ip_log.adds_no_line)
  then have "\<exists>lines line. oLog (Logger (reLatency env) (?mw ?in) r w) = lines @ [HttpRequest line] \<and> (\<forall>l. HttpRequest l \<notin> set lines)"
    by (rule lineless_middleware.one_line[OF _ dispatch_lineless[OF assms(2)]]) (use assms(3) req in simp)
  then obtain lines line where log: "oLog (serve lib cfg env r w) = lines @ [HttpRequest line]" "\<forall>l. HttpRequest l \<notin> set lines"
    unfolding serve_def outer_chain_def by blast
  have "oPanic (?mw ?in r w) = None" by (simp add: Recoverer_def Let_def split: option.splits)
  moreover have "sent_status out = rwStatus rw" using rw_calls_finish[OF rw] by (simp add: sent_status_def)
  ultimately show ?thesis
    using log assms(3,4) by (auto simp: serve_def outer_chain_def Logger_def rw req Let_def)
qed

section \<open>The whole program\<close>

text \<open>
  The requests a server handles until it stops, one after the other, each with what it meets.  The
  row locks of the transactions make concurrent requests for one event take effect in some such
  order.
\<close>

fun serve_requests ::
  "('r, 'm) server_lib_scheme \<Rightarrow> Config \<Rightarrow> (('r, 'n) request_env_scheme \<times> request) list \<Rightarrow> 'r world \<Rightarrow> 'r world" where
  "serve_requests lib cfg [] w = w"
| "serve_requests lib cfg ((env, r) # rest) w = serve_requests lib cfg rest (oState (serve lib cfg env r w))"

datatype stop_cause = ShutdownSignal string | ServerFailed error

text \<open>
  The last part of \<^verbatim>\<open>run\<close>: it listens until a signal or a failure of the server, then shuts down
  within a time limit; \<open>shutdown\<close> is what \<^verbatim>\<open>srv.Shutdown\<close> returns.  The cause is only logged.
\<close>

definition stop_log :: "stop_cause \<Rightarrow> error option \<Rightarrow> string list" where
  "stop_log cause shutdown =
     [case cause of ShutdownSignal _ \<Rightarrow> ''shutdown signal received'' | ServerFailed _ \<Rightarrow> ''server failed'',
      if shutdown \<noteq> None then ''forced shutdown'' else ''server stopped cleanly'']"

definition listen ::
  "('r, 'm) server_lib_scheme \<Rightarrow> (('r, 'n) request_env_scheme \<times> request) list \<Rightarrow> stop_cause \<Rightarrow> error option \<Rightarrow> 'r
    \<Rightarrow> Config \<Rightarrow> db \<Rightarrow> error option \<times> db" where
  "listen lib reqs cause shutdown store cfg d =
     (shutdown, woDb (serve_requests lib cfg reqs \<lparr>woStore = store, woDb = d\<rparr>))"

definition run ::
  "('r, 'm) server_lib_scheme \<Rightarrow> (('r, 'n) request_env_scheme \<times> request) list \<Rightarrow> stop_cause \<Rightarrow> error option \<Rightarrow> 'r
    \<Rightarrow> start_env \<Rightarrow> db mig_db \<Rightarrow> error option \<times> db mig_db \<times> res_event list" where
  "run lib reqs cause shutdown store = run_with (listen lib reqs cause shutdown store)"

text \<open>\<^verbatim>\<open>main\<close> exits through \<^verbatim>\<open>log.Fatal\<close> when \<^verbatim>\<open>run\<close> returns an error; the first component is the exit status.\<close>

definition server_main ::
  "('r, 'm) server_lib_scheme \<Rightarrow> (('r, 'n) request_env_scheme \<times> request) list \<Rightarrow> stop_cause \<Rightarrow> error option \<Rightarrow> 'r
    \<Rightarrow> start_env \<Rightarrow> db mig_db \<Rightarrow> int \<times> db mig_db \<times> res_event list" where
  "server_main lib reqs cause shutdown store se d =
     (case run lib reqs cause shutdown store se d of (res, rest) \<Rightarrow> (if res = None then 0 else 1, rest))"

lemma serve_requests_steps:
  assumes "middleware_ok lib"
  shows "(op_step (slAuth lib))\<^sup>*\<^sup>* (woDb w) (woDb (serve_requests lib cfg reqs w))"
proof (induction reqs arbitrary: w)
  case (Cons x reqs)
  obtain env r where x: "x = (env, r)" by (cases x)
  have "(op_step (slAuth lib))\<^sup>*\<^sup>* (woDb w) (woDb (oState (serve lib cfg env r w)))"
    using allowed_op_step[OF serve_allowed[OF assms]] by (metis r_into_rtranclp rtranclp.rtrancl_refl)
  with Cons.IH show ?case unfolding x by (simp del: rtranclp.simps) (metis rtranclp_trans)
qed simp

lemma startup_keeps:
  assumes "startup se d = (res, d', ev, deferred)" and "sys_inv (mdSchema d)"
    and "\<And>body t t'. meApply (seMigrations se) body t = Inr t' \<Longrightarrow> sys_inv t \<Longrightarrow> sys_inv t'"
  shows "sys_inv (mdSchema d')"
proof -
  have mig: "sys_inv (mdSchema d1)" if "on_start se cfg d = (e, d1, ev1)" for cfg e d1 ev1
    using that assms(2) RunMigrations_keeps[where P = sys_inv, OF assms(3)]
    by (auto simp: on_start_def migrate_def Let_def split: if_splits prod.splits sum.splits)
  have boot: "sys_inv (mdSchema t')" if "bootstrap se cfg t = (e, t')" "sys_inv (mdSchema t)" for cfg t e t'
    using that sys_inv_step[OF op_step.bootstrap]
    by (auto simp: bootstrap_def split: if_splits prod.splits sum.splits)
  show ?thesis
    using assms(1,2) mig boot
    by (auto simp: startup_def Let_def split: sum.splits prod.splits option.splits) 
qed

lemma event_bookings_distinct:
  assumes "db_wf d"
  shows "distinct (map bUserID (event_bookings d i))"
proof -
  have "distinct (map (\<lambda>b. (bEventID b, bUserID b)) (tBookings d))"
    using assms by (simp add: db_wf_def bookings_wf_def)
  then show ?thesis unfolding event_bookings_def
    by (induction "tBookings d" arbitrary: d) (auto simp: distinct_map inj_on_def)
qed

lemma run_keeps:
  assumes "middleware_ok lib" and "run lib reqs cause shutdown store se d = (res, d', ev)" and "sys_inv (mdSchema d)"
    and "\<And>body t t'. meApply (seMigrations se) body t = Inr t' \<Longrightarrow> sys_inv t \<Longrightarrow> sys_inv t'"
  shows "sys_inv (mdSchema d')"
proof -
  obtain start d2 ev' deferred where start: "startup se d = (start, d2, ev', deferred)" by (rule prod_cases4)
  have inv: "sys_inv (mdSchema d2)" by (rule startup_keeps[OF start assms(3,4)])
  have served: "sys_inv (woDb (serve_requests lib cfg reqs \<lparr>woStore = store, woDb = mdSchema d2\<rparr>))" for cfg
    by (rule ops.star_inv[OF serve_requests_steps[OF assms(1)]]) (simp add: inv)
  show ?thesis
    using assms(2) start inv served by (cases start) (auto simp: run_def run_with_def listen_def)
qed

text \<open>
  C12. From start to stop the server keeps its promises.  Started on a consistent database, with
  migration scripts that keep it consistent, and whatever requests it serves, fails on or
  refuses, the database it leaves has no event with more bookings than its capacity or two
  bookings of one user, no draw rows for an event that is not drawn, and for every drawn event
  a complete ranking of its entrants that the results endpoint reports as verified.
\<close>

theorem run_keeps_promises:
  assumes "middleware_ok lib" and "run lib reqs cause shutdown store se d = (res, d', ev)" and "sys_inv (mdSchema d)"
    and "\<forall>body t t'. meApply (seMigrations se) body t = Inr t' \<longrightarrow> sys_inv t \<longrightarrow> sys_inv t'"
    and "select_event (mdSchema d') i = Some e"
  shows "count_bookings (mdSchema d') i \<le> eCapacity e
    \<and> distinct (map bUserID (event_bookings (mdSchema d') i))
    \<and> (eStatus e \<noteq> EventStatusDrawn \<longrightarrow> event_draws (mdSchema d') i = [])
    \<and> (eStatus e = EventStatusDrawn \<longrightarrow>
        (\<exists>r. (\<forall>tie. GetResults no_faults tie i (mdSchema d') = Inr r) \<and> rIntegrity r = IntegrityVerified)
        \<and> mset (map dWinnerUserID (event_draws (mdSchema d') i)) = mset (map bUserID (event_bookings (mdSchema d') i)))"
proof -
  have "sys_inv (mdSchema d')" by (rule run_keeps[OF assms(1-3)]) (use assms(4) in blast)
  then have "db_wf (mdSchema d')" "capacity_ok (mdSchema d')" "event_draw_ok (mdSchema d') i e"
    using draws_invD[OF _ assms(5)] by (auto simp: sys_inv_def)
  then show ?thesis
    using select_event_SomeD[OF assms(5)] event_bookings_distinct
    by (auto simp: event_draw_ok_def capacity_ok_def split: if_splits)
qed

text \<open>
  The exit status tells a failed start-up and a shutdown that ran out of time, but not a server that
  failed while listening: that one exits with status 0 when the shutdown succeeds.
\<close>

lemma server_exit_status:
  "fst (server_main lib reqs cause shutdown store se d) = 0 \<longleftrightarrow> \<not> isl (fst (startup se d)) \<and> shutdown = None"
  by (auto simp: server_main_def run_def run_with_def listen_def split: prod.splits sum.splits)

lemma server_failure_exits_cleanly:
  assumes "startup se d = (Inr cfg, d2, ev, deferred)"
  shows "fst (server_main lib reqs (ServerFailed err) None store se d) = 0
    \<and> stop_log (ServerFailed err) None = [''server failed'', ''server stopped cleanly'']"
  using assms by (simp add: server_exit_status stop_log_def)

section \<open>An example\<close>

definition demo_server :: "kv_store server_lib" where
  "demo_server = \<lparr>slAuth = demo_auth, slRedis = kv_api, slEnc = rsError, slProbeEnc = (\<lambda>s _. s),
     slRegister = (\<lambda>_. (Inl io_EOF, '''')), slLogin = (\<lambda>_. (Inl io_EOF, '''')), slCreate = (\<lambda>_. (Inl io_EOF, '''')),
     slUnmarshalEmail = (\<lambda>_. None), slRequestID = on_copy (\<lambda>r. r\<lparr>rqReqID := ''host-1''\<rparr>), slTimeout = (\<lambda>next. next),
     slLimitByIP = (\<lambda>_ _ next. next), slLimit = (\<lambda>_ _ key next r. next (snd (key r))),
     slRoute = (\<lambda>rts r. map_option (\<lambda>i. (i, rqParam r)) (find (\<lambda>i. rts ! i = (rqMethod r, rqPath r)) [0..<length rts])),
     slNotFound = [WriteHeader 404]\<rparr>"

definition demo_request_env :: "kv_store request_env" where
  "demo_request_env = \<lparr>reNow = 5000, reLatency = 7, reQuery = (\<lambda>_. ''''), reFaults = no_faults, reAuth = demo_auth_env,
     reCreate = demo_create, reTx = demo_reload, reDraw = demo_draw, reBook = demo_book, reFuel = 100,
     reTieEvents = (\<lambda>_. 0), reTieBookings = (\<lambda>_. 0), reTieDraws = (\<lambda>_. 0), rePgPing = None, reRedisPing = None\<rparr>"

lemma demo_server_ok: "middleware_ok demo_server"
proof -
  have "passing_middleware (on_copy (\<lambda>r. r\<lparr>rqReqID := ''host-1''\<rparr>) :: kv_store world handler \<Rightarrow> kv_store world handler)"
  proof unfold_locales
    fix "next" :: "kv_store world handler" and r s
    show "oState (on_copy (\<lambda>r. r\<lparr>rqReqID := ''host-1''\<rparr>) next r s) = s
      \<or> (\<exists>r'. rqHeader r' = rqHeader r \<and> oState (on_copy (\<lambda>r. r\<lparr>rqReqID := ''host-1''\<rparr>) next r s) = oState (next r' s))"
      by (rule disjI2, rule exI[of _ "r\<lparr>rqReqID := ''host-1''\<rparr>"]) (simp add: on_copy_def)
  qed
  moreover have "passing_middleware ((\<lambda>next r. next (snd (key r))) :: kv_store world handler \<Rightarrow> kv_store world handler)"
    if "\<And>r. rqHeader (snd (key r)) = rqHeader r" for key :: "request \<Rightarrow> string \<times> request"
    using that by unfold_locales auto
  moreover have "passing_middleware (\<lambda>next :: kv_store world handler. next)" by (rule passing_id)
  ultimately show ?thesis by (simp add: middleware_ok_def demo_server_def)
qed

theorem only_admins_change_events_witness:
  "\<exists>cfg. events_and_roles_kept demo_db (woDb (oState (serve demo_server cfg demo_request_env demo_http
     \<lparr>woStore = Map.empty, woDb = demo_db\<rparr>)))"
proof -
  obtain cfg where "Load demo_config_lib (demo_env '''' '''') = Inr cfg" by (rule demo_start_config)
  have "bearer_token demo_http = None"
    by (simp add: bearer_token_def Header_Get_def demo_http_def SplitN2_def)
  moreover have "jwt_ok (alJwt (slAuth demo_server))" using demo_auth_ok(2) by (simp add: demo_server_def)
  ultimately show ?thesis
    using only_admins_change_events[OF demo_server_ok, of "\<lparr>woStore = Map.empty, woDb = demo_db\<rparr>" _ cfg demo_request_env demo_http]
    by auto
qed

theorem serve_log_line_witness:
  "\<exists>cfg lines line. oLog (serve demo_server cfg demo_request_env demo_http \<lparr>woStore = Map.empty, woDb = demo_db\<rparr>)
       = lines @ [HttpRequest line] \<and> (\<forall>l. HttpRequest l \<notin> set lines) \<and> lgPath line = rqPath demo_http \<and> lgRequestID line = ''''"
proof -
  obtain cfg where "Load demo_config_lib (demo_env '''' '''') = Inr cfg" by (rule demo_start_config)
  have "\<forall>next r w. oReq (slRequestID demo_server next r w) = r" by (simp add: demo_server_def on_copy_def)
  moreover have "packages_lineless demo_server"
    using on_copy_log.lineless_middleware_axioms lineless_middleware_id
    by (simp add: packages_lineless_def demo_server_def) (simp add: lineless_middleware_def lineless_def)
  moreover have "rqPath demo_http \<notin> {''/health'', ''/ready''}" "rqReqID demo_http = ''''" by (simp_all add: demo_http_def)
  ultimately show ?thesis
    using serve_log_line[of demo_server demo_http cfg demo_request_env "\<lparr>woStore = Map.empty, woDb = demo_db\<rparr>"] by blast
qed

lemma demo_http_keeps_events:
  "tEvents (woDb (oState (serve demo_server cfg demo_request_env demo_http w))) = tEvents (woDb w)" if "db_wf (woDb w)"
proof -
  have "bearer_token demo_http = None"
    by (simp add: bearer_token_def Header_Get_def demo_http_def SplitN2_def)
  then have "accepted jwt now secret demo_http = None" for jwt now secret by (simp add: accepted_def)
  then show ?thesis
    using allowed_kept(1)[OF serve_allowed[OF demo_server_ok, of cfg demo_request_env demo_http w] that]
    by (simp add: events_and_roles_kept_def)
qed

theorem run_keeps_promises_witness:
  "\<exists>d d' ev r. run demo_server [(demo_request_env, demo_http)] (ShutdownSignal ''terminated'') None Map.empty
       demo_start (demo_start_db d) = (None, d', ev)
     \<and> GetResults no_faults (\<lambda>_. 0) 1 (mdSchema d') = Inr r \<and> rIntegrity r = IntegrityVerified"
proof -
  obtain d e where d: "reachable_by op_init (op_step demo_auth) d" "select_event d 1 = Some e" "eStatus e = EventStatusDrawn"
    using run_drawn by blast
  have inv: "sys_inv (mdSchema (demo_start_db d))" and wf: "db_wf d"
    using ops.reachable_inv[OF d(1)] by (simp_all add: demo_start_db_def sys_inv_def)
  obtain cfg d' ev where run: "run demo_server [(demo_request_env, demo_http)] (ShutdownSignal ''terminated'') None Map.empty
      demo_start (demo_start_db d) = (None, d', ev)"
    and d': "mdSchema d' = woDb (oState (serve demo_server cfg demo_request_env demo_http \<lparr>woStore = Map.empty, woDb = d\<rparr>))"
    using demo_start_runs[of "listen demo_server [(demo_request_env, demo_http)] (ShutdownSignal ''terminated'') None Map.empty" d]
    by (auto simp: run_def listen_def)
  have scripts: "\<forall>body t t'. meApply (seMigrations demo_start) body t = Inr t' \<longrightarrow> sys_inv t \<longrightarrow> sys_inv t'"
    by (simp add: demo_start_def demo_start_migrations_def)
  have ev1: "select_event (mdSchema d') 1 = Some e"
    using d(2) demo_http_keeps_events[of "\<lparr>woStore = Map.empty, woDb = d\<rparr>" cfg] wf by (simp add: d' select_event_def)
  from run_keeps_promises[OF demo_server_ok run inv scripts ev1] d(3) run show ?thesis by blast
qed

end
