(* ===== verification/Loadtest_Stats.thy ===== *)
theory Loadtest_Stats
  imports Complex_Main Lottery_Algorithm
begin

text \<open>
  loadtest/stats/chisq.go and loadtest/cmd/fairness/main.go: the chi-square tests of the fairness
  check and the experiment that draws winners many times and counts them.  Floating point is a
  parameter, a record of its operations, evaluated in the order the source gives without fusing;
  what the formulas mean is shown for exact real arithmetic, and what the experiment counts is
  shown for the draws of \<open>Lottery_Algorithm\<close>.
\<close>

section \<open>float64\<close>

record 'f float64 =
  fOf :: "int \<Rightarrow> 'f"
  fLit :: "string \<Rightarrow> 'f"
  fNeg :: "'f \<Rightarrow> 'f"
  fAdd :: "'f \<Rightarrow> 'f \<Rightarrow> 'f"
  fSub :: "'f \<Rightarrow> 'f \<Rightarrow> 'f"
  fMul :: "'f \<Rightarrow> 'f \<Rightarrow> 'f"
  fDiv :: "'f \<Rightarrow> 'f \<Rightarrow> 'f"
  fLess :: "'f \<Rightarrow> 'f \<Rightarrow> bool"
  fLeq :: "'f \<Rightarrow> 'f \<Rightarrow> bool"
  fAbs :: "'f \<Rightarrow> 'f"
  fExp :: "'f \<Rightarrow> 'f"
  fLog :: "'f \<Rightarrow> 'f"
  fLgamma :: "'f \<Rightarrow> 'f"
  fFixed :: "nat \<Rightarrow> 'f \<Rightarrow> string"

section \<open>The tail probability\<close>

text \<open>The loops take the number of rounds left; both stop early when the terms have become small.\<close>

fun gammaPSeries_loop :: "'f float64 \<Rightarrow> 'f \<Rightarrow> nat \<Rightarrow> 'f \<Rightarrow> 'f \<Rightarrow> 'f \<Rightarrow> 'f" where
  "gammaPSeries_loop F x 0 ap sm del = sm"
| "gammaPSeries_loop F x (Suc n) ap sm del =
     (let ap = fAdd F ap (fOf F 1);
          del = fMul F del (fDiv F x ap);
          sm = fAdd F sm del
      in if fLess F (fAbs F del) (fMul F (fAbs F sm) (fLit F ''1e-15'')) then sm
         else gammaPSeries_loop F x n ap sm del)"

definition gamma_factor :: "'f float64 \<Rightarrow> 'f \<Rightarrow> 'f \<Rightarrow> 'f" where
  "gamma_factor F a x = fExp F (fSub F (fAdd F (fNeg F x) (fMul F a (fLog F x))) (fLgamma F a))"

definition gammaPSeries :: "'f float64 \<Rightarrow> 'f \<Rightarrow> 'f \<Rightarrow> 'f" where
  "gammaPSeries F a x =
     fMul F (gammaPSeries_loop F x 10000 a (fDiv F (fOf F 1) a) (fDiv F (fOf F 1) a)) (gamma_factor F a x)"

definition at_least_tiny :: "'f float64 \<Rightarrow> 'f \<Rightarrow> 'f" where
  "at_least_tiny F y = (if fLess F (fAbs F y) (fLit F ''1e-300'') then fLit F ''1e-300'' else y)"

fun continued_fraction_loop :: "'f float64 \<Rightarrow> 'f \<Rightarrow> nat \<Rightarrow> int \<Rightarrow> 'f \<Rightarrow> 'f \<Rightarrow> 'f \<Rightarrow> 'f \<Rightarrow> 'f" where
  "continued_fraction_loop F a 0 i b c d h = h"
| "continued_fraction_loop F a (Suc n) i b c d h =
     (let an = fMul F (fNeg F (fOf F i)) (fSub F (fOf F i) a);
          b = fAdd F b (fOf F 2);
          d = at_least_tiny F (fAdd F (fMul F an d) b);
          c = at_least_tiny F (fAdd F b (fDiv F an c));
          d = fDiv F (fOf F 1) d;
          del = fMul F d c;
          h = fMul F h del
      in if fLess F (fAbs F (fSub F del (fOf F 1))) (fLit F ''1e-15'') then h
         else continued_fraction_loop F a n (i + 1) b c d h)"

definition gammaQContinuedFraction :: "'f float64 \<Rightarrow> 'f \<Rightarrow> 'f \<Rightarrow> 'f" where
  "gammaQContinuedFraction F a x =
     (let b = fSub F (fAdd F x (fOf F 1)) a;
          c = fDiv F (fOf F 1) (fLit F ''1e-300'');
          d = fDiv F (fOf F 1) b
      in fMul F (gamma_factor F a x) (continued_fraction_loop F a 9999 1 b c d d))"

definition gammaQ :: "'f float64 \<Rightarrow> 'f \<Rightarrow> 'f \<Rightarrow> 'f" where
  "gammaQ F a x =
     (if fLess F x (fAdd F a (fOf F 1)) then fSub F (fOf F 1) (gammaPSeries F a x)
      else gammaQContinuedFraction F a x)"

definition ChiSquareSF :: "'f float64 \<Rightarrow> 'f \<Rightarrow> int \<Rightarrow> 'f" where
  "ChiSquareSF F x df =
     (if fLeq F x (fOf F 0) then fOf F 1
      else gammaQ F (fDiv F (fOf F df) (fOf F 2)) (fDiv F x (fOf F 2)))"

section \<open>The tests\<close>

record 'f Result =
  tsName :: string
  tsStatistic :: 'f
  tsDF :: int
  tsPValue :: 'f
  tsObserved :: "int list"
  tsExpected :: 'f
  tsNote :: string

definition print_ints :: "int list \<Rightarrow> string" where
  "print_ints xs = ''['' @ concat (map (\<lambda>i. (if i = 0 then '''' else '' '') @ FormatInt (xs ! i)) [0..<length xs]) @ '']''"

definition Result_String :: "'f float64 \<Rightarrow> 'f Result \<Rightarrow> string" where
  "Result_String F r =
     tsName r @ '': chi2='' @ fFixed F 4 (tsStatistic r) @ '' df='' @ FormatInt (tsDF r) @ '' p='' @ fFixed F 4 (tsPValue r)
     @ '' expected_per_cell='' @ fFixed F 1 (tsExpected r) @ '' observed='' @ print_ints (tsObserved r)
     @ [CHR 0x0A] @ ''  note: '' @ tsNote r"

definition square_dev :: "'f float64 \<Rightarrow> 'f \<Rightarrow> int \<Rightarrow> 'f" where
  "square_dev F e n = fMul F (fSub F (fOf F n) e) (fSub F (fOf F n) e)"

definition WinFrequency :: "'f float64 \<Rightarrow> int list \<Rightarrow> int \<Rightarrow> int \<Rightarrow> 'f Result \<times> 'f Result" where
  "WinFrequency F counts draws winners =
     (let k = int (length counts);
          p = fDiv F (fOf F winners) (fOf F k);
          e = fMul F (fOf F draws) p;
          ss = foldl (\<lambda>ss n. fAdd F ss (square_dev F e n)) (fOf F 0) counts;
          pearsonStat = fDiv F ss e;
          adjStat = fDiv F ss
            (fDiv F (fMul F (fMul F (fMul F (fOf F draws) p) (fSub F (fOf F 1) p)) (fOf F k)) (fOf F (k - 1)))
      in (\<lparr>tsName = ''win frequency, textbook Pearson'', tsStatistic = pearsonStat, tsDF = k - 1,
            tsPValue = ChiSquareSF F pearsonStat (k - 1), tsObserved = counts, tsExpected = e,
            tsNote = ''assumes multinomial cells; conservative here because each draw picks distinct winners''\<rparr>,
          \<lparr>tsName = ''win frequency, variance-adjusted'', tsStatistic = adjStat, tsDF = k - 1,
            tsPValue = ChiSquareSF F adjStat (k - 1), tsObserved = counts, tsExpected = e,
            tsNote = ''divides by the exact null variance of a uniform k-subset draw; asymptotically chi2(k-1)''\<rparr>))"

definition Uniform :: "'f float64 \<Rightarrow> string \<Rightarrow> int list \<Rightarrow> 'f Result" where
  "Uniform F name counts =
     (let k = int (length counts);
          n = foldl (+) 0 counts;
          e = fDiv F (fOf F n) (fOf F k);
          stat = foldl (\<lambda>stat obs. fAdd F stat (fDiv F (square_dev F e obs) e)) (fOf F 0) counts
      in \<lparr>tsName = name, tsStatistic = stat, tsDF = k - 1, tsPValue = ChiSquareSF F stat (k - 1),
          tsObserved = counts, tsExpected = e, tsNote = ''one count per draw; multinomial assumption holds''\<rparr>)"

section \<open>The experiment\<close>

definition participants :: "nat \<Rightarrow> int list" where
  "participants k = map (\<lambda>i. 1000 + int i) [0..<k]"

definition index_of :: "int list \<Rightarrow> int \<rightharpoonup> nat" where
  "index_of ps = foldl (\<lambda>m (i, x). m(x \<mapsto> i)) Map.empty (enumerate 0 ps)"

text \<open>A missing key of a Go map reads as zero.  \<open>run_experiment\<close> is the function \<^verbatim>\<open>experiment\<close>; \<open>n\<close> rounds are left.\<close>

definition lookup0 :: "(int \<rightharpoonup> nat) \<Rightarrow> int \<Rightarrow> nat" where
  "lookup0 m x = (case m x of None \<Rightarrow> 0 | Some i \<Rightarrow> i)"

definition incr :: "int list \<Rightarrow> nat \<Rightarrow> int list" where
  "incr xs i = xs[i := xs ! i + 1]"

fun experiment_loop ::
  "int list \<Rightarrow> (int \<rightharpoonup> nat) \<Rightarrow> int \<Rightarrow> int \<Rightarrow> nat \<Rightarrow> int list \<times> int list \<Rightarrow> byte list
    \<Rightarrow> error + ((int list \<times> int list) \<times> byte list)" where
  "experiment_loop ps index w d 0 acc r = Inr (acc, r)"
| "experiment_loop ps index w d (Suc n) (wins, firsts) r =
     (case SelectWinners ps w r of
        Inl err \<Rightarrow> Inl err
      | Inr (winners, waitlist, r') \<Rightarrow>
          if int (length winners) \<noteq> w \<or> length winners + length waitlist \<noteq> length ps
          then Inl (Errorf (''draw '' @ FormatInt d @ '': got '' @ FormatInt (int (length winners)) @ '' winners, ''
                 @ FormatInt (int (length waitlist)) @ '' waitlist''))
          else experiment_loop ps index w (d + 1) n
                 (foldl (\<lambda>ws x. incr ws (lookup0 index x)) wins winners,
                  incr firsts (lookup0 index (winners ! 0))) r')"

definition run_experiment ::
  "int list \<Rightarrow> (int \<rightharpoonup> nat) \<Rightarrow> int \<Rightarrow> nat \<Rightarrow> byte list \<Rightarrow> error + ((int list \<times> int list) \<times> byte list)" where
  "run_experiment ps index w draws r =
     experiment_loop ps index w 0 draws (replicate (length ps) 0, replicate (length ps) 0) r"

text \<open>How often each of the three tests fell below 5 and 1 percent.\<close>

definition below :: "'f float64 \<Rightarrow> string \<Rightarrow> 'f Result list \<Rightarrow> int list \<Rightarrow> int list" where
  "below F limit rs counts =
     map (\<lambda>(res, n). if fLess F (tsPValue res) (fLit F limit) then n + 1 else n) (zip rs counts)"

fun calibrate ::
  "'f float64 \<Rightarrow> int list \<Rightarrow> (int \<rightharpoonup> nat) \<Rightarrow> int \<Rightarrow> nat \<Rightarrow> nat \<Rightarrow> int list \<times> int list \<Rightarrow> byte list
    \<Rightarrow> error + (int list \<times> int list)" where
  "calibrate F ps index w draws 0 acc r = Inr acc"
| "calibrate F ps index w draws (Suc n) (below05, below01) r =
     (case run_experiment ps index w draws r of
        Inl err \<Rightarrow> Inl err
      | Inr ((wins, firsts), r') \<Rightarrow>
          let (p, a) = WinFrequency F wins (int draws) w;
              rs = [p, a, Uniform F ''rank-1'' firsts]
          in calibrate F ps index w draws n (below F ''0.05'' rs below05, below F ''0.01'' rs below01) r')"

definition calibration_names :: "string list" where
  "calibration_names = [''win frequency, textbook Pearson'', ''win frequency, variance-adjusted'', ''rank-1 frequency'']"

definition percent :: "'f float64 \<Rightarrow> int \<Rightarrow> int \<Rightarrow> string" where
  "percent F n total' =
     FormatInt n @ ''/'' @ FormatInt total' @ '' ('' @ fFixed F 2 (fDiv F (fMul F (fOf F 100) (fOf F n)) (fOf F total')) @ ''%)''"

definition calibration_lines :: "'f float64 \<Rightarrow> nat \<Rightarrow> int \<Rightarrow> nat \<Rightarrow> nat \<Rightarrow> int list \<times> int list \<Rightarrow> string list" where
  "calibration_lines F k w draws repeat bs =
     (''source=algorithm calibration: '' @ FormatInt (int repeat) @ '' independent experiments of '' @ FormatInt (int draws)
       @ '' draws, '' @ FormatInt (int k) @ '' participants, '' @ FormatInt w @ '' winners'')
     # map (\<lambda>i. calibration_names ! i @ '': p<0.05 in '' @ percent F (fst bs ! i) (int repeat)
         @ '', p<0.01 in '' @ percent F (snd bs ! i) (int repeat)) [0..<3]"

text \<open>The command: what it prints, or the error it stops with.\<close>

definition fairness_main :: "'f float64 \<Rightarrow> nat \<Rightarrow> int \<Rightarrow> nat \<Rightarrow> nat \<Rightarrow> byte list \<Rightarrow> error + string list" where
  "fairness_main F k w draws repeat r =
     (let ps = participants k; index = index_of ps in
      if repeat > 1 then
        (case calibrate F ps index w draws repeat ([0, 0, 0], [0, 0, 0]) r of
           Inl err \<Rightarrow> Inl err
         | Inr bs \<Rightarrow> Inr (calibration_lines F k w draws repeat bs))
      else case run_experiment ps index w draws r of
        Inl err \<Rightarrow> Inl err
      | Inr ((wins, firsts), _) \<Rightarrow>
          let (p, a) = WinFrequency F wins (int draws) w
          in Inr [''source=algorithm (internal/lottery.SelectWinners) participants='' @ FormatInt (int k)
                @ '' winners_per_draw='' @ FormatInt w @ '' draws='' @ FormatInt (int draws),
              Result_String F p, Result_String F a, Result_String F (Uniform F ''rank-1 frequency'' firsts)])"

section \<open>The formulas in exact arithmetic\<close>

definition real_lit :: "string \<Rightarrow> real" where
  "real_lit s = (if s = ''1e-15'' then 1 / 10 ^ 15 else if s = ''1e-300'' then 1 / 10 ^ 300
     else if s = ''0.05'' then 1 / 20 else if s = ''0.01'' then 1 / 100 else 0)"

definition real_ops :: "(real \<Rightarrow> real) \<Rightarrow> (nat \<Rightarrow> real \<Rightarrow> string) \<Rightarrow> real float64" where
  "real_ops lgamma fmt = \<lparr>fOf = real_of_int, fLit = real_lit, fNeg = uminus, fAdd = (+), fSub = (-), fMul = (*), fDiv = (/),
     fLess = (<), fLeq = (\<le>), fAbs = abs, fExp = exp, fLog = ln, fLgamma = lgamma, fFixed = fmt\<rparr>"

lemma real_ops_simps [simp]:
  "fOf (real_ops g s) = real_of_int" "fLit (real_ops g s) = real_lit" "fNeg (real_ops g s) = uminus"
  "fAdd (real_ops g s) = (+)" "fSub (real_ops g s) = (-)" "fMul (real_ops g s) = (*)" "fDiv (real_ops g s) = (/)"
  "fLess (real_ops g s) = (<)" "fLeq (real_ops g s) = (\<le>)" "fAbs (real_ops g s) = abs" "fExp (real_ops g s) = exp"
  "fLog (real_ops g s) = ln" "fLgamma (real_ops g s) = g" "fFixed (real_ops g s) = s"
  by (simp_all add: real_ops_def)

lemma foldl_add: "foldl (\<lambda>a n. a + f n) (z :: 'a :: comm_monoid_add) xs = z + sum_list (map f xs)"
  by (induction xs arbitrary: z) (simp_all add: ac_simps)

lemma square_dev_real [simp]: "square_dev (real_ops g s) e n = (real_of_int n - e)\<^sup>2"
  by (simp add: square_dev_def power2_eq_square)

abbreviation deviation :: "int list \<Rightarrow> real \<Rightarrow> real" where
  "deviation counts e \<equiv> sum_list (map (\<lambda>n. (real_of_int n - e)\<^sup>2) counts)"

lemma WinFrequency_real:
  fixes draws winners :: int and counts :: "int list"
  defines "k \<equiv> real (length counts)"
  defines "e \<equiv> real_of_int draws * (real_of_int winners / k)"
  shows "tsStatistic (fst (WinFrequency (real_ops g s) counts draws winners)) = deviation counts e / e"
    and "tsStatistic (snd (WinFrequency (real_ops g s) counts draws winners))
      = deviation counts e / (e * (1 - real_of_int winners / k) * k / (k - 1))"
  by (simp_all add: WinFrequency_def foldl_add k_def e_def Let_def)

lemma Uniform_real:
  "tsStatistic (Uniform (real_ops g s) nm counts)
     = deviation counts (real_of_int (sum_list counts) / real (length counts))
         / (real_of_int (sum_list counts) / real (length counts))"
proof -
  have "sum_list (map (\<lambda>n. (real_of_int n - e)\<^sup>2 / e) counts) = deviation counts e / e" for e
    by (induction counts) (simp_all add: add_divide_distrib)
  moreover have "foldl (+) 0 counts = sum_list counts" using foldl_add[of "\<lambda>n. n" 0 counts] by simp
  ultimately show ?thesis by (simp add: Uniform_def foldl_add Let_def)
qed

lemma deviation_indicator:
  "set counts \<subseteq> {0, 1} \<Longrightarrow>
   deviation counts e = (1 - 2 * e) * real_of_int (sum_list counts) + real (length counts) * e\<^sup>2"
  by (induction counts) (auto simp: power2_eq_square algebra_simps)

text \<open>
  C36. What the two win-frequency statistics are, computed in exact real arithmetic instead of floating
  point: the adjusted one is Pearson's, scaled by \<open>(k - 1) / (k - w)\<close> for \<open>w\<close> winners among \<open>k\<close>
  participants, so Pearson's is never the larger one; with one winner per draw Pearson's is the
  statistic of the rank-1 test; and after a single draw the adjusted one is exactly \<open>k - 1\<close>, the
  degrees of freedom it is compared under, while Pearson's is \<open>k - w\<close>.
\<close>

theorem WinFrequency_statistics:
  assumes "0 < winners" and "winners < int (length counts)" and "0 < draws"
  shows "tsStatistic (snd (WinFrequency (real_ops g s) counts draws winners)) * (real (length counts) - real_of_int winners)
      = tsStatistic (fst (WinFrequency (real_ops g s) counts draws winners)) * (real (length counts) - 1)
    \<and> tsStatistic (fst (WinFrequency (real_ops g s) counts draws winners))
      \<le> tsStatistic (snd (WinFrequency (real_ops g s) counts draws winners))
    \<and> tsDF (snd (WinFrequency (real_ops g s) counts draws winners)) = int (length counts) - 1
    \<and> (winners = 1 \<and> sum_list counts = draws \<longrightarrow>
        tsStatistic (fst (WinFrequency (real_ops g s) counts draws winners)) = tsStatistic (Uniform (real_ops g s) nm counts))
    \<and> (draws = 1 \<and> set counts \<subseteq> {0, 1} \<and> sum_list counts = winners \<longrightarrow>
        tsStatistic (snd (WinFrequency (real_ops g s) counts draws winners)) = real (length counts) - 1
        \<and> tsStatistic (fst (WinFrequency (real_ops g s) counts draws winners)) = real (length counts) - real_of_int winners)"
proof -
  define k w d where "k = real (length counts)" and "w = real_of_int winners" and "d = real_of_int draws"
  have pos: "0 < w" "w < k" "0 < d" "1 < k" using assms by (simp_all add: k_def w_def d_def)
  define S where "S = deviation counts (d * (w / k))"
  have P: "tsStatistic (fst (WinFrequency (real_ops g s) counts draws winners)) = S / (d * (w / k))"
    and A: "tsStatistic (snd (WinFrequency (real_ops g s) counts draws winners))
      = S / (d * (w / k) * (1 - w / k) * k / (k - 1))"
    by (simp_all add: WinFrequency_real S_def k_def w_def d_def)
  have scale: "d * (w / k) * (1 - w / k) * k = d * (w / k) * (k - w)" using pos by (simp add: field_simps)
  have ratio: "S / (d * (w / k) * (1 - w / k) * k / (k - 1)) * (k - w) = S / (d * (w / k)) * (k - 1)"
    unfolding scale using pos by (simp add: divide_simps)
  have "0 \<le> S" unfolding S_def by (rule sum_list_nonneg) auto
  then have "0 \<le> S / (d * (w / k))" using pos by (intro divide_nonneg_pos mult_pos_pos divide_pos_pos) simp_all
  moreover have "1 \<le> w" using assms(1) by (simp add: w_def)
  ultimately have "S / (d * (w / k)) * (k - w) \<le> S / (d * (w / k)) * (k - 1)" by (intro mult_left_mono) simp_all
  then have "S / (d * (w / k)) \<le> S / (d * (w / k) * (1 - w / k) * k / (k - 1))"
    unfolding ratio[symmetric] by (rule mult_right_le_imp_le) (use pos in simp)
  moreover have "S / (d * (w / k) * (1 - w / k) * k / (k - 1)) = k - 1 \<and> S / (d * (w / k)) = k - w"
    if "draws = 1" "set counts \<subseteq> {0, 1}" "sum_list counts = winners"
  proof -
    have "d = 1" using that(1) by (simp add: d_def)
    have "S = (1 - 2 * (w / k)) * w + k * (w / k)\<^sup>2"
      using deviation_indicator[OF that(2)] that(3) by (simp add: S_def k_def w_def \<open>d = 1\<close>)
    also have "\<dots> = (w / k) * (k - w)" using pos by (simp add: field_simps power2_eq_square)
    finally show ?thesis unfolding scale using pos \<open>d = 1\<close> by simp
  qed
  ultimately show ?thesis
    unfolding P A using Uniform_real[of g s nm counts] ratio
    by (auto simp: S_def k_def w_def d_def WinFrequency_def Let_def)
qed

theorem WinFrequency_statistics_witness:
  "tsStatistic (snd (WinFrequency (real_ops (\<lambda>x. x) (\<lambda>_ _. ''''))  [1, 0, 1, 0, 0] 1 2)) = 4
   \<and> tsStatistic (fst (WinFrequency (real_ops (\<lambda>x. x) (\<lambda>_ _. '''')) [1, 0, 1, 0, 0] 1 2)) = 3"
  using WinFrequency_statistics[of 2 "[1, 0, 1, 0, 0]" 1 "\<lambda>x. x" "\<lambda>_ _. ''''" "''''"] by simp

text \<open>The series: partial sums of the terms \<open>x\<^sup>j / (a (a + 1) ... (a + j))\<close>.\<close>

definition gamma_term :: "real \<Rightarrow> real \<Rightarrow> nat \<Rightarrow> real" where
  "gamma_term a x j = x ^ j / (\<Prod>i\<le>j. a + real i)"

lemma gammaPSeries_loop_step:
  "gammaPSeries_loop (real_ops g s) x (Suc N) (a + real m) (\<Sum>j\<le>m. gamma_term a x j) (gamma_term a x m) =
     (if \<bar>gamma_term a x (Suc m)\<bar> < \<bar>\<Sum>j\<le>Suc m. gamma_term a x j\<bar> * (1 / 10 ^ 15) then \<Sum>j\<le>Suc m. gamma_term a x j
      else gammaPSeries_loop (real_ops g s) x N (a + real (Suc m)) (\<Sum>j\<le>Suc m. gamma_term a x j) (gamma_term a x (Suc m)))"
proof -
  have t: "gamma_term a x m * (x / (a + real (Suc m))) = gamma_term a x (Suc m)"
    by (simp add: gamma_term_def ac_simps)
  have ap: "a + real m + real_of_int 1 = a + real (Suc m)" by simp
  have lit: "real_lit ''1e-15'' = 1 / 10 ^ 15" by (simp add: real_lit_def)
  show ?thesis
    unfolding gammaPSeries_loop.simps Let_def real_ops_simps ap t lit sum.atMost_Suc ..
qed

lemma gammaPSeries_loop_sum:
  "\<exists>n \<le> m + N. gammaPSeries_loop (real_ops g s) x N (a + real m) (\<Sum>j\<le>m. gamma_term a x j) (gamma_term a x m)
       = (\<Sum>j\<le>n. gamma_term a x j)
     \<and> (n = m + N \<or> \<bar>gamma_term a x n\<bar> < \<bar>\<Sum>j\<le>n. gamma_term a x j\<bar> * (1 / 10 ^ 15))"
proof (induction N arbitrary: m)
  case 0
  show ?case by (rule exI[of _ m]) simp
next
  case (Suc N)
  show ?case
  proof (cases "\<bar>gamma_term a x (Suc m)\<bar> < \<bar>\<Sum>j\<le>Suc m. gamma_term a x j\<bar> * (1 / 10 ^ 15)")
    case True
    then show ?thesis unfolding gammaPSeries_loop_step by (intro exI[of _ "Suc m"]) auto
  next
    case False
    from Suc.IH[of "Suc m"] show ?thesis unfolding gammaPSeries_loop_step if_not_P[OF False] by simp
  qed
qed

text \<open>
  The lower incomplete gamma function is summed as its series says: in exact arithmetic the result is
  a partial sum of the series times the common factor, and the sum is cut off only when the
  last term is below \<open>10\<^sup>-\<^sup>1\<^sup>5\<close> of it or after ten thousand terms.
\<close>

theorem gammaPSeries_partial_sum:
  "\<exists>n \<le> 10000. gammaPSeries (real_ops g s) a x = (\<Sum>j\<le>n. x ^ j / (\<Prod>i\<le>j. a + real i)) * exp (- x + a * ln x - g a)
     \<and> (n = 10000 \<or> \<bar>x ^ n / (\<Prod>i\<le>n. a + real i)\<bar> < \<bar>\<Sum>j\<le>n. x ^ j / (\<Prod>i\<le>j. a + real i)\<bar> * (1 / 10 ^ 15))"
  using gammaPSeries_loop_sum[of 0 10000 g s x a]
  by (simp add: gammaPSeries_def gamma_factor_def gamma_term_def)

section \<open>What the experiment counts\<close>

lemma index_loop_other:
  "y \<notin> set ps \<Longrightarrow> foldl (\<lambda>m (i, x). m(x \<mapsto> i)) m0 (enumerate j ps) y = m0 y"
  by (induction ps arbitrary: m0 j) auto

lemma index_loop:
  "distinct ps \<Longrightarrow> i < length ps \<Longrightarrow> foldl (\<lambda>m (i, x). m(x \<mapsto> i)) m0 (enumerate j ps) (ps ! i) = Some (j + i)"
proof (induction ps arbitrary: m0 j i)
  case (Cons p ps)
  then show ?case by (cases i) (simp_all add: index_loop_other del: fun_upd_apply, simp)
qed simp

lemma lookup_index: "distinct ps \<Longrightarrow> i < length ps \<Longrightarrow> lookup0 (index_of ps) (ps ! i) = i"
  using index_loop[of ps i Map.empty 0] by (simp add: lookup0_def index_of_def)

lemma lookup_index_less:
  assumes "distinct ps" and "x \<in> set ps"
  shows "lookup0 (index_of ps) x < length ps"
  using assms lookup_index by (metis in_set_conv_nth)

lemma inj_lookup:
  assumes "distinct ps"
  shows "inj_on (lookup0 (index_of ps)) (set ps)"
proof (rule inj_onI)
  fix x y assume "x \<in> set ps" "y \<in> set ps" "lookup0 (index_of ps) x = lookup0 (index_of ps) y"
  then obtain i j where "i < length ps" "j < length ps" "x = ps ! i" "y = ps ! j"
    "lookup0 (index_of ps) (ps ! i) = lookup0 (index_of ps) (ps ! j)"
    by (auto simp: in_set_conv_nth)
  then show "x = y" using lookup_index[OF assms] by simp
qed

lemma incr_length [simp]: "length (incr xs i) = length xs" by (simp add: incr_def)

lemma incr_nth: "i < length xs \<Longrightarrow> incr xs i ! j = xs ! j + (if j = i then 1 else 0)"
  by (simp add: incr_def nth_list_update)

lemma incr_sum: "i < length xs \<Longrightarrow> sum_list (incr xs i) = sum_list xs + 1"
  by (induction xs arbitrary: i) (auto simp: incr_def split: nat.splits)

text \<open>Counting a list of distinct winners.\<close>

lemma incr_all:
  assumes "\<forall>x \<in> set xs. f x < length ws" and "inj_on f (set xs)" and "distinct xs"
  shows "length (foldl (\<lambda>ws x. incr ws (f x)) ws xs) = length ws
    \<and> sum_list (foldl (\<lambda>ws x. incr ws (f x)) ws xs) = sum_list ws + int (length xs)
    \<and> (\<forall>j. foldl (\<lambda>ws x. incr ws (f x)) ws xs ! j = ws ! j + (if j \<in> f ` set xs then 1 else 0))"
  using assms
proof (induction xs arbitrary: ws)
  case (Cons x xs)
  have "inj_on f (set xs)" "f x \<notin> f ` set xs" using Cons.prems(2,3) by auto
  with Cons.IH[of "incr ws (f x)"] Cons.prems show ?case
    by (auto simp: incr_nth incr_sum)
qed simp

definition tally_ok :: "nat \<Rightarrow> int \<Rightarrow> nat \<Rightarrow> int list \<times> int list \<Rightarrow> bool" where
  "tally_ok k w n acc \<longleftrightarrow> (case acc of (wins, firsts) \<Rightarrow>
     length wins = k \<and> length firsts = k \<and> sum_list wins = int n * w \<and> sum_list firsts = int n
     \<and> (\<forall>i < k. 0 \<le> firsts ! i \<and> firsts ! i \<le> wins ! i \<and> wins ! i \<le> int n))"

lemma tally_round:
  assumes "distinct ps" and "SelectWinners ps w r = Inr (winners, waitlist, r')" and "int (length winners) = w"
    and "tally_ok (length ps) w n (wins, firsts)"
  shows "tally_ok (length ps) w (Suc n)
    (foldl (\<lambda>ws x. incr ws (lookup0 (index_of ps) x)) wins winners, incr firsts (lookup0 (index_of ps) (winners ! 0)))"
proof -
  let ?f = "lookup0 (index_of ps)"
  have perm: "mset (winners @ waitlist) = mset ps" by (rule SelectWinners_correct[OF assms(2)])
  then have sub: "set winners \<subseteq> set ps" by (metis mset_eq_setD set_append Un_upper1)
  have dist: "distinct winners" using perm assms(1) by (metis distinct_append mset_eq_imp_distinct_iff)
  have "1 \<le> w" using assms(2) by (simp add: SelectWinners_split)
  then have first: "winners ! 0 \<in> set winners" using assms(3) by (intro nth_mem) linarith
  have len: "length wins = length ps" "length firsts = length ps" using assms(4) by (simp_all add: tally_ok_def)
  have lt: "\<forall>x \<in> set winners. ?f x < length wins" using lookup_index_less[OF assms(1)] sub len by auto
  note all = incr_all[OF lt inj_on_subset[OF inj_lookup[OF assms(1)] sub] dist]
  have f0: "?f (winners ! 0) < length firsts" "?f (winners ! 0) \<in> ?f ` set winners" using lt first len by auto
  show ?thesis
    using all incr_sum[OF f0(1)] incr_nth[OF f0(1)] f0(2) assms(3,4) len
    by (auto simp: tally_ok_def algebra_simps)
qed

lemma experiment_loop_tally:
  assumes "experiment_loop ps (index_of ps) w d n acc r = Inr (acc', r')" and "distinct ps"
    and "tally_ok (length ps) w m acc"
  shows "tally_ok (length ps) w (m + n) acc'"
  using assms
proof (induction n arbitrary: m d acc r)
  case (Suc n)
  obtain wins firsts where acc: "acc = (wins, firsts)" by (cases acc)
  obtain winners waitlist r1 where sel: "SelectWinners ps w r = Inr (winners, waitlist, r1)" "int (length winners) = w"
    and rest: "experiment_loop ps (index_of ps) w (d + 1) n
      (foldl (\<lambda>ws x. incr ws (lookup0 (index_of ps) x)) wins winners, incr firsts (lookup0 (index_of ps) (winners ! 0))) r1
        = Inr (acc', r')"
    using Suc.prems(1) unfolding acc by (auto split: sum.splits prod.splits if_splits)
  have "tally_ok (length ps) w (Suc m)
      (foldl (\<lambda>ws x. incr ws (lookup0 (index_of ps) x)) wins winners, incr firsts (lookup0 (index_of ps) (winners ! 0)))"
    using Suc.prems(3) unfolding acc by (rule tally_round[OF Suc.prems(2) sel])
  from Suc.IH[OF rest Suc.prems(2) this] show ?case by simp
qed simp

text \<open>With an admissible number of winners a round fails only when the random source does.\<close>

lemma experiment_loop_fails:
  assumes "experiment_loop ps index w d n acc r = Inl err" and "1 \<le> w" and "w \<le> int (length ps)"
  shows "\<exists>r1. SelectWinners ps w r1 = Inl err"
  using assms(1)
proof (induction n arbitrary: d acc r)
  case (Suc n)
  obtain wins firsts where acc: "acc = (wins, firsts)" by (cases acc)
  show ?case
  proof (cases "SelectWinners ps w r")
    case (Inr x)
    obtain winners waitlist r1 where x: "x = (winners, waitlist, r1)" by (rule prod_cases3)
    note ok = SelectWinners_correct[OF Inr[unfolded x]]
    have "int (length winners) = w" using ok(2) assms(2,3) by simp
    moreover have "length winners + length waitlist = length ps" using arg_cong[OF ok(1), of size] by simp
    ultimately show ?thesis using Suc Inr x acc by auto
  qed (use Suc acc in auto)
qed simp

text \<open>
  C35. The experiment counts every draw once: after it the wins add up to the number of draws times the
  winners of a draw and the first places to the number of draws, nobody has won more often than
  was drawn or was first more often than won; and for a number of winners between one and the
  number of participants it stops early only when a draw itself fails.
\<close>

theorem experiment_tally:
  assumes "distinct ps"
  shows "(\<forall>wins firsts r'. run_experiment ps (index_of ps) w draws r = Inr ((wins, firsts), r') \<longrightarrow>
      length wins = length ps \<and> sum_list wins = int draws * w \<and> sum_list firsts = int draws
      \<and> (\<forall>i < length ps. 0 \<le> firsts ! i \<and> firsts ! i \<le> wins ! i \<and> wins ! i \<le> int draws))
    \<and> (\<forall>err. 1 \<le> w \<and> w \<le> int (length ps) \<and> run_experiment ps (index_of ps) w draws r = Inl err \<longrightarrow>
      (\<exists>r1. SelectWinners ps w r1 = Inl err))"
proof -
  have "tally_ok (length ps) w 0 (replicate (length ps) 0, replicate (length ps) 0)"
    by (simp add: tally_ok_def sum_list_replicate)
  then have "tally_ok (length ps) w draws acc" if "run_experiment ps (index_of ps) w draws r = Inr (acc, r')" for acc r'
    using experiment_loop_tally[OF that[unfolded run_experiment_def] assms, of 0] by simp
  moreover have "\<exists>r1. SelectWinners ps w r1 = Inl err"
    if "1 \<le> w" "w \<le> int (length ps)" "run_experiment ps (index_of ps) w draws r = Inl err" for err
    using experiment_loop_fails[OF that(3)[unfolded run_experiment_def] that(1,2)] .
  ultimately show ?thesis unfolding tally_ok_def by blast
qed

lemma demo_experiment:
  "run_experiment (participants 2) (index_of (participants 2)) 1 1 [0] = Inr (([0, 1], [0, 1]), [])"
  by code_simp

theorem experiment_tally_witness:
  "\<exists>wins firsts. run_experiment (participants 2) (index_of (participants 2)) 1 1 [0] = Inr ((wins, firsts), [])
     \<and> sum_list wins = 1 \<and> sum_list firsts = 1"
proof -
  have "distinct (participants 2)" by (simp add: participants_def numeral_2_eq_2)
  from conjunct1[OF experiment_tally[OF this, of 1 1 "[0]"]] demo_experiment show ?thesis by fastforce
qed

end
