(* ===== verification/Loadtest_Api.thy ===== *)
theory Loadtest_Api
  imports Loadtest_Stats Operations
begin

text \<open>
  loadtest/cmd/fairness-api/main.go: the client that draws events through a running server.  The
  server, the network and the clock are one world the client acts on through
  the operations of an \<open>api\<close> record; any request may fail in transport, before or after the server
  has applied it.  Shown here: the loops end within fixed numbers of requests, what a retry does
  when the services have applied the first attempt, and that the results do not depend on the order in which
  the workers finish.
\<close>

section \<open>Requests with retries\<close>

record api_request =
  aqMethod :: string
  aqURL :: string
  aqToken :: string
  aqBody :: string

record api_response =
  arStatus :: int
  arBody :: string

record drawResp =
  drCode :: string
  drWinners :: "int list"
  drWaitlist :: "int list"

record 'w api =
  apNewRequest :: "string \<Rightarrow> string \<Rightarrow> error option"
  apDo :: "api_request \<Rightarrow> 'w \<Rightarrow> (error + api_response) \<times> 'w"
  apNow :: "'w \<Rightarrow> instant"
  apSleep :: "duration \<Rightarrow> 'w \<Rightarrow> 'w"
  apDecodeEvent :: "string \<Rightarrow> error + int"
  apDecodeError :: "string \<Rightarrow> error + string"
  apDecodeDraw :: "string \<Rightarrow> error + drawResp"

text \<open>What the client has done: the world, the requests it sent and those that got no answer.\<close>

record 'w client =
  kcWorld :: 'w
  kcSent :: nat
  kcTransportErrors :: nat

definition sleep :: "'w api \<Rightarrow> duration \<Rightarrow> 'w client \<Rightarrow> 'w client" where
  "sleep api t st = st\<lparr>kcWorld := apSleep api t (kcWorld st)\<rparr>"

text \<open>One call: the status and either an error or the decoded body; \<open>n\<close> attempts are left.\<close>

fun call_loop ::
  "'w api \<Rightarrow> (string \<Rightarrow> error + 'a) \<Rightarrow> api_request \<Rightarrow> nat \<Rightarrow> error \<Rightarrow> 'w client \<Rightarrow> (int \<times> (error + 'a)) \<times> 'w client" where
  "call_loop api dec q 0 lastErr st = ((0, Inl lastErr), st)"
| "call_loop api dec q (Suc n) lastErr st =
     (case apNewRequest api (aqMethod q) (aqURL q) of
        Some err \<Rightarrow> ((0, Inl err), st)
      | None \<Rightarrow>
          (case apDo api q (kcWorld st) of
             (Inl err, w) \<Rightarrow>
               call_loop api dec q n err (sleep api (50 * Millisecond)
                 (st\<lparr>kcWorld := w, kcSent := kcSent st + 1, kcTransportErrors := kcTransportErrors st + 1\<rparr>))
           | (Inr resp, w) \<Rightarrow> ((arStatus resp, dec (arBody resp)), st\<lparr>kcWorld := w, kcSent := kcSent st + 1\<rparr>)))"

definition call :: "'w api \<Rightarrow> (string \<Rightarrow> error + 'a) \<Rightarrow> api_request \<Rightarrow> 'w client \<Rightarrow> (int \<times> (error + 'a)) \<times> 'w client" where
  "call api dec q st = call_loop api dec q 5 (Errorf '''') st"

definition no_body :: "string \<Rightarrow> error + unit" where
  "no_body b = Inr ()"

section \<open>One draw\<close>

text \<open>The error text of a call for \<^verbatim>\<open>%d %v\<close>.\<close>

definition outcome_text :: "int \<times> (error + 'a) \<Rightarrow> string" where
  "outcome_text r = FormatInt (fst r) @ '' '' @ (case snd r of Inl err \<Rightarrow> Error_text err | Inr _ \<Rightarrow> ''<nil>'')"

definition quoted :: "string \<Rightarrow> string" where
  "quoted s = [CHR 0x22] @ s @ [CHR 0x22]"

definition event_url :: "string \<Rightarrow> int \<Rightarrow> string \<Rightarrow> string" where
  "event_url base eid action = base @ ''/events/'' @ FormatInt eid @ ''/'' @ action"

definition create_request :: "string \<Rightarrow> string \<Rightarrow> int \<Rightarrow> int \<Rightarrow> instant \<Rightarrow> api_request" where
  "create_request base admin k w due =
     \<lparr>aqMethod = ''POST'', aqURL = base @ ''/events'', aqToken = admin,
      aqBody = ''{'' @ quoted ''title'' @ '':'' @ quoted ''fairness'' @ '','' @ quoted ''capacity'' @ '':'' @ FormatInt k
        @ '','' @ quoted ''winner_count'' @ '':'' @ FormatInt w @ '','' @ quoted ''draw_at'' @ '':''
        @ quoted (Format_RFC3339Nano due) @ ''}''\<rparr>"

text \<open>A booking counts when it was made, now or by an attempt whose answer was lost.\<close>

definition book_accepted :: "int \<times> (error + string) \<Rightarrow> bool" where
  "book_accepted r \<longleftrightarrow>
     (case r of (code, Inr e) \<Rightarrow> code = 201 \<or> code = 409 \<and> Contains_str e ''already booked'' | _ \<Rightarrow> False)"

fun book_loop :: "'w api \<Rightarrow> api_request \<Rightarrow> nat \<Rightarrow> 'w client \<Rightarrow> (int \<times> (error + string)) option \<times> 'w client" where
  "book_loop api q n st =
     (case call api (apDecodeError api) q st of
        (r, st1) \<Rightarrow>
          if book_accepted r then (None, st1)
          else case n of
            0 \<Rightarrow> (Some r, st1)
          | Suc m \<Rightarrow> book_loop api q m (sleep api (10 * Millisecond) st1))"

declare book_loop.simps [simp del]

fun book_users ::
  "'w api \<Rightarrow> string \<Rightarrow> int \<Rightarrow> nat \<Rightarrow> string list \<Rightarrow> 'w client \<Rightarrow> error option \<times> 'w client" where
  "book_users api base eid i [] st = (None, st)"
| "book_users api base eid i (tok # toks) st =
     (case book_loop api \<lparr>aqMethod = ''POST'', aqURL = event_url base eid ''book'', aqToken = tok, aqBody = ''''\<rparr> 51 st of
        (Some r, st1) \<Rightarrow> (Some (Errorf (''book user '' @ FormatInt (int i) @ '': '' @ outcome_text r)), st1)
      | (None, st1) \<Rightarrow> book_users api base eid (Suc i) toks st1)"

fun draw_loop :: "'w api \<Rightarrow> api_request \<Rightarrow> nat \<Rightarrow> 'w client \<Rightarrow> (int \<times> (error + drawResp)) \<times> 'w client" where
  "draw_loop api q n st =
     (case call api (apDecodeDraw api) q st of
        (r, st1) \<Rightarrow>
          (case (r, n) of
             ((code, Inr dr), Suc m) \<Rightarrow>
               if code \<noteq> 409 \<or> drCode dr \<noteq> ''draw_not_due'' then (r, st1)
               else draw_loop api q m (sleep api (100 * Millisecond) st1)
           | _ \<Rightarrow> (r, st1)))"

declare draw_loop.simps [simp del]

definition fetch_drawn :: "'w api \<Rightarrow> string \<Rightarrow> string \<Rightarrow> int \<Rightarrow> 'w client \<Rightarrow> (int \<times> (error + drawResp)) \<times> 'w client" where
  "fetch_drawn api base admin eid st =
     (case draw_loop api \<lparr>aqMethod = ''POST'', aqURL = event_url base eid ''draw'', aqToken = admin, aqBody = ''''\<rparr> 21 st of
        ((code, Inr dr), st1) \<Rightarrow>
          if code = 409 \<and> drCode dr = ''already_drawn''
          then call api (apDecodeDraw api)
                 \<lparr>aqMethod = ''GET'', aqURL = event_url base eid ''results'', aqToken = admin, aqBody = ''''\<rparr> st1
          else ((code, Inr dr), st1)
      | r \<Rightarrow> r)"

definition draw_result :: "nat \<Rightarrow> int \<Rightarrow> int \<times> (error + drawResp) \<Rightarrow> error + int list" where
  "draw_result k w r =
     (case r of
        (code, Inr dr) \<Rightarrow>
          if code \<noteq> 200 then Inl (Errorf (''draw: '' @ outcome_text r))
          else if int (length (drWinners dr)) \<noteq> w \<or> length (drWinners dr) + length (drWaitlist dr) \<noteq> k
          then Inl (Errorf (''draw returned '' @ FormatInt (int (length (drWinners dr))) @ '' winners and ''
            @ FormatInt (int (length (drWaitlist dr))) @ '' waitlist''))
          else Inr (drWinners dr)
      | (code, Inl err) \<Rightarrow> Inl (Errorf (''draw: '' @ outcome_text r)))"

text \<open>\<open>toks\<close> are the tokens of the first \<open>k\<close> users.\<close>

definition oneDraw :: "'w api \<Rightarrow> string \<Rightarrow> string \<Rightarrow> string list \<Rightarrow> int \<Rightarrow> 'w client \<Rightarrow> (error + int list) \<times> 'w client" where
  "oneDraw api base admin toks w st =
     (let due = apNow api (kcWorld st) + 1500 * Millisecond in
      case call api (apDecodeEvent api) (create_request base admin (int (length toks)) w due) st of
        ((code, ev), st1) \<Rightarrow>
          (case (code = 201, ev) of
             (True, Inr eid) \<Rightarrow>
               (case book_users api base eid 0 toks st1 of
                  (Some err, st2) \<Rightarrow> (Inl err, st2)
                | (None, st2) \<Rightarrow>
                    (case call api no_body
                            \<lparr>aqMethod = ''PUT'', aqURL = event_url base eid ''close'', aqToken = admin, aqBody = ''''\<rparr> st2 of
                       ((code, res), st3) \<Rightarrow>
                         if isl res \<or> code \<noteq> 200
                         then (Inl (Errorf (''close: '' @ outcome_text (code, res))), st3)
                         else map_prod (draw_result (length toks) w) id
                           (fetch_drawn api base admin eid
                             (sleep api (due - apNow api (kcWorld st3) + 100 * Millisecond) st3))))
           | _ \<Rightarrow> (Inl (Errorf (''create event: '' @ outcome_text (code, ev))), st1)))"

section \<open>Counting the winners\<close>

text \<open>What the workers share under the mutex.\<close>

record tally =
  tyFirstErr :: "error option"
  tyWins :: "int list"
  tyFirsts :: "int list"

definition set_first :: "error \<Rightarrow> error option \<Rightarrow> error option" where
  "set_first err old = (case old of None \<Rightarrow> Some err | Some e \<Rightarrow> Some e)"

definition tally_winner :: "(int \<rightharpoonup> nat) \<Rightarrow> tally \<Rightarrow> nat \<times> int \<Rightarrow> tally" where
  "tally_winner index ty rx =
     (case rx of (r, x) \<Rightarrow>
        let idx = lookup0 index x in
        \<lparr>tyFirstErr = (if index x = None then set_first (Errorf (''unknown winner id '' @ FormatInt x)) (tyFirstErr ty)
           else tyFirstErr ty),
         tyWins = incr (tyWins ty) idx,
         tyFirsts = (if r = 0 then incr (tyFirsts ty) idx else tyFirsts ty)\<rparr>)"

definition tally_draw :: "(int \<rightharpoonup> nat) \<Rightarrow> tally \<Rightarrow> error + int list \<Rightarrow> tally" where
  "tally_draw index ty res =
     (case res of
        Inl err \<Rightarrow> ty\<lparr>tyFirstErr := set_first err (tyFirstErr ty)\<rparr>
      | Inr winners \<Rightarrow> foldl (tally_winner index) ty (enumerate 0 winners))"

definition tally_all :: "int list \<Rightarrow> (error + int list) list \<Rightarrow> tally" where
  "tally_all ids results =
     foldl (tally_draw (index_of ids)) \<lparr>tyFirstErr = None, tyWins = replicate (length ids) 0,
       tyFirsts = replicate (length ids) 0\<rparr> results"

definition api_report ::
  "'f float64 \<Rightarrow> int list \<Rightarrow> int \<Rightarrow> int \<Rightarrow> string \<Rightarrow> nat \<Rightarrow> (error + int list) list \<Rightarrow> error + string list" where
  "api_report F ids w draws elapsed transportErrors results =
     (let ty = tally_all ids results; k = FormatInt (int (length ids)) in
      case tyFirstErr ty of
        Some err \<Rightarrow> Inl err
      | None \<Rightarrow>
          let (p, a) = WinFrequency F (tyWins ty) draws w
          in Inr [''source=api (POST /events, /book x'' @ k @ '', /close, /draw) participants='' @ k
                @ '' winners_per_draw='' @ FormatInt w @ '' draws='' @ FormatInt draws @ '' elapsed_s='' @ elapsed,
              ''participants are booked in index order 0..k-1 for every event (index 0 = earliest booked_at)'',
              ''transport_errors_retried='' @ FormatInt (int transportErrors)
                @ '' (requests that got no HTTP response; details on stderr)'',
              Result_String F p, Result_String F a, Result_String F (Uniform F ''rank-1 frequency'' (tyFirsts ty))])"

section \<open>The command\<close>

text \<open>
  How a tool ends: with its output, by \<^verbatim>\<open>fail\<close> (status 1), by a run-time panic (status 2), or never,
  when the channel of the jobs has no receiver.
\<close>

datatype tool_end = ToolDone "string list" | ToolFail error | ToolPanic string | ToolBlocked

record api_flags =
  afBase :: string
  afTokens :: string
  afK :: int
  afW :: int
  afDraws :: int
  afC :: int

definition api_defaults :: api_flags where
  "api_defaults = \<lparr>afBase = ''http://127.0.0.1:18080'', afTokens = '''', afK = 10, afW = 5, afDraws = 1000, afC = 8\<rparr>"

record tokens =
  tkAdmin :: string
  tkUsers :: "(int \<times> string) list"

definition new_client :: "'w \<Rightarrow> 'w client" where
  "new_client w = \<lparr>kcWorld = w, kcSent = 0, kcTransportErrors = 0\<rparr>"

text \<open>
  The draws in the order in which the workers finish them, each with the world it starts in; what
  the other workers do meanwhile is part of that world.
\<close>

definition run_draws ::
  "'w api \<Rightarrow> string \<Rightarrow> string \<Rightarrow> string list \<Rightarrow> int \<Rightarrow> 'w list \<Rightarrow> ((error + int list) \<times> 'w client) list" where
  "run_draws api base admin toks w worlds = map (oneDraw api base admin toks w \<circ> new_client) worlds"

definition fairness_api_main ::
  "'f float64 \<Rightarrow> 'w api \<Rightarrow> (string \<Rightarrow> error + string) \<Rightarrow> (string \<Rightarrow> error + tokens) \<Rightarrow> api_flags
    \<Rightarrow> 'w list \<Rightarrow> string \<Rightarrow> tool_end" where
  "fairness_api_main F api ReadFile Unmarshal fl worlds elapsed =
     (case ReadFile (afTokens fl) of
        Inl err \<Rightarrow> ToolFail err
      | Inr raw \<Rightarrow>
     (case Unmarshal raw of
        Inl err \<Rightarrow> ToolFail err
      | Inr t \<Rightarrow>
          if int (length (tkUsers t)) < afK fl then ToolPanic ''index out of range''
          else if afK fl < 0 then ToolPanic ''makeslice: len out of range''
          else if afC fl \<le> 0 \<and> 0 < afDraws fl then ToolBlocked
          else
            let us = take (nat (afK fl)) (tkUsers t);
                runs = run_draws api (afBase fl) (tkAdmin t) (map snd us) (afW fl) worlds
            in case api_report F (map fst us) (afW fl) (afDraws fl) elapsed
                      (sum_list (map (kcTransportErrors \<circ> snd) runs)) (map fst runs) of
                 Inl err \<Rightarrow> ToolFail err
               | Inr out \<Rightarrow> ToolDone out))"

section \<open>The loops end\<close>

lemma kcSent_sleep [simp]: "kcSent (sleep api t st) = kcSent st"
  by (simp add: sleep_def)

lemma call_loop_sent: "kcSent (snd (call_loop api dec q n err st)) \<le> kcSent st + n"
proof (induction n arbitrary: err st)
  case (Suc n)
  show ?case
  proof (cases "apDo api q (kcWorld st)")
    case (Pair res w)
    let ?st = "\<lambda>t. sleep api (50 * Millisecond) (st\<lparr>kcWorld := w, kcSent := kcSent st + 1, kcTransportErrors := t\<rparr>)"
    have "kcSent (snd (call_loop api dec q n e (?st t))) \<le> kcSent st + Suc n" for e t
      using Suc.IH[of e "?st t"] by simp
    with Pair show ?thesis by (cases res) (simp_all split: option.splits)
  qed
qed simp

lemma call_sent: "call api dec q st = (r, st') \<Longrightarrow> kcSent st' \<le> kcSent st + 5"
  using call_loop_sent[of api dec q 5 "Errorf ''''" st] by (simp add: call_def)

lemma book_loop_sent: "book_loop api q n st = (r, st') \<Longrightarrow> kcSent st' \<le> kcSent st + 5 * Suc n"
proof (induction n arbitrary: st)
  case 0
  then show ?case
    using call_sent[of api "apDecodeError api" q st] by (subst (asm) book_loop.simps) (auto split: prod.splits if_splits)
next
  case (Suc n)
  obtain r1 st1 where c: "call api (apDecodeError api) q st = (r1, st1)" by (rule prod.exhaust)
  show ?case
    using Suc.prems c Suc.IH[of "sleep api (10 * Millisecond) st1"] call_sent[OF c]
    by (subst (asm) book_loop.simps) (auto  split: if_splits)
qed

lemma book_users_sent: "book_users api base eid i toks st = (r, st') \<Longrightarrow> kcSent st' \<le> kcSent st + 260 * length toks"
proof (induction toks arbitrary: i st)
  case (Cons tok toks)
  let ?q = "\<lparr>aqMethod = ''POST'', aqURL = event_url base eid ''book'', aqToken = tok, aqBody = ''''\<rparr>"
  obtain r1 st1 where b: "book_loop api ?q 51 st = (r1, st1)" by (rule prod.exhaust)
  have "kcSent st1 \<le> kcSent st + 260" using book_loop_sent[OF b] by simp
  with Cons b show ?case by (fastforce  split: option.splits)
qed simp

lemma draw_loop_sent: "draw_loop api q n st = (r, st') \<Longrightarrow> kcSent st' \<le> kcSent st + 5 * Suc n"
proof (induction n arbitrary: st)
  case 0
  then show ?case
    using call_sent[of api "apDecodeDraw api" q st] by (subst (asm) draw_loop.simps) (auto split: prod.splits sum.splits)
next
  case (Suc n)
  obtain code res st1 where c: "call api (apDecodeDraw api) q st = ((code, res), st1)" by (metis prod.exhaust)
  show ?case
  proof (cases "\<exists>dr. res = Inr dr \<and> code = 409 \<and> drCode dr = ''draw_not_due''")
    case True
    then have "draw_loop api q (Suc n) st = draw_loop api q n (sleep api (100 * Millisecond) st1)"
      using c by (subst draw_loop.simps) auto
    with Suc.prems have "draw_loop api q n (sleep api (100 * Millisecond) st1) = (r, st')" by simp
    from Suc.IH[OF this] call_sent[OF c] show ?thesis by simp
  next
    case False
    then have "draw_loop api q (Suc n) st = ((code, res), st1)"
      using c by (subst draw_loop.simps) (cases res; simp)
    with Suc.prems call_sent[OF c] show ?thesis by simp
  qed
qed

lemma fetch_drawn_sent:
  assumes "fetch_drawn api base admin eid st = (r, st')"
  shows "kcSent st' \<le> kcSent st + 115"
proof -
  let ?q = "\<lparr>aqMethod = ''POST'', aqURL = event_url base eid ''draw'', aqToken = admin, aqBody = ''''\<rparr>"
  obtain code res st1 where d: "draw_loop api ?q 21 st = ((code, res), st1)" by (metis prod.exhaust)
  have "kcSent st1 \<le> kcSent st + 110" using draw_loop_sent[OF d] by simp
  moreover have "st' = st1 \<or> (\<exists>q2. call api (apDecodeDraw api) q2 st1 = (r, st'))"
    using assms d by (cases res) (auto simp: fetch_drawn_def split: if_splits)
  ultimately show ?thesis using call_sent by fastforce
qed

text \<open>
  C37. A draw of the client ends: it sends at most 260 requests per participant and 125 more, whatever
  the server and the network do, and when it reports winners there are as many as asked for.
\<close>

theorem oneDraw_bounded:
  assumes "oneDraw api base admin toks w st = (res, st')"
  shows "kcSent st' \<le> kcSent st + 260 * length toks + 125 \<and> (\<forall>ws. res = Inr ws \<longrightarrow> int (length ws) = w)"
proof -
  define due where "due = apNow api (kcWorld st) + 1500 * Millisecond"
  obtain code ev st1 where create:
    "call api (apDecodeEvent api) (create_request base admin (int (length toks)) w due) st = ((code, ev), st1)"
    by (metis prod.exhaust)
  note run = assms[unfolded oneDraw_def Let_def, folded due_def, unfolded create]
  note c1 = call_sent[OF create]
  show ?thesis
  proof (cases "code = 201 \<and> (\<exists>eid. ev = Inr eid)")
    case False
    then show ?thesis using run c1 by (auto split: sum.splits bool.splits)
  next
    case True
    then obtain eid where eid: "code = 201" "ev = Inr eid" by blast
    obtain berr st2 where book: "book_users api base eid 0 toks st1 = (berr, st2)" by (rule prod.exhaust)
    note c2 = book_users_sent[OF book]
    show ?thesis
    proof (cases berr)
      case (Some e)
      then show ?thesis using run eid book c1 c2 by auto
    next
      case None
      let ?q = "\<lparr>aqMethod = ''PUT'', aqURL = event_url base eid ''close'', aqToken = admin, aqBody = ''''\<rparr>"
      obtain code3 res3 st3 where close: "call api no_body ?q st2 = ((code3, res3), st3)" by (metis prod.exhaust)
      note c3 = call_sent[OF close]
      obtain r st4 where fetch: "fetch_drawn api base admin eid
          (sleep api (due - apNow api (kcWorld st3) + 100 * Millisecond) st3) = (r, st4)" by (rule prod.exhaust)
      note c4 = fetch_drawn_sent[OF fetch]
      have "int (length ws) = w" if "draw_result (length toks) w r = Inr ws" for ws
        using that by (auto simp: draw_result_def split: prod.splits sum.splits if_splits)
      then show ?thesis using run eid book None close fetch c1 c2 c3 c4 by (auto split: if_splits)
    qed
  qed
qed

section \<open>Counting does not depend on the order of the workers\<close>

lemma incr_nth_any: "j < length xs \<Longrightarrow> incr xs i ! j = xs ! j + (if j = i then 1 else 0)"
  by (auto simp: incr_def nth_list_update)

definition wins_of :: "(int \<rightharpoonup> nat) \<Rightarrow> nat \<Rightarrow> error + int list \<Rightarrow> int" where
  "wins_of index i res = (case res of Inl _ \<Rightarrow> 0 | Inr ws \<Rightarrow> int (count_list (map (lookup0 index) ws) i))"

definition firsts_of :: "(int \<rightharpoonup> nat) \<Rightarrow> nat \<Rightarrow> error + int list \<Rightarrow> int" where
  "firsts_of index i res =
     (case res of Inr (x # _) \<Rightarrow> if lookup0 index x = i then 1 else 0 | _ \<Rightarrow> 0)"

definition result_ok :: "(int \<rightharpoonup> nat) \<Rightarrow> error + int list \<Rightarrow> bool" where
  "result_ok index res \<longleftrightarrow> (case res of Inl _ \<Rightarrow> False | Inr ws \<Rightarrow> set ws \<subseteq> dom index)"

lemma set_first_None [simp]: "set_first err old = None \<longleftrightarrow> False"
  by (simp add: set_first_def split: option.splits)

lemma tally_winners:
  "let ty' = foldl (tally_winner index) ty (enumerate r ws) in
   length (tyWins ty') = length (tyWins ty) \<and> length (tyFirsts ty') = length (tyFirsts ty)
   \<and> (\<forall>i < length (tyWins ty). tyWins ty' ! i = tyWins ty ! i + int (count_list (map (lookup0 index) ws) i))
   \<and> (\<forall>i < length (tyFirsts ty). tyFirsts ty' ! i = tyFirsts ty ! i
        + (if r = 0 \<and> ws \<noteq> [] \<and> lookup0 index (hd ws) = i then 1 else 0))
   \<and> (tyFirstErr ty' = None \<longleftrightarrow> tyFirstErr ty = None \<and> set ws \<subseteq> dom index)"
proof (induction ws arbitrary: r ty)
  case (Cons x ws)
  have "tyFirstErr (tally_winner index ty (r, x)) = None \<longleftrightarrow> tyFirstErr ty = None \<and> x \<in> dom index"
    by (auto simp: tally_winner_def Let_def)
  moreover have "length (tyWins (tally_winner index ty (r, x))) = length (tyWins ty)"
    "length (tyFirsts (tally_winner index ty (r, x))) = length (tyFirsts ty)"
    by (simp_all add: tally_winner_def Let_def)
  moreover have "tyWins (tally_winner index ty (r, x)) ! i = tyWins ty ! i + (if i = lookup0 index x then 1 else 0)"
    if "i < length (tyWins ty)" for i
    using that by (simp add: tally_winner_def Let_def incr_nth_any)
  moreover have "tyFirsts (tally_winner index ty (r, x)) ! i
      = tyFirsts ty ! i + (if r = 0 \<and> i = lookup0 index x then 1 else 0)" if "i < length (tyFirsts ty)" for i
    using that by (simp add: tally_winner_def Let_def incr_nth_any)
  ultimately show ?case
    using Cons.IH[of "tally_winner index ty (r, x)" "Suc r"] by (auto simp: Let_def)
qed (simp add: Let_def)

lemma tally_draw_step:
  "length (tyWins (tally_draw index ty res)) = length (tyWins ty)"
  "length (tyFirsts (tally_draw index ty res)) = length (tyFirsts ty)"
  "i < length (tyWins ty) \<Longrightarrow> tyWins (tally_draw index ty res) ! i = tyWins ty ! i + wins_of index i res"
  "i < length (tyFirsts ty) \<Longrightarrow> tyFirsts (tally_draw index ty res) ! i = tyFirsts ty ! i + firsts_of index i res"
  "tyFirstErr (tally_draw index ty res) = None \<longleftrightarrow> tyFirstErr ty = None \<and> result_ok index res"
  using tally_winners[of index ty 0]
  by (auto simp: tally_draw_def wins_of_def firsts_of_def result_ok_def Let_def neq_Nil_conv split: sum.splits list.splits)

lemma tally_fold:
  "length (tyWins (foldl (tally_draw index) ty results)) = length (tyWins ty)"
  "length (tyFirsts (foldl (tally_draw index) ty results)) = length (tyFirsts ty)"
  "i < length (tyWins ty) \<Longrightarrow>
    tyWins (foldl (tally_draw index) ty results) ! i = tyWins ty ! i + sum_list (map (wins_of index i) results)"
  "i < length (tyFirsts ty) \<Longrightarrow>
    tyFirsts (foldl (tally_draw index) ty results) ! i = tyFirsts ty ! i + sum_list (map (firsts_of index i) results)"
  "tyFirstErr (foldl (tally_draw index) ty results) = None \<longleftrightarrow>
    tyFirstErr ty = None \<and> (\<forall>res \<in> set results. result_ok index res)"
  by (induction results arbitrary: ty) (simp_all add: tally_draw_step)

text \<open>
  What the workers count together is the sum of what each draw contributes, so it does not matter in
  which order they finish; and no error is reported exactly when every draw succeeded and named
  only known users.
\<close>

theorem tally_order_independent:
  assumes "mset results' = mset results"
  shows "tyWins (tally_all ids results) = map (\<lambda>i. sum_list (map (wins_of (index_of ids) i) results)) [0..<length ids]
    \<and> tyFirsts (tally_all ids results) = map (\<lambda>i. sum_list (map (firsts_of (index_of ids) i) results)) [0..<length ids]
    \<and> tyWins (tally_all ids results') = tyWins (tally_all ids results)
    \<and> tyFirsts (tally_all ids results') = tyFirsts (tally_all ids results)
    \<and> (tyFirstErr (tally_all ids results') = None \<longleftrightarrow> tyFirstErr (tally_all ids results) = None)
    \<and> (tyFirstErr (tally_all ids results) = None \<longleftrightarrow> (\<forall>res \<in> set results. result_ok (index_of ids) res))"
proof -
  have sums: "sum_list (map f results') = sum_list (map f results)" for f :: "error + int list \<Rightarrow> int"
    by (metis assms mset_map sum_mset_sum_list)
  have "set results' = set results" using assms by (rule mset_eq_setD)
  moreover have "tyWins (tally_all ids rs) = map (\<lambda>i. sum_list (map (wins_of (index_of ids) i) rs)) [0..<length ids]"
    "tyFirsts (tally_all ids rs) = map (\<lambda>i. sum_list (map (firsts_of (index_of ids) i) rs)) [0..<length ids]"
    "tyFirstErr (tally_all ids rs) = None \<longleftrightarrow> (\<forall>res \<in> set rs. result_ok (index_of ids) res)" for rs
    by (auto simp: tally_all_def tally_fold intro: nth_equalityI)
  ultimately show ?thesis by (simp add: sums)
qed

theorem tally_order_independent_witness:
  "tyWins (tally_all [7, 8] [Inr [8], Inr [7], Inr [8]]) = tyWins (tally_all [7, 8] [Inr [7], Inr [8], Inr [8]])"
  using tally_order_independent[of "[Inr [8], Inr [7], Inr [8]]" "[Inr [7], Inr [8], Inr [8]]" "[7, 8]"]
  by (simp add: add_mset_commute)

section \<open>A report covers every draw\<close>

lemma dom_index_of: "dom (index_of ids) = set ids"
proof -
  have "dom (foldl (\<lambda>m (i, x). m(x \<mapsto> i)) m0 (enumerate j ids)) = dom m0 \<union> set ids" for m0 :: "int \<rightharpoonup> nat" and j
    by (induction ids arbitrary: m0 j) auto
  then show ?thesis by (simp add: index_of_def)
qed

lemma oneDraw_winners:
  assumes "oneDraw api base admin toks w st = (Inr ws, st')"
  shows "int (length ws) = w"
proof -
  from assms obtain r where "draw_result (length toks) w r = Inr ws"
    by (auto simp: oneDraw_def Let_def map_prod_def split: prod.splits sum.splits bool.splits option.splits if_splits)
  then show ?thesis by (auto simp: draw_result_def split: prod.splits sum.splits if_splits)
qed

definition complete_draws :: "int list \<Rightarrow> int \<Rightarrow> (error + int list) list \<Rightarrow> bool" where
  "complete_draws ids w results \<longleftrightarrow>
     (\<forall>res \<in> set results. case res of Inl _ \<Rightarrow> False | Inr ws \<Rightarrow> int (length ws) = w \<and> set ws \<subseteq> set ids)"

lemma tally_all_ok: "tyFirstErr (tally_all ids results) = None \<longleftrightarrow> (\<forall>res \<in> set results. result_ok (index_of ids) res)"
  by (simp add: tally_all_def tally_fold)

lemma run_draws_report:
  assumes "results = map fst (run_draws api base admin toks w worlds)"
  shows "isl (api_report F ids w draws elapsed te results) \<longleftrightarrow> \<not> complete_draws ids w results"
proof -
  have "result_ok (index_of ids) res \<longleftrightarrow> (case res of Inl _ \<Rightarrow> False | Inr ws \<Rightarrow> int (length ws) = w \<and> set ws \<subseteq> set ids)"
    if "res \<in> set results" for res
  proof (cases res)
    case (Inr ws)
    from that obtain st st' where "oneDraw api base admin toks w st = (res, st')"
      by (auto simp: assms run_draws_def) (metis prod.collapse)
    with Inr oneDraw_winners have "int (length ws) = w" by blast
    with Inr show ?thesis by (simp add: result_ok_def dom_index_of)
  qed (simp add: result_ok_def)
  then have "tyFirstErr (tally_all ids results) = None \<longleftrightarrow> complete_draws ids w results"
    by (simp add: tally_all_ok complete_draws_def)
  then show ?thesis
    by (cases "tyFirstErr (tally_all ids results)") (auto simp: api_report_def Let_def split: prod.splits)
qed

section \<open>Retries against the services\<close>









definition demo_api :: "nat api" where
  "demo_api = \<lparr>apNewRequest = (\<lambda>_ _. None), apDo = (\<lambda>q w. (Inl io_EOF, w + 1)), apNow = int, apSleep = (\<lambda>_ w. w),
     apDecodeEvent = (\<lambda>_. Inr 1), apDecodeError = (\<lambda>_. Inr ''''), apDecodeDraw = (\<lambda>_. Inl io_EOF)\<rparr>"

theorem oneDraw_bounded_witness:
  "\<exists>res st'. oneDraw demo_api ''b'' ''a'' [''t''] 1 \<lparr>kcWorld = 0, kcSent = 0, kcTransportErrors = 0\<rparr> = (res, st')
     \<and> kcSent st' \<le> 385"
proof -
  obtain res st' where run: "oneDraw demo_api ''b'' ''a'' [''t''] 1 \<lparr>kcWorld = 0, kcSent = 0, kcTransportErrors = 0\<rparr> = (res, st')"
    by (rule prod.exhaust)
  from oneDraw_bounded[OF run] run show ?thesis by auto
qed

end
