(* ===== verification/Loadtest_Setup.thy ===== *)
theory Loadtest_Setup
  imports Loadtest_Api
begin

text \<open>
  loadtest/cmd/setup-users/main.go: registers the users of a load test, logs each of them in and
  writes their tokens to the file that the other tools read.  Shown here: the file is written only
  when it is complete, and the fairness tool can run on it.
\<close>

section \<open>Registering and logging in\<close>

record userToken =
  utID :: int
  utEmail :: string
  utToken :: string

record envelope =
  evSuccess :: bool
  evData :: string
  evError :: string

record 'w setup_api =
  suDo :: "string \<Rightarrow> string \<Rightarrow> 'w \<Rightarrow> (error + api_response) \<times> 'w"
  suMarshal :: "(string \<times> string) list \<Rightarrow> string"
  suDecodeEnvelope :: "string \<Rightarrow> envelope"
  suDecodeLogin :: "string \<Rightarrow> error + (string \<times> int)"

definition post ::
  "'w setup_api \<Rightarrow> string \<Rightarrow> string \<Rightarrow> (string \<times> string) list \<Rightarrow> 'w \<Rightarrow> (error + int \<times> envelope) \<times> 'w" where
  "post api base path body w =
     (case suDo api (base @ path) (suMarshal api body) w of
        (Inl err, w') \<Rightarrow> (Inl err, w')
      | (Inr resp, w') \<Rightarrow> (Inr (arStatus resp, suDecodeEnvelope api (arBody resp)), w'))"

definition setup_login :: "'w setup_api \<Rightarrow> string \<Rightarrow> string \<Rightarrow> string \<Rightarrow> 'w \<Rightarrow> (error + userToken) \<times> 'w" where
  "setup_login api base email password w =
     (case post api base ''/auth/login'' [(''email'', email), (''password'', password)] w of
        (Inl err, w') \<Rightarrow> (Inl err, w')
      | (Inr (code, env), w') \<Rightarrow>
          (if code \<noteq> 200
           then Inl (Errorf (''login '' @ email @ '': status '' @ FormatInt code @ '': '' @ evError env))
           else case suDecodeLogin api (evData env) of
             Inl err \<Rightarrow> Inl err
           | Inr (token, uid) \<Rightarrow> Inr \<lparr>utID = uid, utEmail = email, utToken = token\<rparr>, w'))"

definition setup_email :: "nat \<Rightarrow> string" where
  "setup_email i = ''lt-user-'' @ pad_nat 4 i @ ''@loadtest.local''"

definition setup_user :: "'w setup_api \<Rightarrow> string \<Rightarrow> string \<Rightarrow> nat \<Rightarrow> 'w \<Rightarrow> (int \<times> (error + userToken)) \<times> 'w" where
  "setup_user api base password i w =
     (case post api base ''/auth/register'' [(''email'', setup_email i), (''password'', password),
             (''full_name'', ''Loadtest User '' @ FormatInt (int i))] w of
        (Inl err, w') \<Rightarrow> ((0, Inl err), w')
      | (Inr (code, env), w') \<Rightarrow>
          if code \<noteq> 201 \<and> code \<noteq> 409
          then ((code, Inl (Errorf (''register '' @ setup_email i @ '': status '' @ FormatInt code @ '': '' @ evError env))), w')
          else map_prod (Pair code) id (setup_login api base (setup_email i) password w'))"

record setup_state =
  ssFirstErr :: "error option"
  ssRegistered :: int
  ssPreexisting :: int
  ssUsers :: "userToken list"

definition zero_token :: userToken where
  "zero_token = \<lparr>utID = 0, utEmail = '''', utToken = ''''\<rparr>"

definition setup_record :: "nat \<Rightarrow> int \<times> (error + userToken) \<Rightarrow> setup_state \<Rightarrow> setup_state" where
  "setup_record i r st =
     (case r of (code, res) \<Rightarrow>
        \<lparr>ssFirstErr = (case res of Inl err \<Rightarrow> set_first err (ssFirstErr st) | Inr _ \<Rightarrow> ssFirstErr st),
         ssRegistered = ssRegistered st + (if code = 201 then 1 else 0),
         ssPreexisting = ssPreexisting st + (if code = 409 then 1 else 0),
         ssUsers = (ssUsers st)[i := (case res of Inl _ \<Rightarrow> zero_token | Inr tok \<Rightarrow> tok)]\<rparr>)"

text \<open>
  The jobs in the order in which the workers finish them, each with the world it starts in; what the
  other workers do meanwhile is part of that world.
\<close>

fun setup_jobs :: "'w setup_api \<Rightarrow> string \<Rightarrow> string \<Rightarrow> (nat \<times> 'w) list \<Rightarrow> setup_state \<Rightarrow> setup_state" where
  "setup_jobs api base password [] st = st"
| "setup_jobs api base password ((i, w) # js) st =
     setup_jobs api base password js (setup_record i (fst (setup_user api base password i w)) st)"

section \<open>The command\<close>

record setup_flags =
  sfBase :: string
  sfN :: int
  sfC :: int
  sfPasswordFile :: string
  sfAdminEmail :: string
  sfAdminPasswordEnv :: string
  sfOut :: string

definition setup_defaults :: setup_flags where
  "setup_defaults = \<lparr>sfBase = ''http://127.0.0.1:18080'', sfN = 1000, sfC = 8, sfPasswordFile = '''', sfAdminEmail = '''',
     sfAdminPasswordEnv = ''BOOTSTRAP_ADMIN_PASSWORD'', sfOut = ''''\<rparr>"

record tokensFile =
  tfAdmin :: string
  tfUsers :: "userToken list"

text \<open>What becomes of the output file; after a failed \<^verbatim>\<open>Encode\<close> it holds some prefix of the text.\<close>

datatype out_file = Untouched | Incomplete | Written tokensFile

record os_lib =
  osReadFile :: "string \<Rightarrow> error + string"
  osGetenv :: "string \<Rightarrow> string"
  osOpenFile :: "string \<Rightarrow> error option"
  osEncode :: "tokensFile \<Rightarrow> error option"
  osClose :: "error option"

definition write_tokens :: "os_lib \<Rightarrow> string \<Rightarrow> tokensFile \<Rightarrow> error option \<times> out_file" where
  "write_tokens os out tf =
     (case osOpenFile os out of
        Some err \<Rightarrow> (Some err, Untouched)
      | None \<Rightarrow> (case osEncode os tf of Some err \<Rightarrow> (Some err, Incomplete) | None \<Rightarrow> (osClose os, Written tf)))"

definition setup_line :: "setup_flags \<Rightarrow> setup_state \<Rightarrow> string \<Rightarrow> string" where
  "setup_line fl st elapsed =
     ''users_requested='' @ FormatInt (sfN fl) @ '' registered_now='' @ FormatInt (ssRegistered st)
     @ '' already_existed='' @ FormatInt (ssPreexisting st) @ '' logged_in='' @ FormatInt (int (length (ssUsers st)))
     @ '' workers='' @ FormatInt (sfC fl) @ '' elapsed_s='' @ elapsed"

definition setup_start :: "nat \<Rightarrow> setup_state" where
  "setup_start n = \<lparr>ssFirstErr = None, ssRegistered = 0, ssPreexisting = 0, ssUsers = replicate n zero_token\<rparr>"

definition setup_main ::
  "'w setup_api \<Rightarrow> os_lib \<Rightarrow> setup_flags \<Rightarrow> 'w \<Rightarrow> (nat \<times> 'w) list \<Rightarrow> string \<Rightarrow> tool_end \<times> out_file" where
  "setup_main api os fl w jobs elapsed =
     (case osReadFile os (sfPasswordFile fl) of
        Inl err \<Rightarrow> (ToolFail err, Untouched)
      | Inr pw \<Rightarrow>
     (case fst (setup_login api (sfBase fl) (sfAdminEmail fl) (osGetenv os (sfAdminPasswordEnv fl)) w) of
        Inl err \<Rightarrow> (ToolFail err, Untouched)
      | Inr admin \<Rightarrow>
          if sfN fl < 0 then (ToolPanic ''makeslice: len out of range'', Untouched)
          else if sfC fl \<le> 0 \<and> 0 < sfN fl then (ToolBlocked, Untouched)
          else
            let st = setup_jobs api (sfBase fl) (TrimSpace pw) jobs (setup_start (nat (sfN fl)))
            in case ssFirstErr st of
                 Some err \<Rightarrow> (ToolFail err, Untouched)
               | None \<Rightarrow>
                   (case write_tokens os (sfOut fl) \<lparr>tfAdmin = utToken admin, tfUsers = ssUsers st\<rparr> of
                      (Some err, out) \<Rightarrow> (ToolFail err, out)
                    | (None, out) \<Rightarrow> (ToolDone [setup_line fl st elapsed], out))))"

section \<open>The tokens file is complete\<close>

lemma setup_user_code:
  assumes "setup_user api base password i w = ((code, Inr tok), w')"
  shows "code = 201 \<or> code = 409" and "utEmail tok = setup_email i"
  using assms
  by (auto simp: setup_user_def setup_login_def split: sum.splits prod.splits if_splits)

lemma setup_jobs_error: "ssFirstErr st \<noteq> None \<Longrightarrow> ssFirstErr (setup_jobs api base password js st) \<noteq> None"
proof (induction api base password js st rule: setup_jobs.induct)
  case (2 api base password i w js st)
  have "ssFirstErr (setup_record i (fst (setup_user api base password i w)) st) \<noteq> None"
    using 2(2) by (auto simp: setup_record_def set_first_def split: prod.splits sum.splits option.splits)
  from 2(1)[OF this] show ?case by simp
qed simp

lemma setup_jobs_done:
  assumes "ssFirstErr (setup_jobs api base password js st) = None"
    and "distinct (map fst js)" and "\<forall>i \<in> set (map fst js). i < length (ssUsers st)"
  shows "ssRegistered (setup_jobs api base password js st) + ssPreexisting (setup_jobs api base password js st)
      = ssRegistered st + ssPreexisting st + int (length js)
    \<and> length (ssUsers (setup_jobs api base password js st)) = length (ssUsers st)
    \<and> (\<forall>i \<in> set (map fst js). utEmail (ssUsers (setup_jobs api base password js st) ! i) = setup_email i)
    \<and> (\<forall>i. i \<notin> set (map fst js) \<longrightarrow> ssUsers (setup_jobs api base password js st) ! i = ssUsers st ! i)"
  using assms
proof (induction api base password js st rule: setup_jobs.induct)
  case (2 api base password i w js st)
  obtain code res w1 where u: "setup_user api base password i w = ((code, res), w1)" by (metis prod.exhaust)
  let ?st1 = "setup_record i (code, res) st"
  have rest: "ssFirstErr (setup_jobs api base password js ?st1) = None" using 2(2) u by simp
  with setup_jobs_error have "ssFirstErr ?st1 = None" by blast
  then obtain tok where res: "res = Inr tok" by (cases res) (auto simp: setup_record_def)
  note tok = setup_user_code[OF u[unfolded res]]
  have len: "length (ssUsers ?st1) = length (ssUsers st)" by (simp add: setup_record_def)
  have "\<forall>j \<in> set (map fst js). j < length (ssUsers ?st1)" using 2(4) len by simp
  with 2(1)[unfolded u fst_conv, OF rest] 2(3,4) tok show ?case
    by (auto simp: u setup_record_def res nth_list_update split: if_splits)
qed simp

lemma setup_main_written:
  assumes "setup_main api os fl w jobs elapsed = (e, out)" and "out \<noteq> Untouched"
  obtains st admin where "0 \<le> sfN fl" "ssFirstErr st = None"
    "\<exists>pw. st = setup_jobs api (sfBase fl) pw jobs (setup_start (nat (sfN fl)))"
    "out = Incomplete \<and> (\<exists>err. e = ToolFail err) \<or>
     out = Written \<lparr>tfAdmin = admin, tfUsers = ssUsers st\<rparr> \<and> (e = ToolDone [setup_line fl st elapsed] \<or> (\<exists>err. e = ToolFail err))"
  using assms
  by (auto simp: setup_main_def write_tokens_def Let_def split: sum.splits option.splits if_splits prod.splits)

lemma setup_all_done:
  assumes "ssFirstErr (setup_jobs api base pw jobs (setup_start n)) = None" and "mset (map fst jobs) = mset [0..<n]"
  shows "ssRegistered (setup_jobs api base pw jobs (setup_start n)) + ssPreexisting (setup_jobs api base pw jobs (setup_start n)) = int n
    \<and> length (ssUsers (setup_jobs api base pw jobs (setup_start n))) = n
    \<and> (\<forall>i < n. utEmail (ssUsers (setup_jobs api base pw jobs (setup_start n)) ! i) = setup_email i)"
proof -
  have "distinct (map fst jobs)" using mset_eq_imp_distinct_iff[OF assms(2)] by simp
  moreover have set: "set (map fst jobs) = {0..<n}" using mset_eq_setD[OF assms(2)] by simp
  moreover have "length jobs = n" using mset_eq_length[OF assms(2)] by simp
  ultimately show ?thesis using setup_jobs_done[OF assms(1)] by (simp add: setup_start_def del: set_map)
qed

text \<open>
  The output file is touched only after every user was registered, or existed already, and logged in.
  When it is written it has one entry per user, entry \<open>i\<close> for user \<open>i\<close>, whatever the order of the
  workers; and when the tool reports success the file is written and the two counts of the
  report add up to the number of users.
\<close>

theorem setup_users_complete:
  assumes "setup_main api os fl w jobs elapsed = (e, out)" and "mset (map fst jobs) = mset [0..<nat (sfN fl)]"
  shows "(\<forall>tf. out = Written tf \<longrightarrow> int (length (tfUsers tf)) = sfN fl
      \<and> (\<forall>i < length (tfUsers tf). utEmail (tfUsers tf ! i) = setup_email i))
    \<and> (\<forall>ls. e = ToolDone ls \<longrightarrow> (\<exists>st tf. out = Written tf \<and> ls = [setup_line fl st elapsed]
         \<and> tfUsers tf = ssUsers st \<and> ssRegistered st + ssPreexisting st = sfN fl))"
proof (cases "out = Untouched")
  case True
  with assms(1) show ?thesis
    by (auto simp: setup_main_def write_tokens_def Let_def split: sum.splits option.splits if_splits prod.splits)
next
  case False
  with assms(1) obtain st admin pw where st: "0 \<le> sfN fl" "ssFirstErr st = None"
    "st = setup_jobs api (sfBase fl) pw jobs (setup_start (nat (sfN fl)))"
    and out: "out = Incomplete \<and> (\<exists>err. e = ToolFail err) \<or>
     out = Written \<lparr>tfAdmin = admin, tfUsers = ssUsers st\<rparr> \<and> (e = ToolDone [setup_line fl st elapsed] \<or> (\<exists>err. e = ToolFail err))"
    by (rule setup_main_written) blast
  have "ssRegistered st + ssPreexisting st = sfN fl \<and> int (length (ssUsers st)) = sfN fl
      \<and> (\<forall>i < length (ssUsers st). utEmail (ssUsers st ! i) = setup_email i)"
    using setup_all_done[OF _ assms(2), of api "sfBase fl" pw] st by simp
  with out show ?thesis by auto
qed

section \<open>From one tool to the next\<close>

definition tokens_of :: "tokensFile \<Rightarrow> tokens" where
  "tokens_of tf = \<lparr>tkAdmin = tfAdmin tf, tkUsers = map (\<lambda>u. (utID u, utToken u)) (tfUsers tf)\<rparr>"

text \<open>
  On the file that \<^verbatim>\<open>setup-users\<close> wrote, read back as it was written, with no more participants than users and
  at least one worker, the fairness tool neither panics nor blocks: it prints its report when every
  draw through the API returned the requested number of winners, all of them participants, and
  fails otherwise.
\<close>

theorem fairness_runs_on_setup:
  assumes "setup_main sapi os sfl w jobs elapsed = (e, Written tf)"
    and "mset (map fst jobs) = mset [0..<nat (sfN sfl)]"
    and "ReadFile (afTokens afl) = Inr raw" and "Unmarshal raw = Inr (tokens_of tf)"
    and "0 \<le> afK afl" and "afK afl \<le> sfN sfl" and "0 < afC afl"
  shows "let us = take (nat (afK afl)) (tfUsers tf);
      results = map fst (run_draws api (afBase afl) (tfAdmin tf) (map utToken us) (afW afl) worlds) in
    if complete_draws (map utID us) (afW afl) results
    then \<exists>out. fairness_api_main F api ReadFile Unmarshal afl worlds el = ToolDone out
    else \<exists>err. fairness_api_main F api ReadFile Unmarshal afl worlds el = ToolFail err"
proof -
  let ?us = "take (nat (afK afl)) (tfUsers tf)"
  let ?runs = "run_draws api (afBase afl) (tfAdmin tf) (map utToken ?us) (afW afl) worlds"
  let ?report = "api_report F (map utID ?us) (afW afl) (afDraws afl) el (sum_list (map (kcTransportErrors \<circ> snd) ?runs)) (map fst ?runs)"
  obtain st admin pw where "0 \<le> sfN sfl" "ssFirstErr st = None" "st = setup_jobs sapi (sfBase sfl) pw jobs (setup_start (nat (sfN sfl)))"
    "tf = \<lparr>tfAdmin = admin, tfUsers = ssUsers st\<rparr>"
    by (rule setup_main_written[OF assms(1)]) auto
  with setup_all_done[OF _ assms(2)] have "int (length (tfUsers tf)) = sfN sfl" by simp
  with assms(3-7) have "fairness_api_main F api ReadFile Unmarshal afl worlds el
      = (case ?report of Inl err \<Rightarrow> ToolFail err | Inr out \<Rightarrow> ToolDone out)"
    by (simp add: fairness_api_main_def tokens_of_def Let_def take_map o_def)
  moreover have "isl ?report \<longleftrightarrow> \<not> complete_draws (map utID ?us) (afW afl) (map fst ?runs)"
    by (rule run_draws_report[OF refl])
  ultimately show ?thesis by (cases ?report) (auto simp: Let_def)
qed

section \<open>An example\<close>

definition demo_setup :: "nat setup_api" where
  "demo_setup = \<lparr>suDo = (\<lambda>url body w. (Inr \<lparr>arStatus = (if url = ''b/auth/login'' then 200 else if w mod 2 = 0 then 201 else 409),
       arBody = body\<rparr>, w + 1)),
     suMarshal = concat \<circ> map snd, suDecodeEnvelope = (\<lambda>b. \<lparr>evSuccess = True, evData = b, evError = ''''\<rparr>),
     suDecodeLogin = (\<lambda>b. Inr (b, int (length b)))\<rparr>"

definition demo_os :: os_lib where
  "demo_os = \<lparr>osReadFile = (\<lambda>_. Inr '' secret ''), osGetenv = (\<lambda>_. ''pw''), osOpenFile = (\<lambda>_. None), osEncode = (\<lambda>_. None),
     osClose = None\<rparr>"

definition demo_flags :: setup_flags where
  "demo_flags = setup_defaults\<lparr>sfBase := ''b'', sfN := 2\<rparr>"

lemma demo_setup_runs: "\<exists>ls tf. setup_main demo_setup demo_os demo_flags 0 [(1, 0), (0, 3)] ''0.1'' = (ToolDone ls, Written tf)"
  by (simp add: setup_main_def setup_user_def setup_login_def post_def demo_setup_def setup_record_def demo_os_def demo_flags_def
      setup_defaults_def setup_start_def write_tokens_def Let_def)

lemma demo_setup_jobs: "mset (map fst [(1::nat, 0::nat), (0, 3)]) = mset [0..<nat (sfN demo_flags)]"
  by (simp add: demo_flags_def setup_defaults_def numeral_2_eq_2 add_mset_commute)

theorem setup_users_complete_witness:
  "\<exists>ls tf. setup_main demo_setup demo_os demo_flags 0 [(1, 0), (0, 3)] ''0.1'' = (ToolDone ls, Written tf) \<and> length (tfUsers tf) = 2"
proof -
  obtain ls tf where run: "setup_main demo_setup demo_os demo_flags 0 [(1, 0), (0, 3)] ''0.1'' = (ToolDone ls, Written tf)"
    using demo_setup_runs by blast
  have "sfN demo_flags = 2" by (simp add: demo_flags_def)
  with setup_users_complete[OF run demo_setup_jobs] run show ?thesis by auto
qed

lemma demo_api_draw_fails: "isl (fst (oneDraw demo_api base admin toks w (new_client n)))"
  by (simp add: oneDraw_def Let_def call_def demo_api_def eval_nat_numeral sleep_def)

theorem fairness_runs_on_setup_witness:
  "\<exists>ls tf err. setup_main demo_setup demo_os demo_flags 0 [(1, 0), (0, 3)] ''0.1'' = (ToolDone ls, Written tf)
     \<and> fairness_api_main (real_ops (\<lambda>_. 0) (\<lambda>_ _. '''')) demo_api Inr (\<lambda>_. Inr (tokens_of tf)) (api_defaults\<lparr>afK := 2\<rparr>) [0] ''0.1''
       = ToolFail err"
proof -
  obtain ls tf where run: "setup_main demo_setup demo_os demo_flags 0 [(1, 0), (0, 3)] ''0.1'' = (ToolDone ls, Written tf)"
    using demo_setup_runs by blast
  let ?fl = "api_defaults\<lparr>afK := 2\<rparr>"
  have flags: "0 \<le> afK ?fl" "afK ?fl \<le> sfN demo_flags" "0 < afC ?fl"
    by (simp_all add: demo_flags_def api_defaults_def)
  have "\<not> complete_draws ids w (map fst (run_draws demo_api base admin toks w [0]))" for ids w base admin toks
    using demo_api_draw_fails[of base admin toks w 0]
    by (auto simp: complete_draws_def run_draws_def isl_def)
  with fairness_runs_on_setup[OF run demo_setup_jobs, of Inr ?fl _ "\<lambda>_. Inr (tokens_of tf)", OF refl refl flags,
      of demo_api "[0]" "real_ops (\<lambda>_. 0) (\<lambda>_ _. '''')" "''0.1''"] run
  show ?thesis by (auto simp: Let_def)
qed

end
