(* ===== verification/Loadtest_Aggregate.thy ===== *)
theory Loadtest_Aggregate
  imports Loadtest_Stats "HOL-Library.Char_ord" "HOL-Library.List_Lexorder"
begin

text \<open>
  loadtest/cmd/aggregate/main.go: the table of medians and ranges over the runs of a load test.  A
  directory is the list of its entries in the order \<^verbatim>\<open>os.ReadDir\<close> returns them, each with the summary
  \<^verbatim>\<open>json.Unmarshal\<close> makes of it, if any; the output is the list of lines printed.  Shown here: what a
  cell of the table says about the values of the runs.
\<close>

record 'f float64_conv = "'f float64" +
  fTrunc :: "'f \<Rightarrow> int"

record 'f metric =
  mtType :: string
  mtValues :: "(string \<times> 'f) list"

record 'f summary =
  smDurationMs :: 'f
  smMetrics :: "(string \<times> 'f metric) list"

record 'f meta =
  maDescription :: string
  maStageSeconds :: 'f

section \<open>Names\<close>

text \<open>\<^verbatim>\<open>^run(\d+)\.json$\<close>\<close>

definition runFile :: "string \<Rightarrow> bool" where
  "runFile name \<longleftrightarrow>
     HasPrefix name ''run'' \<and>
     (let ds = takeWhile is_digit (drop 3 name) in ds \<noteq> '''' \<and> drop (3 + length ds) name = ''.json'')"

definition word_char :: "char \<Rightarrow> bool" where
  "word_char c \<longleftrightarrow> of_char c \<in> {97..122 :: nat} \<or> is_digit c \<or> c = CHR ''_''"

text \<open>The metrics worth tabulating: a name, and in braces a stage or an endpoint or nothing.\<close>

definition keep_base :: "string \<Rightarrow> bool" where
  "keep_base b \<longleftrightarrow>
     b \<in> set [''http_reqs'', ''http_req_duration'', ''http_req_failed'', ''iterations'', ''dropped_iterations'',
        ''data_received'', ''book_201_duration'', ''book_end_to_end_duration'', ''book_attempts''] \<or>
     HasPrefix b ''st_'' \<and> drop 3 b \<noteq> '''' \<and> list_all word_char (drop 3 b) \<or>
     HasPrefix b ''draw_'' \<and> drop 5 b \<noteq> '''' \<and> list_all word_char (drop 5 b)"

definition keep_tag :: "string \<Rightarrow> string \<Rightarrow> bool" where
  "keep_tag pre s \<longleftrightarrow>
     HasPrefix s pre \<and> (let t = drop (length pre) s in
       2 \<le> length t \<and> last t = CHR ''}'' \<and> CHR ''}'' \<notin> set (butlast t))"

definition keep :: "string \<Rightarrow> bool" where
  "keep n \<longleftrightarrow>
     keep_base (takeWhile (\<lambda>c. c \<noteq> CHR ''{'') n) \<and>
     (let s = dropWhile (\<lambda>c. c \<noteq> CHR ''{'') n in
      s = '''' \<or> keep_tag ''{stage:'' s \<or> keep_tag ''{ep:'' s)"

definition trendKeys :: "string list" where
  "trendKeys = [''med'', ''p(95)'', ''p(99)'', ''max'']"

section \<open>A cell\<close>

text \<open>\<^verbatim>\<open>sort.Float64s\<close>: by the usual order, with NaN first.\<close>

definition fBefore :: "('f, 'm) float64_scheme \<Rightarrow> 'f \<Rightarrow> 'f \<Rightarrow> bool" where
  "fBefore F a b \<longleftrightarrow> fLess F a b \<or> \<not> fLeq F a a \<and> fLeq F b b"

fun fInsert :: "('f, 'm) float64_scheme \<Rightarrow> 'f \<Rightarrow> 'f list \<Rightarrow> 'f list" where
  "fInsert F x [] = [x]"
| "fInsert F x (y # ys) = (if fBefore F y x then y # fInsert F x ys else x # y # ys)"

definition Float64s :: "('f, 'm) float64_scheme \<Rightarrow> 'f list \<Rightarrow> 'f list" where
  "Float64s F xs = foldr (fInsert F) xs []"

definition stat_values :: "('f, 'm) float64_scheme \<Rightarrow> 'f list \<Rightarrow> 'f \<times> 'f \<times> 'f" where
  "stat_values F xs =
     (let s = Float64s F xs; n = length s;
          med = (if n mod 2 = 1 then s ! (n div 2) else fDiv F (fAdd F (s ! (n div 2 - 1)) (s ! (n div 2))) (fOf F 2))
      in (med, s ! 0, s ! (length s - 1)))"

definition f_string :: "('f, 'm) float64_conv_scheme \<Rightarrow> 'f \<Rightarrow> string" where
  "f_string F x =
     (let t = fOf F (fTrunc F x) in
      if fLeq F x t \<and> fLeq F t x then FormatInt (fTrunc F x)
      else if fLeq F (fOf F 100) x then fFixed F 0 x
      else if fLeq F (fOf F 10) x then fFixed F 1 x
      else fFixed F 2 x)"

definition stat :: "('f, 'm) float64_conv_scheme \<Rightarrow> 'f list \<Rightarrow> string" where
  "stat F xs =
     (case stat_values F xs of (med, lo, hi) \<Rightarrow>
        f_string F med @ '' ['' @ f_string F lo @ '' '' @ [CHR 0xE2, CHR 0x80, CHR 0x93] @ '' '' @ f_string F hi @ '']'')"

section \<open>A table\<close>

text \<open>A missing metric or value of a Go map reads as its zero value.\<close>

definition value_of :: "'f summary \<Rightarrow> string \<Rightarrow> string \<Rightarrow> 'f option" where
  "value_of s name key =
     (case map_of (smMetrics s) name of None \<Rightarrow> None | Some m \<Rightarrow> map_of (mtValues m) key)"

definition value0 :: "('f, 'm) float64_scheme \<Rightarrow> 'f summary \<Rightarrow> string \<Rightarrow> string \<Rightarrow> 'f" where
  "value0 F s name key = (case value_of s name key of None \<Rightarrow> fOf F 0 | Some v \<Rightarrow> v)"

definition row :: "('f, 'm) float64_conv_scheme \<Rightarrow> 'f summary list \<Rightarrow> string \<Rightarrow> ('f summary \<Rightarrow> 'f option) \<Rightarrow> string list" where
  "row F runs label get =
     (let xs = List.map_filter get runs in
      if xs \<noteq> [] then [''| '' @ label @ '' | '' @ stat F xs @ '' |''] else [])"

definition per_second_rows :: "('f, 'm) float64_conv_scheme \<Rightarrow> 'f meta \<Rightarrow> 'f summary list \<Rightarrow> string \<Rightarrow> string list" where
  "per_second_rows F m runs name =
     (if HasPrefix name ''http_reqs'' \<or> HasPrefix name ''st_201'' \<or> HasPrefix name ''iterations'' then
        if Contains_str name ''{stage:'' \<and> fLess F (fOf F 0) (maStageSeconds m) then
          row F runs (name @ '' per s (stage)'') (\<lambda>s. Some (fDiv F (value0 F s name ''count'') (maStageSeconds m)))
        else if \<not> Contains_str name ''{stage:'' then
          row F runs (name @ '' per s (run)'')
            (\<lambda>s. Some (fDiv F (value0 F s name ''count'') (fDiv F (smDurationMs s) (fOf F 1000))))
        else []
      else [])"

definition trend_rows :: "('f, 'm) float64_conv_scheme \<Rightarrow> 'f summary list \<Rightarrow> string \<Rightarrow> string list" where
  "trend_rows F runs name =
     (if \<not> list_ex (\<lambda>s. fLess F (fOf F 0) (value0 F s name ''count'')) runs then []
      else let unit = (if HasPrefix name ''book_attempts'' then '''' else '' (ms)'') in
        concat (map (\<lambda>key. row F runs (name @ '' '' @ key @ unit) (\<lambda>s. value_of s name key)) trendKeys))"

definition type_of :: "'f summary list \<Rightarrow> string \<Rightarrow> string" where
  "type_of runs name =
     (case find (\<lambda>s. map_of (smMetrics s) name \<noteq> None) runs of
        None \<Rightarrow> ''''
      | Some s \<Rightarrow> (case map_of (smMetrics s) name of None \<Rightarrow> '''' | Some m \<Rightarrow> mtType m))"

definition metric_rows :: "('f, 'm) float64_conv_scheme \<Rightarrow> 'f meta \<Rightarrow> 'f summary list \<Rightarrow> string \<Rightarrow> string list" where
  "metric_rows F m runs name =
     (let typ = type_of runs name in
      if typ = ''counter'' then
        row F runs (name @ '' count'') (\<lambda>s. Some (value0 F s name ''count'')) @ per_second_rows F m runs name
      else if typ = ''rate'' then row F runs (name @ '' rate'') (\<lambda>s. value_of s name ''rate'')
      else if typ = ''trend'' then trend_rows F runs name
      else [])"

definition kept_names :: "'f summary list \<Rightarrow> string list" where
  "kept_names runs = sort (remdups (filter keep (concat (map (\<lambda>s. map fst (smMetrics s)) runs))))"

definition run_summaries :: "(string \<times> 'f summary option) list \<Rightarrow> (string \<times> 'f summary) list" where
  "run_summaries entries =
     List.map_filter (\<lambda>(name, parsed). if runFile name then map_option (Pair name) parsed else None) entries"

fun join_comma :: "string list \<Rightarrow> string" where
  "join_comma [] = ''''"
| "join_comma [x] = x"
| "join_comma (x # xs) = x @ '', '' @ join_comma xs"

definition emit ::
  "('f, 'm) float64_conv_scheme \<Rightarrow> string \<Rightarrow> 'f meta \<Rightarrow> (string \<times> 'f summary option) list \<Rightarrow> string list" where
  "emit F rel m entries =
     (let files = map fst (run_summaries entries); runs = map snd (run_summaries entries) in
      ['''', ''## '' @ rel, '''']
      @ (if maDescription m \<noteq> '''' then [maDescription m, ''''] else [])
      @ [''Runs: '' @ join_comma files @ '' (n='' @ FormatInt (int (length runs)) @ '')'', '''',
         ''| metric | value |'', ''|---|---|'']
      @ row F runs ''test duration (s)'' (\<lambda>s. Some (fDiv F (smDurationMs s) (fOf F 1000)))
      @ concat (map (metric_rows F m runs) (kept_names runs)))"

text \<open>
  The command, over the directories below the results directory, each with its path, its path in
  the report, its \<^verbatim>\<open>meta.json\<close> and its entries.
\<close>

definition has_runs :: "(string \<times> 'f summary option) list \<Rightarrow> bool" where
  "has_runs entries \<longleftrightarrow> list_ex (\<lambda>(name, _). HasPrefix name ''run'' \<and> HasSuffix name ''.json'') entries"

definition aggregate ::
  "('f, 'm) float64_conv_scheme \<Rightarrow> (string \<times> string \<times> 'f meta \<times> (string \<times> 'f summary option) list) list \<Rightarrow> string list" where
  "aggregate F dirs =
     [''# Aggregated k6 results (generated by loadtest/cmd/aggregate)'', '''',
      ''Each cell is '' @ [CHR 0x60] @ ''median [min '' @ [CHR 0xE2, CHR 0x80, CHR 0x93] @ '' max]'' @ [CHR 0x60]
        @ '' across the runs listed. Local, single machine.'',
      ''A counter missing from a run'' @ [CHR 0x27] @ ''s summary (k6 omits counters that never fired) is counted as 0.'']
     @ concat (map (\<lambda>(_, rel, m, entries). emit F rel m entries)
         (sort_key fst (filter (\<lambda>(_, _, _, entries). has_runs entries) dirs)))"

section \<open>What a cell says\<close>

lemma fInsert_real: "fInsert (real_ops g fm) x ys = insort x ys"
  by (induction ys) (auto simp: fBefore_def)

lemma Float64s_real: "Float64s (real_ops g fm) xs = sort xs"
  by (induction xs) (simp_all add: Float64s_def fInsert_real)

lemma below_sorted:
  assumes "sorted s" and "i < length s" and "s ! i \<le> m"
  shows "Suc i \<le> length (filter (\<lambda>x. x \<le> m) s)"
proof -
  have "s ! j \<le> m" if "j < Suc i" for j
    using sorted_nth_mono[OF assms(1), of j i] that assms(2,3) by simp
  then have "\<forall>x \<in> set (take (Suc i) s). x \<le> m" by (auto simp: in_set_conv_nth)
  then have "length (filter (\<lambda>x. x \<le> m) (take (Suc i) s)) = Suc i" using assms(2) by simp
  moreover have "length (filter (\<lambda>x. x \<le> m) s)
      = length (filter (\<lambda>x. x \<le> m) (take (Suc i) s)) + length (filter (\<lambda>x. x \<le> m) (drop (Suc i) s))"
    by (metis append_take_drop_id filter_append length_append)
  ultimately show ?thesis by simp
qed

lemma above_sorted:
  assumes "sorted s" and "i < length s" and "m \<le> s ! i"
  shows "length s - i \<le> length (filter (\<lambda>x. m \<le> x) s)"
proof -
  have "m \<le> s ! (i + j)" if "j < length s - i" for j
    using sorted_nth_mono[OF assms(1), of i "i + j"] that assms(2,3) by fastforce
  then have "\<forall>x \<in> set (drop i s). m \<le> x" by (auto simp: in_set_conv_nth)
  then have "length (filter (\<lambda>x. m \<le> x) (drop i s)) = length s - i" using assms(2) by simp
  moreover have "length (filter (\<lambda>x. m \<le> x) s)
      = length (filter (\<lambda>x. m \<le> x) (take i s)) + length (filter (\<lambda>x. m \<le> x) (drop i s))"
    by (metis append_take_drop_id filter_append length_append)
  ultimately show ?thesis by simp
qed

lemma length_filter_sort: "length (filter P (sort xs)) = length (filter P (xs :: 'a :: linorder list))"
  by (metis mset_filter mset_sort size_mset)

lemma sorted_ends:
  assumes "xs \<noteq> []"
  shows "sort xs ! 0 = Min (set xs)" and "sort xs ! (length xs - 1) = Max (set xs)"
proof -
  have "sort xs ! 0 \<in> set xs" "sort xs ! (length xs - 1) \<in> set xs"
    using assms nth_mem[of _ "sort xs"] by auto
  moreover have "sort xs ! 0 \<le> x \<and> x \<le> sort xs ! (length xs - 1)" if "x \<in> set xs" for x
  proof -
    have "x \<in> set (sort xs)" using that by simp
    then obtain i where "i < length xs" "x = sort xs ! i"
      unfolding in_set_conv_nth length_sort by blast
    then show ?thesis
      using sorted_nth_mono[OF sorted_sort, of 0 i xs] sorted_nth_mono[OF sorted_sort, of i "length xs - 1" xs] by simp
  qed
  ultimately show "sort xs ! 0 = Min (set xs)" "sort xs ! (length xs - 1) = Max (set xs)"
    using Min_eqI[of "set xs" "sort xs ! 0"] Max_eqI[of "set xs" "sort xs ! (length xs - 1)"] by simp_all
qed

text \<open>
  A cell of the table: in exact arithmetic its bounds are the least and the greatest value of the
  runs, its middle value has at least half of the values on either side, and the order in which
  the runs were read does not matter.
\<close>

theorem stat_median:
  assumes "xs \<noteq> []" and "stat_values (real_ops g fm) xs = (med, lo, hi)"
  shows "lo = Min (set xs) \<and> hi = Max (set xs)
    \<and> length xs \<le> 2 * length (filter (\<lambda>x. x \<le> med) xs) \<and> length xs \<le> 2 * length (filter (\<lambda>x. med \<le> x) xs)
    \<and> (\<forall>ys. mset ys = mset xs \<longrightarrow> stat_values (real_ops g fm) ys = (med, lo, hi))"
proof -
  define s n where "s = sort xs" and "n = length xs"
  have s: "sorted s" "length s = n" "0 < n" using assms(1) by (simp_all add: s_def n_def)
  have v: "med = (if n mod 2 = 1 then s ! (n div 2) else (s ! (n div 2 - 1) + s ! (n div 2)) / 2)"
    "lo = s ! 0" "hi = s ! (n - 1)"
    using assms(2) by (simp_all add: stat_values_def Float64s_real s_def n_def Let_def split: if_splits)
  have i: "n div 2 < n" using s(3) by simp
  have half: "n \<le> 2 * length (filter (\<lambda>x. x \<le> med) s) \<and> n \<le> 2 * length (filter (\<lambda>x. med \<le> x) s)"
  proof (cases "n mod 2 = 1")
    case True
    then show ?thesis
      using below_sorted[OF s(1), of "n div 2" med] above_sorted[OF s(1), of "n div 2" med] i s(2) v(1) by simp linarith
  next
    case False
    then have n: "n div 2 - 1 < n" "2 * (n div 2) = n" "Suc (n div 2 - 1) = n div 2" using s(3) by (auto simp: Suc_diff_1)
    have "s ! (n div 2 - 1) \<le> s ! (n div 2)" using s i by (intro sorted_nth_mono) auto
    then have "s ! (n div 2 - 1) \<le> med" "med \<le> s ! (n div 2)" using False v(1) by auto
    then show ?thesis
      using below_sorted[OF s(1), of "n div 2 - 1" med] above_sorted[OF s(1), of "n div 2" med] n i s(2) by auto
  qed
  moreover have "stat_values (real_ops g fm) ys = (med, lo, hi)" if "mset ys = mset xs" for ys
  proof -
    have "sort ys = sort xs" using that by (metis properties_for_sort mset_sort sorted_sort)
    then show ?thesis using assms(2) unfolding stat_values_def Float64s_real by simp
  qed
  ultimately show ?thesis
    using sorted_ends[OF assms(1)] v(2,3) by (auto simp: s_def n_def length_filter_sort)
qed

theorem stat_median_witness:
  "\<exists>med lo hi. stat_values (real_ops (\<lambda>x. x) (\<lambda>_ _. '''')) [3, 1, 2 :: real] = (med, lo, hi) \<and> lo = 1 \<and> hi = 3"
proof -
  obtain med lo hi where v: "stat_values (real_ops (\<lambda>x. x) (\<lambda>_ _. '''')) [3, 1, 2 :: real] = (med, lo, hi)"
    by (rule prod_cases3)
  from stat_median[OF _ v] v show ?thesis by auto
qed

text \<open>The names in the table: those that match, each once, in order.\<close>

lemma kept_names_sorted:
  "sorted (kept_names runs)" "distinct (kept_names runs)"
  "set (kept_names runs) = {n. keep n \<and> (\<exists>s \<in> set runs. n \<in> fst ` set (smMetrics s))}"
  by (auto simp: kept_names_def)

end
