(* ===== verification/Spec2Isabelle.thy ===== *)
theory Spec2Isabelle
  imports Server Lottery_Fairness Loadtest_Setup Loadtest_Aggregate
begin

text \<open>
  Verification of the lottery backend, a Go service in which users book places in events and an
  administrator draws winners from the bookings.

  \<^bold>\<open>The program.\<close>  Requests reach \<^verbatim>\<open>cmd/server\<close> through a chain of middleware (logging, recovery from
  panics, client address, request id, headers, body limit, timeout, CORS, rate limits, tokens),
  are routed to the handlers of four packages (auth, event, booking, lottery) and from there to
  their services, which run SQL statements and transactions against PostgreSQL.  A booking passes
  a gate in the process (one goroutine per event), a lock in Redis (one process per event) and a
  transaction that locks the event's row.  A draw shuffles the entrants with random bytes from the
  operating system, stores every rank and seals the outcome with a SHA-256 digest, which the
  results page verifies.  On start the server loads its configuration, applies the embedded
  migrations and makes sure of a first administrator.

  \<^bold>\<open>The theories.\<close>
  \<^item> \<open>Prelude\<close>: word-size wrap-around, list lemmas, and the locales for delimited encodings, step
    invariants and simulations.
  \<^item> \<open>Go_Errors\<close>, \<open>Go_Strings\<close>, \<open>Go_Time\<close>, \<open>Go_Netip\<close>, \<open>Sha256\<close>: what the code uses of the language
    and its standard library (error chains and \<^verbatim>\<open>errors.Is\<close>, \<^verbatim>\<open>strconv\<close>, \<^verbatim>\<open>strings\<close>, instants and
    durations with RFC 3339 printing, IP addresses and prefixes, the hash).
  \<^item> \<open>Models\<close>, \<open>Httpx\<close>, \<open>Database\<close>: internal/models, internal/httpx, and the tables of
    internal/db/migrations with their constraints and triggers, the SQL statements of the services,
    calls that fail, transactions whose commit succeeds, fails or is lost (internal/pgerr is in
    \<open>Go_Errors\<close>).  \<open>Scenario\<close> holds a small database for examples.
  \<^item> \<open>Lottery_Algorithm\<close>, \<open>Lottery_Fairness\<close>, \<open>Seal\<close>, \<open>Lottery_Service\<close>: internal/lottery.
  \<^item> \<open>Event_Service\<close>: internal/event.  \<open>Gate\<close>, \<open>Redis_Lock\<close>, \<open>Booking_Service\<close>: internal/booking.
  \<^item> \<open>Http_Server\<close>, \<open>Client_IP\<close>, \<open>Auth_Token\<close>: internal/middleware.  \<open>Auth_Service\<close>: internal/auth.
  \<^item> \<open>Config\<close>: internal/config.  \<open>Migrations\<close>: internal/db/migrate.go.  \<open>Startup\<close>: internal/db/postgres.go,
    internal/db/redis.go and the first half of cmd/server/main.go.
  \<^item> \<open>Lottery_Spec\<close>, \<open>Operations\<close>: an abstract specification of events, entrants and outcomes, and
    the services' operations as steps on one database that implement it.
  \<^item> \<open>Server\<close>: routes, chains and probes of cmd/server, and the whole program from start to stop.
  \<^item> \<open>Loadtest_Stats\<close>, \<open>Loadtest_Api\<close>, \<open>Loadtest_Setup\<close>, \<open>Loadtest_Aggregate\<close>: the tools under loadtest, the
    chi-square statistics and the fairness experiment, the clients of a running server, and the report.

  \<^bold>\<open>How code and model correspond.\<close>  A struct is a record with the source's fields, a service
  operation a function from the database to a result and the database it leaves, an error a value
  with its chain of wrapped errors.  The clock, the random bytes, the failures of single calls, the
  order in which the server returns rows that an ORDER BY leaves open, and the work of others in
  Redis are arguments (the \<open>_env\<close> records), so a theorem holds for all of them.  A handler is a
  function from a request and a state to the calls it makes on the response writer, its log
  lines, its panic if any, and the new state; a middleware maps handlers to handlers.  The gate is
  a step relation over goroutines, a heap of gate objects and the map, one step per critical
  section or channel operation; the Redis lock is one over clients, a store and time.

  \<^bold>\<open>Parameters.\<close>  JWT signing and parsing (\<open>jwt_ok\<close>), bcrypt (\<open>bcrypt_ok\<close>), \<^verbatim>\<open>net/mail\<close>, Unicode lower case
  outside ASCII, JSON decoding and encoding, floating point (a record of operations), go-redis
  (locale \<open>redis_server\<close>), pgx and its pool, chi and httprate (\<open>middleware_ok\<close>, \<open>packages_lineless\<close>), and
  what a migration script does to the database.  Each hypothesis
  on them is documented behaviour, named, and shown satisfiable by a concrete instance.

  \<^bold>\<open>What is shown.\<close>  The shuffle is uniform and a draw gives every entrant the same chance; a draw is
  stored completely or not at all, its results verify, and tampering with them does not; no event
  is overbooked; gate and lock exclude, are fair or expire, and do not leak; status changes follow
  the state machine; the operations refine the specification, so that in every reachable state
  drawn events are final; tokens, login and client addresses cannot be forged through the
  middleware; only administrators change events and roles; the configuration, the migrations
  and the start-up establish what the server relies on, and the server keeps the invariant from
  start to stop.  The load-test clients send boundedly many requests, their retries of bookings,
  closings and draws change nothing (a retried creation leaves a second, empty event behind), and
  their counts are right.  Where the code does less than its comments say, a theorem states what
  it does.

  \<^bold>\<open>Loops and fuel.\<close>  The only loop without a structural bound is the wait for the Redis lock: it is a
  function with fuel, one unit per attempt, and more than the wait limit in milliseconds is
  enough because every backoff takes at least a millisecond (\<open>booking_returns\<close>).  Rejection
  sampling consumes a finite stream of random bytes and reports when it runs out.

  \<^bold>\<open>Not modelled.\<close>  The JSON text of requests and responses, HTTP on the wire, the timeouts of
  \<^verbatim>\<open>http.Server\<close>, 1xx responses (no handler sends one), log output other than the lines of the middleware; in the load-test tools the parsing
  of flags, the bytes of files and the rounding of floating point.  Concurrent transactions are
  taken one after the other, as the row locks make them for one event; what others commit between a
  transaction and the query after it is an argument.
\<close>

end
